(* ===== verification/Prelude.thy ===== *)
theory Prelude
  imports Main "HOL-Library.Word"
begin

text \<open>
  Shared vocabulary of the development: machine types, the ways a C function of adbd can
  stop instead of returning, the sequencing operator over that outcome, the byte layout of
  a 32-bit field in memory (little endian, the layout the protocol relies on), and the C
  string and number formatting routines of libc that the sources call.
\<close>

unbundle bit_operations_syntax

section \<open>Machine types\<close>

type_synonym u8 = "8 word"
type_synonym u16 = "16 word"
type_synonym u32 = "32 word"
type_synonym bytes = "u8 list"
type_synonym addr = nat \<comment> \<open>address of an object in C memory; 0 is the null pointer\<close>

named_theorems stop_simps \<open>rewriting of sequenced computations\<close>
named_theorems layout_simps \<open>memory layout of machine words\<close>

section \<open>Outcomes\<close>

text \<open>
  A call either returns a value or the process stops inside it: it blocks for good in a
  system call, it leaves through \<open>exit\<close>, it aborts, or it reads through a null or a dangling
  pointer (undefined behaviour, a crash in the best case), or it goes past the end of a buffer.
  \<open>NoFuel\<close> is no behaviour of the program: a definition that bounds the depth of nested calls
  reports with it that the bound was too small.
\<close>

datatype stop = Blocked | Exit int | Aborts | NullDeref | Dangling | OutOfBounds | NoFuel

type_synonym 'a outcome = "stop + 'a"

text \<open>The functions that print a message and leave: \<open>fatal\<close> and \<open>fatal_errno\<close> of \<open>adb.c\<close>, and the \<open>fatal\<close> of \<open>fdevent.c\<close>
  behind the macro \<open>FATAL\<close>, which aborts.\<close>

abbreviation fatal :: "'a outcome" where "fatal \<equiv> Inl (Exit (-1))"
abbreviation fatal_errno :: "'a outcome" where "fatal_errno \<equiv> Inl (Exit (-1))"
abbreviation FATAL :: "'a outcome" where "FATAL \<equiv> Inl Aborts"

definition andthen :: "'a outcome \<Rightarrow> ('a \<Rightarrow> 'b outcome) \<Rightarrow> 'b outcome" where
  "andthen m f = (case m of Inl e \<Rightarrow> Inl e | Inr x \<Rightarrow> f x)"

lemma andthen_simps [simp, stop_simps]:
  "andthen (Inl e) f = Inl e"
  "andthen (Inr x) f = f x"
  by (simp_all add: andthen_def)

lemma andthen_Inr_iff: "andthen m f = Inr y \<longleftrightarrow> (\<exists>x. m = Inr x \<and> f x = Inr y)"
  by (cases m) auto

lemma andthen_Inl_iff: "andthen m f = Inl e \<longleftrightarrow> m = Inl e \<or> (\<exists>x. m = Inr x \<and> f x = Inl e)"
  by (cases m) auto

lemma andthen_assoc: "andthen (andthen m f) g = andthen m (\<lambda>x. andthen (f x) g)"
  by (cases m) auto

lemma andthen_cong [fundef_cong]:
  "m = m' \<Longrightarrow> (\<And>x. m' = Inr x \<Longrightarrow> f x = f' x) \<Longrightarrow> andthen m f = andthen m' f'"
  by (cases m') auto

text \<open>\<open>returns m P\<close>: the call returns, and what it returns satisfies \<open>P\<close>.\<close>

definition returns :: "'a outcome \<Rightarrow> ('a \<Rightarrow> bool) \<Rightarrow> bool" where
  "returns m P \<longleftrightarrow> (\<exists>x. m = Inr x \<and> P x)"

text \<open>\<open>safely m P\<close>: if the call returns, what it returns satisfies \<open>P\<close>.\<close>

definition safely :: "'a outcome \<Rightarrow> ('a \<Rightarrow> bool) \<Rightarrow> bool" where
  "safely m P \<longleftrightarrow> (\<forall>x. m = Inr x \<longrightarrow> P x)"

lemma returns_simps [simp, stop_simps]:
  "returns (Inr x) P \<longleftrightarrow> P x"
  "\<not> returns (Inl e) P"
  by (auto simp: returns_def)

lemma safely_simps [simp, stop_simps]:
  "safely (Inr x) P \<longleftrightarrow> P x"
  "safely (Inl e) P"
  by (auto simp: safely_def)

lemma returns_andthen:
  "returns m P \<Longrightarrow> (\<And>x. P x \<Longrightarrow> returns (f x) Q) \<Longrightarrow> returns (andthen m f) Q"
  by (auto simp: returns_def)

lemma safely_andthen:
  "safely m P \<Longrightarrow> (\<And>x. P x \<Longrightarrow> safely (f x) Q) \<Longrightarrow> safely (andthen m f) Q"
  by (auto simp: safely_def andthen_Inr_iff)

lemma safely_andthen_any: "(\<And>x. safely (f x) Q) \<Longrightarrow> safely (andthen m f) Q"
  by (auto simp: safely_def andthen_Inr_iff)

lemma safely_mono: "safely m P \<Longrightarrow> (\<And>x. P x \<Longrightarrow> Q x) \<Longrightarrow> safely m Q"
  by (auto simp: safely_def)

lemma returns_safely: "returns m P \<Longrightarrow> safely m P"
  by (auto simp: returns_def safely_def)

section \<open>Little-endian layout\<close>

definition le32 :: "u32 \<Rightarrow> bytes" where
  "le32 w = [ucast w, ucast (drop_bit 8 w), ucast (drop_bit 16 w), ucast (drop_bit 24 w)]"

fun of_le32 :: "bytes \<Rightarrow> u32" where
  "of_le32 (a # b # c # d # _) =
     ucast a OR push_bit 8 (ucast b) OR push_bit 16 (ucast c) OR push_bit 24 (ucast d)"
| "of_le32 _ = 0"

lemma length_le32 [simp, layout_simps]: "length (le32 w) = 4"
  by (simp add: le32_def)

lemma le32_neq_Nil [simp]: "le32 w \<noteq> []"
  by (simp add: le32_def)

lemma of_le32_le32 [simp, layout_simps]: "of_le32 (le32 w @ r) = w"
proof (rule bit_word_eqI)
  fix n assume "n < LENGTH(32)"
  then consider "n < 8" | "8 \<le> n" "n < 16" | "16 \<le> n" "n < 24" | "24 \<le> n" "n < 32"
    by fastforce
  then show "bit (of_le32 (le32 w @ r)) n = bit w n"
    by cases (auto simp: le32_def bit_simps)
qed

lemma of_le32_le32_alone [simp, layout_simps]: "of_le32 (le32 w) = w"
  using of_le32_le32 [of w "[]"] by simp

lemma le32_of_le32: "length bs = 4 \<Longrightarrow> le32 (of_le32 bs) = bs"
proof -
  assume "length bs = 4"
  then obtain a b c d where bs: "bs = [a, b, c, d]"
    by (auto simp: numeral_eq_Suc length_Suc_conv)
  have "ucast (of_le32 bs) = a" "ucast (drop_bit 8 (of_le32 bs)) = b"
    "ucast (drop_bit 16 (of_le32 bs)) = c" "ucast (drop_bit 24 (of_le32 bs)) = d"
    by (rule bit_word_eqI; auto simp: bs bit_simps dest: bit_imp_le_length)+
  then show ?thesis by (simp add: le32_def bs)
qed

section \<open>Words\<close>

lemma word_zero_iff: "w = 0 \<longleftrightarrow> (\<forall>n. \<not> bit w n)" for w :: "'a::len word"
  by (auto intro: bit_eqI)

section \<open>Lists\<close>

lemma take_append_exact [simp]: "n = length xs \<Longrightarrow> take n (xs @ ys) = xs"
  by simp

lemma drop_append_exact [simp]: "n = length xs \<Longrightarrow> drop n (xs @ ys) = ys"
  by simp

lemma remove1_append_notin: "x \<notin> set xs \<Longrightarrow> remove1 x (xs @ x # ys) = xs @ ys"
  by (simp add: remove1_append)

end
