(* ===== verification/Ring.thy ===== *)
theory Ring
  imports Prelude
begin

text \<open>
  The intrusive circular doubly linked lists of adbd, at pointer level. The code has the same
  insertion and unlinking sequence several times: \<open>libcutils/list.c\<close>, the local socket lists
  of \<open>sockets.c\<close>, the pending list of \<open>fdevent.c\<close>, the disconnect lists of \<open>transport.c\<close>.
  Each copy is translated assignment by assignment over a store of \<open>next\<close> and \<open>prev\<close> fields;
  \<open>ring\<close> relates the store to the list of elements it represents, and the locale
  \<open>intrusive_list\<close> states what every copy promises.
\<close>

section \<open>The store and the operations\<close>

record links =
  nxt :: "addr \<Rightarrow> addr"
  prv :: "addr \<Rightarrow> addr"

definition set_next :: "addr \<Rightarrow> addr \<Rightarrow> links \<Rightarrow> links" where
  "set_next p v l = l\<lparr>nxt := (nxt l)(p := v)\<rparr>"

definition set_prev :: "addr \<Rightarrow> addr \<Rightarrow> links \<Rightarrow> links" where
  "set_prev p v l = l\<lparr>prv := (prv l)(p := v)\<rparr>"

subsection \<open>libcutils/list.c\<close>

definition list_init :: "addr \<Rightarrow> links \<Rightarrow> links" where
  "list_init node l = set_prev node node (set_next node node l)"

definition list_add_tail :: "addr \<Rightarrow> addr \<Rightarrow> links \<Rightarrow> links" where
  "list_add_tail head item l0 =
    (let l1 = set_next item head l0;
         l2 = set_prev item (prv l1 head) l1;
         l3 = set_next (prv l2 head) item l2
     in set_prev head item l3)"

definition list_remove :: "addr \<Rightarrow> links \<Rightarrow> links" where
  "list_remove item l0 =
    (let l1 = set_prev (nxt l0 item) (prv l0 item) l0
     in set_next (prv l1 item) (nxt l1 item) l1)"

definition list_empty :: "addr \<Rightarrow> links \<Rightarrow> bool" where
  "list_empty head l \<longleftrightarrow> head = nxt l head"

definition list_head :: "addr \<Rightarrow> links \<Rightarrow> addr" where
  "list_head head l = nxt l head"

subsection \<open>sockets.c\<close>

definition insert_local_socket :: "addr \<Rightarrow> addr \<Rightarrow> links \<Rightarrow> links" where
  "insert_local_socket list s l0 =
    (let l1 = set_next s list l0;
         l2 = set_prev s (prv l1 (nxt l1 s)) l1;
         l3 = set_next (prv l2 s) s l2
     in set_prev (nxt l3 s) s l3)"

definition remove_socket_links :: "addr \<Rightarrow> links \<Rightarrow> links" where
  "remove_socket_links s l0 =
    (if prv l0 s = 0 \<or> nxt l0 s = 0 then l0
     else
       let l1 = set_next (prv l0 s) (nxt l0 s) l0;
           l2 = set_prev (nxt l1 s) (prv l1 s) l1
       in set_prev s 0 (set_next s 0 l2))"

subsection \<open>fdevent.c\<close>

definition fdevent_plist_enqueue :: "addr \<Rightarrow> addr \<Rightarrow> links \<Rightarrow> links" where
  "fdevent_plist_enqueue list node l0 =
    (let l1 = set_next node list l0;
         l2 = set_prev node (prv l1 list) l1;
         l3 = set_next (prv l2 node) node l2
     in set_prev list node l3)"

definition fdevent_plist_remove :: "addr \<Rightarrow> links \<Rightarrow> links" where
  "fdevent_plist_remove node l0 =
    (let l1 = set_next (prv l0 node) (nxt l0 node) l0;
         l2 = set_prev (nxt l1 node) (prv l1 node) l1
     in set_prev node 0 (set_next node 0 l2))"

definition fdevent_plist_dequeue :: "addr \<Rightarrow> links \<Rightarrow> addr option \<times> links" where
  "fdevent_plist_dequeue list l0 =
    (let node = nxt l0 list in
     if node = list then (None, l0)
     else
       let l1 = set_next list (nxt l0 node) l0;
           l2 = set_prev (nxt l1 list) list l1
       in (Some node, set_prev node 0 (set_next node 0 l2)))"

subsection \<open>transport.c\<close>

definition add_disconnect_links :: "addr \<Rightarrow> addr \<Rightarrow> links \<Rightarrow> links" where
  "add_disconnect_links head dis l0 =
    (let l1 = set_next dis head l0;
         l2 = set_prev dis (prv l1 (nxt l1 dis)) l1;
         l3 = set_next (prv l2 dis) dis l2
     in set_prev (nxt l3 dis) dis l3)"

definition remove_disconnect_links :: "addr \<Rightarrow> links \<Rightarrow> links" where
  "remove_disconnect_links dis l0 =
    (let l1 = set_next (prv l0 dis) (nxt l0 dis) l0;
         l2 = set_prev (nxt l1 dis) (prv l1 dis) l1
     in set_next dis dis (set_prev dis dis l2))"

section \<open>The list a ring represents\<close>

text \<open>\<open>chain l a xs b\<close>: from node \<open>a\<close> the nodes \<open>xs\<close> follow one another and \<open>b\<close> comes next,
  with the back pointers in agreement.\<close>

fun chain :: "links \<Rightarrow> addr \<Rightarrow> addr list \<Rightarrow> addr \<Rightarrow> bool" where
  "chain l a [] b \<longleftrightarrow> nxt l a = b \<and> prv l b = a"
| "chain l a (x # xs) b \<longleftrightarrow> nxt l a = x \<and> prv l x = a \<and> chain l x xs b"

definition ring :: "links \<Rightarrow> addr \<Rightarrow> addr list \<Rightarrow> bool" where
  "ring l h xs \<longleftrightarrow> chain l h xs h \<and> distinct (h # xs) \<and> 0 \<notin> set (h # xs)"

lemma chain_append:
  "chain l a (xs @ y # ys) b \<longleftrightarrow> chain l a xs y \<and> chain l y ys b"
  by (induction xs arbitrary: a) auto

lemma chain_nxt_frame:
  "p \<noteq> a \<Longrightarrow> p \<notin> set xs \<Longrightarrow> chain (l\<lparr>nxt := (nxt l)(p := v)\<rparr>) a xs b = chain l a xs b"
  by (induction xs arbitrary: a) auto

lemma chain_prv_frame:
  "p \<noteq> b \<Longrightarrow> p \<notin> set xs \<Longrightarrow> chain (l\<lparr>prv := (prv l)(p := v)\<rparr>) a xs b = chain l a xs b"
  by (induction xs arbitrary: a) auto

lemmas chain_frame = chain_nxt_frame chain_prv_frame

lemma chain_last: "chain l a xs b \<Longrightarrow> prv l b = last (a # xs)"
  by (induction xs arbitrary: a) auto

lemma chain_first: "chain l a xs b \<Longrightarrow> nxt l a = hd (xs @ [b])"
  by (cases xs) auto

lemma chain_links:
  "chain l a xs b \<Longrightarrow> distinct xs \<Longrightarrow> a \<notin> set xs \<Longrightarrow> b \<notin> set xs \<Longrightarrow>
   nxt l' a = nxt l a \<Longrightarrow> prv l' b = prv l b \<Longrightarrow>
   (\<And>x. x \<in> set xs \<Longrightarrow> nxt l' x = nxt l x \<and> prv l' x = prv l x) \<Longrightarrow> chain l' a xs b"
  by (induction xs arbitrary: a) auto

lemma chain_map:
  "chain l a xs b \<longleftrightarrow> map (nxt l) (a # xs) = xs @ [b] \<and> map (prv l) (xs @ [b]) = a # xs"
  by (induction xs arbitrary: a) auto

lemma ring_Nil [simp]: "ring l h [] \<longleftrightarrow> nxt l h = h \<and> prv l h = h \<and> h \<noteq> 0"
  by (auto simp: ring_def)

lemma ring_next: "ring l h xs \<Longrightarrow> nxt l h = (case xs of [] \<Rightarrow> h | x # _ \<Rightarrow> x)"
  by (auto simp: ring_def split: list.splits)

lemma ring_empty_iff: "ring l h xs \<Longrightarrow> nxt l h = h \<longleftrightarrow> xs = []"
  by (auto simp: ring_def neq_Nil_conv split: list.splits) (cases xs; auto)

text \<open>The two shapes every copy reduces to: what the fields are after an insertion at the tail,
  and after unlinking a node in the middle.\<close>

lemma ring_snocI:
  assumes r: "ring l h xs" and x: "x \<noteq> 0" "x \<noteq> h" "x \<notin> set xs"
    and n: "nxt l' = (nxt l)(x := h, last (h # xs) := x)"
    and p: "prv l' = (prv l)(x := last (h # xs), h := x)"
  shows "ring l' h (xs @ [x])"
proof (cases xs rule: rev_cases)
  case Nil
  with r x n p show ?thesis by (auto simp: ring_def)
next
  case (snoc ys y)
  from r snoc have c: "chain l h ys y" "nxt l y = h" "prv l h = y"
    and d: "distinct ys" "h \<notin> set ys" "y \<notin> set ys" "y \<noteq> h" "0 \<notin> set (h # ys @ [y])"
    by (auto simp: ring_def chain_append)
  have "chain l' h ys y"
    by (rule chain_links [OF c(1)]) (use d x n p snoc in auto)
  moreover have "nxt l' y = x" "prv l' x = y" "nxt l' x = h" "prv l' h = x"
    using d x n p snoc by auto
  ultimately show ?thesis
    using d x snoc by (auto simp: ring_def chain_append)
qed

lemma ring_unlinkI:
  assumes r: "ring l h (xs @ x # ys)"
    and n: "\<And>a. a \<noteq> x \<Longrightarrow> nxt l' a = ((nxt l)(last (h # xs) := hd (ys @ [h]))) a"
    and p: "\<And>a. a \<noteq> x \<Longrightarrow> prv l' a = ((prv l)(hd (ys @ [h]) := last (h # xs))) a"
  shows "ring l' h (xs @ ys)"
proof -
  obtain us u where u: "h # xs = us @ [u]" by (cases "h # xs" rule: rev_cases) auto
  obtain v vs where v: "ys @ [h] = v # vs" by (cases "ys @ [h]") auto
  from r have d: "distinct (h # xs @ x # ys)" "0 \<notin> set (h # xs @ x # ys)"
    and c: "chain l h xs x" "chain l x ys h"
    by (auto simp: ring_def chain_append)
  from d have "distinct ((h # xs) @ x # ys)" "distinct (xs @ x # (ys @ [h]))" by auto
  then have dn: "distinct (us @ [u] @ x # ys)" and dp: "distinct (xs @ x # v # vs)"
    unfolding u v by simp_all
  have lu: "last (h # xs) = u" and hv: "hd (ys @ [h]) = v" by (simp_all add: u v)
  have "map (nxt l) (us @ [u]) = xs @ [x]" "map (prv l) (v # vs) = x # ys"
    "map (nxt l) (x # ys) = v # vs" "map (prv l) (xs @ [x]) = us @ [u]"
    using c by (simp_all only: chain_map u v)
  then have m: "map (nxt l) us = xs" "map (nxt l) ys = vs" "map (prv l) xs = us" "map (prv l) vs = ys"
    by simp_all
  have n1: "nxt l' a = nxt l a" if "a \<notin> {x, u}" for a using that by (simp add: n [unfolded lu hv])
  have p1: "prv l' a = prv l a" if "a \<notin> {x, v}" for a using that by (simp add: p [unfolded lu hv])
  have "map (nxt l') us = map (nxt l) us" "map (nxt l') ys = map (nxt l) ys"
    by (rule map_cong [OF refl n1], use dn in force)+
  moreover have "map (prv l') xs = map (prv l) xs" "map (prv l') vs = map (prv l) vs"
    by (rule map_cong [OF refl p1], use dp in force)+
  moreover note m
  moreover have "nxt l' u = v" "prv l' v = u"
    using dn dp by (auto simp: n [unfolded lu hv] p [unfolded lu hv])
  ultimately have "map (nxt l') (us @ u # ys) = xs @ v # vs" "map (prv l') (xs @ v # vs) = us @ u # ys"
    by simp_all
  then have "map (nxt l') (h # xs @ ys) = xs @ ys @ [h]" "map (prv l') (xs @ ys @ [h]) = h # xs @ ys"
    using u v by (metis append.assoc append_Cons append_Nil)+
  then have "chain l' h (xs @ ys) h" by (simp add: chain_map)
  with d show ?thesis by (auto simp: ring_def)
qed

lemma ring_mem_links:
  assumes "ring l h (xs @ x # ys)"
  shows "prv l x = last (h # xs)" and "nxt l x = hd (ys @ [h])"
    and "prv l x \<noteq> x" and "nxt l x \<noteq> x" and "prv l x \<noteq> 0" and "nxt l x \<noteq> 0"
proof -
  from assms have c: "chain l h xs x" "chain l x ys h"
    and d: "distinct (h # xs @ x # ys)" "0 \<notin> set (h # xs @ x # ys)"
    by (auto simp: ring_def chain_append)
  show p: "prv l x = last (h # xs)" using chain_last [OF c(1)] .
  show n: "nxt l x = hd (ys @ [h])" using chain_first [OF c(2)] .
  have "last (h # xs) \<in> set (h # xs)" by (rule last_in_set) simp
  with p d show "prv l x \<noteq> x" "prv l x \<noteq> 0" by auto
  have "hd (ys @ [h]) \<in> set (ys @ [h])" by (rule hd_in_set) simp
  with n d show "nxt l x \<noteq> x" "nxt l x \<noteq> 0" by auto
qed

section \<open>The contract of an intrusive list\<close>

text \<open>
  What the clients rely on: \<open>add head x\<close> appends \<open>x\<close> at the tail, \<open>del x\<close> takes it out and
  leaves the order of the others.
\<close>

locale intrusive_list =
  fixes add :: "addr \<Rightarrow> addr \<Rightarrow> links \<Rightarrow> links"
    and del :: "addr \<Rightarrow> links \<Rightarrow> links"
  assumes add_ring: "ring l h xs \<Longrightarrow> x \<noteq> 0 \<Longrightarrow> x \<notin> set (h # xs) \<Longrightarrow> ring (add h x l) h (xs @ [x])"
    and del_ring: "ring l h (xs @ x # ys) \<Longrightarrow> ring (del x l) h (xs @ ys)"
begin

lemma del_remove1:
  assumes "ring l h xs" and "x \<in> set xs"
  shows "ring (del x l) h (remove1 x xs)"
proof -
  from assms(2) obtain us vs where xs: "xs = us @ x # vs" "x \<notin> set us"
    by (meson split_list_first)
  with assms(1) have "ring (del x l) h (us @ vs)" by (auto intro: del_ring)
  with xs show ?thesis by (simp add: remove1_append)
qed

lemma del_add:
  assumes "ring l h xs" and "x \<noteq> 0" and "x \<notin> set (h # xs)"
  shows "ring (del x (add h x l)) h xs"
  using del_ring [of _ h xs x "[]"] add_ring [OF assms] by simp

lemma add_all:
  assumes "ring l h xs" and "distinct ys" and "0 \<notin> set ys" and "set ys \<inter> set (h # xs) = {}"
  shows "ring (fold (add h) ys l) h (xs @ ys)"
  using assms
proof (induction ys arbitrary: l xs)
  case Nil
  then show ?case by simp
next
  case (Cons y ys)
  from Cons.prems have "ring (add h y l) h (xs @ [y])"
    by (intro add_ring) auto
  from Cons.IH [OF this] Cons.prems show ?case by auto
qed

end

section \<open>Every copy keeps the contract\<close>

lemmas link_defs = list_init_def list_add_tail_def list_remove_def insert_local_socket_def
  remove_socket_links_def fdevent_plist_enqueue_def fdevent_plist_remove_def
  add_disconnect_links_def remove_disconnect_links_def set_next_def set_prev_def Let_def

lemma ring_last: "ring l h xs \<Longrightarrow> prv l h = last (h # xs)"
  unfolding ring_def by (blast dest: chain_last)

lemma ring_notin_last: "x \<notin> set (h # xs) \<Longrightarrow> last (h # xs) \<noteq> x"
  using last_in_set [of "h # xs"] by auto

interpretation cutils_list: intrusive_list list_add_tail list_remove
proof unfold_locales
  fix l h xs x assume r: "ring l h xs" "x \<noteq> 0" "x \<notin> set (h # xs)"
  show "ring (list_add_tail h x l) h (xs @ [x])"
    by (rule ring_snocI [OF r(1)])
      (use r ring_last [OF r(1)] ring_notin_last [OF r(3)] in \<open>auto simp: link_defs\<close>)
next
  fix l h xs x ys assume r: "ring l h (xs @ x # ys)"
  show "ring (list_remove x l) h (xs @ ys)"
    by (rule ring_unlinkI [OF r]) (use ring_mem_links [OF r] in \<open>auto simp: link_defs\<close>)
qed

interpretation socket_list: intrusive_list insert_local_socket remove_socket_links
proof unfold_locales
  fix l h xs x assume r: "ring l h xs" "x \<noteq> 0" "x \<notin> set (h # xs)"
  show "ring (insert_local_socket h x l) h (xs @ [x])"
    by (rule ring_snocI [OF r(1)])
      (use r ring_last [OF r(1)] ring_notin_last [OF r(3)] in \<open>auto simp: link_defs\<close>)
next
  fix l h xs x ys assume r: "ring l h (xs @ x # ys)"
  show "ring (remove_socket_links x l) h (xs @ ys)"
    by (rule ring_unlinkI [OF r]) (use ring_mem_links [OF r] in \<open>auto simp: link_defs\<close>)
qed

interpretation plist: intrusive_list fdevent_plist_enqueue fdevent_plist_remove
proof unfold_locales
  fix l h xs x assume r: "ring l h xs" "x \<noteq> 0" "x \<notin> set (h # xs)"
  show "ring (fdevent_plist_enqueue h x l) h (xs @ [x])"
    by (rule ring_snocI [OF r(1)])
      (use r ring_last [OF r(1)] ring_notin_last [OF r(3)] in \<open>auto simp: link_defs\<close>)
next
  fix l h xs x ys assume r: "ring l h (xs @ x # ys)"
  show "ring (fdevent_plist_remove x l) h (xs @ ys)"
    by (rule ring_unlinkI [OF r]) (use ring_mem_links [OF r] in \<open>auto simp: link_defs\<close>)
qed

interpretation disconnects: intrusive_list add_disconnect_links remove_disconnect_links
proof unfold_locales
  fix l h xs x assume r: "ring l h xs" "x \<noteq> 0" "x \<notin> set (h # xs)"
  show "ring (add_disconnect_links h x l) h (xs @ [x])"
    by (rule ring_snocI [OF r(1)])
      (use r ring_last [OF r(1)] ring_notin_last [OF r(3)] in \<open>auto simp: link_defs\<close>)
next
  fix l h xs x ys assume r: "ring l h (xs @ x # ys)"
  show "ring (remove_disconnect_links x l) h (xs @ ys)"
    by (rule ring_unlinkI [OF r]) (use ring_mem_links [OF r] in \<open>auto simp: link_defs\<close>)
qed

lemma list_init_ring: "h \<noteq> 0 \<Longrightarrow> ring (list_init h l) h []"
  by (simp add: link_defs)

lemma list_empty_ring: "ring l h xs \<Longrightarrow> list_empty h l \<longleftrightarrow> xs = []"
  using ring_empty_iff [of l h xs] by (auto simp: list_empty_def)

lemma plist_dequeue_Nil: "ring l h [] \<Longrightarrow> fdevent_plist_dequeue h l = (None, l)"
  by (simp add: fdevent_plist_dequeue_def)

lemma plist_dequeue_Cons:
  assumes r: "ring l h (x # xs)"
  obtains l' where "fdevent_plist_dequeue h l = (Some x, l')" and "ring l' h xs"
    and "nxt l' x = 0" and "prv l' x = 0"
proof -
  let ?l = "snd (fdevent_plist_dequeue h l)"
  have m: "nxt l h = x" "x \<noteq> h" "nxt l x = hd (xs @ [h])" "nxt l x \<noteq> x"
    using r ring_mem_links [of l h "[]" x xs] by (auto simp: ring_def)
  have "ring ?l h ([] @ xs)"
    by (rule ring_unlinkI [of l h "[]" x xs])
      (use r m in \<open>auto simp: fdevent_plist_dequeue_def link_defs\<close>)
  moreover have "fdevent_plist_dequeue h l = (Some x, ?l)" "nxt ?l x = 0" "prv ?l x = 0"
    using m by (simp_all add: fdevent_plist_dequeue_def link_defs)
  ultimately show ?thesis using that by simp
qed

end
