(* ===== verification/Io.thy ===== *)
theory Io
  imports Prelude
begin

text \<open>
  The system-call layer: the retrying wrappers of \<open>sysdeps.h\<close> and the complete-transfer loops
  \<open>readx\<close> and \<open>writex\<close> of \<open>transport.c\<close>.

  The kernel is the environment. Each descriptor carries the answers the kernel will give to
  successive \<open>read\<close> and \<open>write\<close> calls on it, in order: any sequence of short transfers, ends
  of file and errors is such a list, so a theorem about all worlds is a theorem about all
  kernels. A call for which no answer is left blocks for good. The other system calls are
  answered by an arbitrary function of the calls made before and are recorded in a log.
\<close>

section \<open>The world\<close>

datatype errno = EINTR | EAGAIN | ENOENT | EEXIST | ECONNABORTED | EOther nat

datatype rd_ans = RdData bytes | RdErr errno \<comment> \<open>\<open>RdData []\<close> is end of file\<close>
datatype wr_ans = WrAcc nat | WrErr errno \<comment> \<open>\<open>WrAcc k\<close>: at most \<open>k\<close> bytes are taken\<close>

datatype sockaddr =
    AddrUn bytes \<comment> \<open>\<open>sun_path\<close>, as far as the given length reaches\<close>
  | AddrIn u16 u32 \<comment> \<open>port and host address\<close>

datatype syscall =
    SysOpen string nat nat \<comment> \<open>path, flags, mode\<close>
  | SysClose int
  | SysMkdir string nat
  | SysUnlink string
  | SysUtime string u32
  | SysSymlink string string
  | SysLstat string
  | SysStat string
  | SysOpendir string
  | SysShutdown int
  | SysSocketpair
  | SysMount string string
  | SysSpawn string "string list"
  | SysSocket nat nat \<comment> \<open>domain, type\<close>
  | SysSetsockopt int nat \<comment> \<open>descriptor, option\<close>
  | SysBind int sockaddr
  | SysListen int nat
  | SysConnect int sockaddr
  | SysAccept int
  | SysIoctl int nat
  | SysFcntl int nat nat
  | SysSendFd int int \<comment> \<open>\<open>sendmsg\<close> on the first with the second as its control data\<close>
  | SysFork
  | SysExec string "string list"
  | SysDup2 int int
  | SysSetsid
  | SysPts nat int \<comment> \<open>\<open>grantpt\<close> (0), \<open>unlockpt\<close> (1), \<open>ptsname\<close> (2)\<close>
  | SysWaitpid int
  | SysSync
  | SysReboot
  | SysThread
  | SysPipe
  | SysChdir string
  | SysAccess string nat \<comment> \<open>path, mode\<close>

datatype sysans = SRet int | SErr errno | SStat int int int | SNames "string list" | SPair int int

record world =
  w_rd :: "int \<Rightarrow> rd_ans list"
  w_wr :: "int \<Rightarrow> wr_ans list"
  w_out :: "int \<Rightarrow> bytes" \<comment> \<open>bytes the kernel has accepted on a descriptor\<close>
  w_kern :: "syscall list \<Rightarrow> syscall \<Rightarrow> sysans"
  w_log :: "syscall list"
  w_errno :: errno

text \<open>A world in which nothing was prepared: the base of the concrete examples.\<close>

definition idle_world :: world where
  "idle_world = \<lparr>w_rd = (\<lambda>_. []), w_wr = (\<lambda>_. []), w_out = (\<lambda>_. []), w_kern = (\<lambda>_ _. SRet 0),
     w_log = [], w_errno = EOther 0\<rparr>"

definition sys_read :: "int \<Rightarrow> nat \<Rightarrow> world \<Rightarrow> ((errno + bytes) \<times> world) outcome" where
  "sys_read fd n w = (case w_rd w fd of
       [] \<Rightarrow> Inl Blocked
     | RdErr e # as \<Rightarrow> Inr (Inl e, w\<lparr>w_rd := (w_rd w)(fd := as), w_errno := e\<rparr>)
     | RdData bs # as \<Rightarrow>
         Inr (Inr (take n bs),
           w\<lparr>w_rd := (w_rd w)(fd := if length bs \<le> n then as else RdData (drop n bs) # as)\<rparr>))"

definition sys_write :: "int \<Rightarrow> bytes \<Rightarrow> world \<Rightarrow> ((errno + nat) \<times> world) outcome" where
  "sys_write fd bs w = (case w_wr w fd of
       [] \<Rightarrow> Inl Blocked
     | WrErr e # as \<Rightarrow> Inr (Inl e, w\<lparr>w_wr := (w_wr w)(fd := as), w_errno := e\<rparr>)
     | WrAcc k # as \<Rightarrow>
         Inr (Inr (min k (length bs)),
           w\<lparr>w_wr := (w_wr w)(fd := as), w_out := (w_out w)(fd := w_out w fd @ take k bs)\<rparr>))"

text \<open>Any other call: the kernel's answer depends on the calls before it. A call that a wrapper of \<open>sysdeps.h\<close> repeats
  on EINTR is logged once, with the answer of its last attempt; theory Sysdeps shows that this loses nothing. The close-on-exec flag of a descriptor is not part of
  the state.\<close>

definition sys_call :: "syscall \<Rightarrow> world \<Rightarrow> sysans \<times> world" where
  "sys_call c w =
    (let a = w_kern w (w_log w) c
     in (a, w\<lparr>w_log := w_log w @ [c],
              w_errno := (case a of SErr e \<Rightarrow> e | _ \<Rightarrow> w_errno w)\<rparr>))"

section \<open>sysdeps.h: retry on EINTR\<close>

lemma sys_read_shorter:
  "sys_read fd n w = Inr (Inl e, w') \<Longrightarrow> length (w_rd w' fd) < length (w_rd w fd)"
  by (auto simp: sys_read_def split: list.splits rd_ans.splits)

lemma sys_write_shorter:
  "sys_write fd bs w = Inr (r, w') \<Longrightarrow> length (w_wr w' fd) < length (w_wr w fd)"
  by (auto simp: sys_write_def split: list.splits wr_ans.splits)

function adb_read :: "int \<Rightarrow> nat \<Rightarrow> world \<Rightarrow> ((errno + bytes) \<times> world) outcome" where
  "adb_read fd n w = andthen (sys_read fd n w)
     (\<lambda>(r, w'). if r = Inl EINTR then adb_read fd n w' else Inr (r, w'))"
  by pat_completeness auto
termination
  by (relation "measure (\<lambda>(fd, n, w). length (w_rd w fd))") (auto dest: sys_read_shorter)

function adb_write :: "int \<Rightarrow> bytes \<Rightarrow> world \<Rightarrow> ((errno + nat) \<times> world) outcome" where
  "adb_write fd bs w = andthen (sys_write fd bs w)
     (\<lambda>(r, w'). if r = Inl EINTR then adb_write fd bs w' else Inr (r, w'))"
  by pat_completeness auto
termination
  by (relation "measure (\<lambda>(fd, bs, w). length (w_wr w fd))") (auto dest: sys_write_shorter)

declare adb_read.simps [simp del] adb_write.simps [simp del]

text \<open>What a read changes: the answers left on its own descriptor and \<open>errno\<close>.\<close>

definition rd_only :: "int \<Rightarrow> world \<Rightarrow> world \<Rightarrow> bool" where
  "rd_only fd w w' \<longleftrightarrow> w_out w' = w_out w \<and> w_wr w' = w_wr w \<and> w_log w' = w_log w \<and>
     w_kern w' = w_kern w \<and> (\<forall>fd'. fd' \<noteq> fd \<longrightarrow> w_rd w' fd' = w_rd w fd')"

lemma rd_only_refl [simp, intro]: "rd_only fd w w"
  by (simp add: rd_only_def)

lemma rd_only_trans [trans]: "rd_only fd w w' \<Longrightarrow> rd_only fd w' w'' \<Longrightarrow> rd_only fd w w''"
  by (simp add: rd_only_def)

lemma sys_read_rd_only: "sys_read fd n w = Inr (r, w') \<Longrightarrow> rd_only fd w w'"
  by (auto simp: sys_read_def rd_only_def split: list.splits rd_ans.splits)

lemma adb_read_induct [consumes 1, case_names stop retry]:
  assumes "adb_read fd n w = Inr (r, w')"
    and fin: "\<And>v r v'. sys_read fd n v = Inr (r, v') \<Longrightarrow> r \<noteq> Inl EINTR \<Longrightarrow> P v r v'"
    and retry: "\<And>v v' r v''. sys_read fd n v = Inr (Inl EINTR, v') \<Longrightarrow> P v' r v'' \<Longrightarrow> P v r v''"
  shows "P w r w'"
  using assms(1)
proof (induction "length (w_rd w fd)" arbitrary: w rule: less_induct)
  case less
  from less.prems obtain r1 w1 where s: "sys_read fd n w = Inr (r1, w1)"
    and k: "(if r1 = Inl EINTR then adb_read fd n w1 else Inr (r1, w1)) = Inr (r, w')"
    by (subst (asm) adb_read.simps) (auto simp: andthen_Inr_iff)
  show ?case
  proof (cases "r1 = Inl EINTR")
    case True
    with s k less.hyps [of w1] show ?thesis by (auto dest: sys_read_shorter intro: retry)
  next
    case False
    with s k show ?thesis by (auto intro: fin)
  qed
qed

text \<open>The retrying read never reports EINTR, and touches its own descriptor only.\<close>

lemma adb_read_no_EINTR: "adb_read fd n w = Inr (r, w') \<Longrightarrow> r \<noteq> Inl EINTR"
  by (induction rule: adb_read_induct) auto

lemma adb_read_rd_only: "adb_read fd n w = Inr (r, w') \<Longrightarrow> rd_only fd w w'"
  by (induction rule: adb_read_induct) (auto dest: sys_read_rd_only intro: rd_only_trans)

lemma adb_read_length: "adb_read fd n w = Inr (Inr bs, w') \<Longrightarrow> length bs \<le> n"
proof -
  assume "adb_read fd n w = Inr (Inr bs, w')"
  then have "case Inr bs :: errno + bytes of Inr xs \<Rightarrow> length xs \<le> n | Inl _ \<Rightarrow> True"
    by (induction rule: adb_read_induct)
      (auto simp: sys_read_def split: list.splits rd_ans.splits sum.splits)
  then show ?thesis by simp
qed

lemma adb_read_shorter:
  "adb_read fd n w = Inr (Inl e, w') \<Longrightarrow> length (w_rd w' fd) < length (w_rd w fd)"
proof -
  assume "adb_read fd n w = Inr (Inl e, w')"
  then have "isl (Inl e :: errno + bytes) \<longrightarrow> length (w_rd w' fd) < length (w_rd w fd)"
  proof (induction rule: adb_read_induct)
    case (stop v r v')
    then show ?case by (cases r) (auto dest: sys_read_shorter)
  next
    case (retry v v' r v'')
    then show ?case by (auto dest: sys_read_shorter)
  qed
  then show ?thesis by simp
qed

section \<open>transport.c: readx and writex\<close>

text \<open>\<open>readx\<close> returns 0 with the buffer filled (\<open>Some\<close> the bytes) or -1 (\<open>None\<close>).\<close>

function readx :: "int \<Rightarrow> nat \<Rightarrow> world \<Rightarrow> (bytes option \<times> world) outcome" where
  "readx fd len w =
    (if len = 0 then Inr (Some [], w)
     else andthen (adb_read fd len w) (\<lambda>(r, w1).
       case r of
         Inr bs \<Rightarrow>
           if bs \<noteq> [] then andthen (readx fd (len - length bs) w1)
             (\<lambda>(q, w2). Inr (map_option (\<lambda>rest. bs @ rest) q, w2))
           else Inr (None, w1)
       | Inl e \<Rightarrow> if e = EINTR then readx fd len w1 else Inr (None, w1)))"
  by pat_completeness auto
termination
  by (relation "measures [\<lambda>(fd, len, w). len, \<lambda>(fd, len, w). length (w_rd w fd)]")
    (auto dest: adb_read_shorter)

text \<open>\<open>writex\<close> returns 0 (\<open>True\<close>) or -1 (\<open>False\<close>).\<close>

lemma adb_write_shorter:
  "adb_write fd bs w = Inr (r, w') \<Longrightarrow> length (w_wr w' fd) < length (w_wr w fd)"
proof (induction fd bs w rule: adb_write.induct)
  case (1 fd bs w)
  from "1.prems" obtain r1 w1 where s: "sys_write fd bs w = Inr (r1, w1)"
    and k: "(if r1 = Inl EINTR then adb_write fd bs w1 else Inr (r1, w1)) = Inr (r, w')"
    by (subst (asm) adb_write.simps) (auto simp: andthen_Inr_iff)
  with "1.IH" [OF s] sys_write_shorter [OF s] show ?case by (auto split: if_splits)
qed

function writex :: "int \<Rightarrow> bytes \<Rightarrow> world \<Rightarrow> (bool \<times> world) outcome" where
  "writex fd bs w =
    (if bs = [] then Inr (True, w)
     else andthen (adb_write fd bs w) (\<lambda>(r, w1).
       case r of
         Inr k \<Rightarrow> if 0 < k then writex fd (drop k bs) w1 else Inr (False, w1)
       | Inl e \<Rightarrow> if e = EINTR then writex fd bs w1 else Inr (False, w1)))"
  by pat_completeness auto
termination
  by (relation "measure (\<lambda>(fd, bs, w). length (w_wr w fd))") (auto dest: adb_write_shorter)

declare readx.simps [simp del] writex.simps [simp del]

section \<open>Streams: what is available, whatever its fragmentation\<close>

text \<open>The bytes a descriptor delivers before an end of file or an error other than EINTR.\<close>

fun rd_bytes :: "rd_ans list \<Rightarrow> bytes" where
  "rd_bytes [] = []"
| "rd_bytes (RdErr e # as) = (if e = EINTR then rd_bytes as else [])"
| "rd_bytes (RdData bs # as) = (if bs = [] then [] else bs @ rd_bytes as)"

text \<open>The number of successive writes that take at least a byte.\<close>

fun wr_count :: "wr_ans list \<Rightarrow> nat" where
  "wr_count [] = 0"
| "wr_count (WrErr e # as) = (if e = EINTR then wr_count as else 0)"
| "wr_count (WrAcc k # as) = (if k = 0 then 0 else Suc (wr_count as))"

lemma wr_count_replicate [simp]: "0 < k \<Longrightarrow> wr_count (replicate n (WrAcc k)) = n"
  by (induction n) auto

definition avail :: "int \<Rightarrow> world \<Rightarrow> bytes" where
  "avail fd w = rd_bytes (w_rd w fd)"

lemma adb_read_sound:
  assumes "adb_read fd n w = Inr (Inr bs, w')" and "bs \<noteq> []"
  shows "avail fd w = bs @ avail fd w'"
proof -
  from assms(1) have "\<forall>xs. Inr bs = (Inr xs :: errno + bytes) \<longrightarrow> xs \<noteq> [] \<longrightarrow> avail fd w = xs @ avail fd w'"
    by (induction rule: adb_read_induct)
      (auto simp: sys_read_def avail_def split: list.splits rd_ans.splits)
  with assms(2) show ?thesis by simp
qed

lemma adb_read_complete:
  assumes "avail fd w \<noteq> []" and "0 < n"
  shows "\<exists>bs w'. adb_read fd n w = Inr (Inr bs, w') \<and> bs \<noteq> []"
  using assms
proof (induction "length (w_rd w fd)" arbitrary: w rule: less_induct)
  case less
  then obtain a as where s: "w_rd w fd = a # as" by (cases "w_rd w fd") (auto simp: avail_def)
  show ?case
  proof (cases a)
    case (RdData bs)
    with s less.prems have "bs \<noteq> []" by (auto simp: avail_def split: if_splits)
    with s RdData less.prems show ?thesis
      by (subst adb_read.simps) (auto simp: sys_read_def)
  next
    case (RdErr e)
    with s less.prems have e: "e = EINTR" by (auto simp: avail_def split: if_splits)
    let ?w = "w\<lparr>w_rd := (w_rd w)(fd := as), w_errno := e\<rparr>"
    have r: "adb_read fd n w = adb_read fd n ?w"
      by (subst adb_read.simps) (simp add: sys_read_def s RdErr e)
    have "avail fd ?w = avail fd w" by (simp add: avail_def s RdErr e)
    with less.hyps [of ?w] less.prems s r show ?thesis by auto
  qed
qed

lemma readx_induct [consumes 1, case_names zero stop chunk]:
  assumes "readx fd len w = Inr (r, w')"
    and zero: "\<And>v. P 0 v (Some []) v"
    and fin: "\<And>n v q v'. n \<noteq> 0 \<Longrightarrow> adb_read fd n v = Inr (q, v') \<Longrightarrow> P n v None v'"
    and chunk: "\<And>n v bs v1 q v2. n \<noteq> 0 \<Longrightarrow> adb_read fd n v = Inr (Inr bs, v1) \<Longrightarrow> bs \<noteq> [] \<Longrightarrow>
      P (n - length bs) v1 q v2 \<Longrightarrow> P n v (map_option (\<lambda>rest. bs @ rest) q) v2"
  shows "P len w r w'"
  using assms(1)
proof (induction len arbitrary: w r rule: less_induct)
  case (less len)
  show ?case
  proof (cases "len = 0")
    case True
    with less.prems zero show ?thesis by (simp add: readx.simps)
  next
    case False
    with less.prems obtain q w1 where a: "adb_read fd len w = Inr (q, w1)"
      and k: "(case q of Inr xs \<Rightarrow> if xs \<noteq> [] then andthen (readx fd (len - length xs) w1)
             (\<lambda>(q, w2). Inr (map_option (\<lambda>rest. xs @ rest) q, w2)) else Inr (None, w1)
         | Inl e \<Rightarrow> if e = EINTR then readx fd len w1 else Inr (None, w1)) = Inr (r, w')"
      by (subst (asm) readx.simps) (auto simp: andthen_Inr_iff)
    show ?thesis
    proof (cases "\<exists>xs. q = Inr xs \<and> xs \<noteq> []")
      case True
      then obtain xs where q: "q = Inr xs" "xs \<noteq> []" by blast
      with k obtain p where x: "readx fd (len - length xs) w1 = Inr (p, w')"
        and r: "r = map_option (\<lambda>rest. xs @ rest) p"
        by (auto simp: andthen_Inr_iff)
      from q False have "len - length xs < len" by simp
      from chunk [OF False a [unfolded q(1)] q(2) less.IH [OF this x]] show ?thesis
        by (simp add: r)
    next
      case ne: False
      with k a have "r = None" "w' = w1"
        by (auto split: sum.splits if_splits dest: adb_read_no_EINTR)
      with fin [OF False a] show ?thesis by simp
    qed
  qed
qed

lemma readx_rd_only: "readx fd len w = Inr (r, w') \<Longrightarrow> rd_only fd w w'"
  by (induction rule: readx_induct) (auto dest: adb_read_rd_only intro: rd_only_trans)

lemma readx_sound:
  assumes "readx fd len w = Inr (Some bs, w')"
  shows "length bs = len" and "avail fd w = bs @ avail fd w'"
proof -
  from assms have "\<forall>xs. Some bs = Some xs \<longrightarrow> length xs = len \<and> avail fd w = xs @ avail fd w'"
    by (induction rule: readx_induct)
      (auto dest: adb_read_length adb_read_sound)
  then show "length bs = len" "avail fd w = bs @ avail fd w'" by simp_all
qed

lemma readx_complete:
  "len \<le> length (avail fd w) \<Longrightarrow> \<exists>bs w'. readx fd len w = Inr (Some bs, w')"
proof (induction len arbitrary: w rule: less_induct)
  case (less len)
  show ?case
  proof (cases "len = 0")
    case True
    then show ?thesis by (simp add: readx.simps)
  next
    case False
    with less.prems have "avail fd w \<noteq> []" by auto
    then obtain xs w1 where a: "adb_read fd len w = Inr (Inr xs, w1)" "xs \<noteq> []"
      using adb_read_complete False by blast
    then have "avail fd w = xs @ avail fd w1" by (rule adb_read_sound)
    with less.prems a(2) False have "len - length xs < len" "len - length xs \<le> length (avail fd w1)"
      by auto
    with less.IH obtain rest w2 where "readx fd (len - length xs) w1 = Inr (Some rest, w2)" by blast
    with a False show ?thesis by (subst readx.simps) simp
  qed
qed

lemma adb_read_stops: "adb_read fd n w = Inl e \<Longrightarrow> e = Blocked"
proof (induction fd n w rule: adb_read.induct)
  case (1 fd n w)
  show ?case
  proof (cases "sys_read fd n w")
    case (Inl x)
    with 1(2) show ?thesis
      by (subst (asm) adb_read.simps)
        (auto simp: sys_read_def split: list.splits rd_ans.splits)
  next
    case (Inr x)
    with 1 show ?thesis
      by (subst (asm) (2) adb_read.simps) (cases x, auto split: if_splits)
  qed
qed

lemma readx_stops: "readx fd len w = Inl e \<Longrightarrow> e = Blocked"
proof (induction len arbitrary: w rule: less_induct)
  case (less len)
  from less.prems have "len \<noteq> 0" by (cases "len = 0") (simp_all add: readx.simps [of fd 0])
  show ?case
  proof (cases "adb_read fd len w")
    case (Inl x)
    with less.prems \<open>len \<noteq> 0\<close> show ?thesis
      by (subst (asm) readx.simps) (auto dest: adb_read_stops)
  next
    case (Inr y)
    obtain q w1 where y: "y = (q, w1)" by (cases y)
    show ?thesis
    proof (cases q)
      case (Inl e')
      with Inr y adb_read_no_EINTR [of fd len w q w1] less.prems \<open>len \<noteq> 0\<close> show ?thesis
        by (subst (asm) readx.simps) auto
    next
      case (Inr xs)
      with \<open>adb_read fd len w = Inr y\<close> y less.prems \<open>len \<noteq> 0\<close>
      have "xs \<noteq> []" "readx fd (len - length xs) w1 = Inl e"
        by (subst (asm) readx.simps, auto simp: andthen_Inl_iff split: if_splits)+
      with less.IH [of "len - length xs" w1] \<open>len \<noteq> 0\<close> show ?thesis by simp
    qed
  qed
qed

lemma readx_not_oob: "readx fd len w \<noteq> Inl OutOfBounds"
  using readx_stops [of fd len w OutOfBounds] by auto

text \<open>
  The interface a packet reader needs: a request for \<open>n\<close> bytes that are there returns the
  first \<open>n\<close> of them, and a request that succeeds returned nothing but the next \<open>n\<close> bytes.
\<close>

locale byte_source =
  fixes rx :: "nat \<Rightarrow> 's \<Rightarrow> (bytes option \<times> 's) outcome"
    and content :: "'s \<Rightarrow> bytes"
  assumes rx_complete: "n \<le> length (content s) \<Longrightarrow> \<exists>bs s'. rx n s = Inr (Some bs, s')"
    and rx_sound: "rx n s = Inr (Some bs, s') \<Longrightarrow> length bs = n \<and> content s = bs @ content s'"
begin

lemma rx_take:
  assumes "n \<le> length (content s)"
  obtains s' where "rx n s = Inr (Some (take n (content s)), s')" and "content s' = drop n (content s)"
proof -
  from rx_complete [OF assms] obtain bs s' where r: "rx n s = Inr (Some bs, s')" by blast
  from rx_sound [OF r] have "bs = take n (content s)" "content s' = drop n (content s)" by auto
  with r that show ?thesis by blast
qed

lemma rx_append:
  assumes "content s = bs @ cs" and "n = length bs"
  obtains s' where "rx n s = Inr (Some bs, s')" and "content s' = cs"
  using rx_take [of n s] assms by auto

lemma rx_short: "length (content s) < n \<Longrightarrow> rx n s \<noteq> Inr (Some bs, s')"
  using rx_sound [of n s bs s'] by auto

end

interpretation readx: byte_source "readx fd" "avail fd" for fd
  by unfold_locales (auto intro: readx_complete dest: readx_sound)

text \<open>The same for writing. A write changes the answers and the accepted bytes of its own
  descriptor, and \<open>errno\<close>.\<close>

definition wr_only :: "int \<Rightarrow> world \<Rightarrow> world \<Rightarrow> bool" where
  "wr_only fd w w' \<longleftrightarrow> w_rd w' = w_rd w \<and> w_log w' = w_log w \<and> w_kern w' = w_kern w \<and>
     (\<forall>fd'. fd' \<noteq> fd \<longrightarrow> w_wr w' fd' = w_wr w fd' \<and> w_out w' fd' = w_out w fd')"

lemma wr_only_refl [simp, intro]: "wr_only fd w w"
  by (simp add: wr_only_def)

lemma wr_only_trans [trans]: "wr_only fd w w' \<Longrightarrow> wr_only fd w' w'' \<Longrightarrow> wr_only fd w w''"
  by (simp add: wr_only_def)

lemma adb_write_induct [consumes 1, case_names stop retry]:
  assumes "adb_write fd bs w = Inr (r, w')"
    and fin: "\<And>v r v'. sys_write fd bs v = Inr (r, v') \<Longrightarrow> r \<noteq> Inl EINTR \<Longrightarrow> P v r v'"
    and retry: "\<And>v v' r v''. sys_write fd bs v = Inr (Inl EINTR, v') \<Longrightarrow> P v' r v'' \<Longrightarrow> P v r v''"
  shows "P w r w'"
  using assms(1)
proof (induction "length (w_wr w fd)" arbitrary: w rule: less_induct)
  case less
  from less.prems obtain r1 w1 where s: "sys_write fd bs w = Inr (r1, w1)"
    and k: "(if r1 = Inl EINTR then adb_write fd bs w1 else Inr (r1, w1)) = Inr (r, w')"
    by (subst (asm) adb_write.simps) (auto simp: andthen_Inr_iff)
  show ?case
  proof (cases "r1 = Inl EINTR")
    case True
    with s k less.hyps [of w1] show ?thesis by (auto dest: sys_write_shorter intro: retry)
  next
    case False
    with s k show ?thesis by (auto intro: fin)
  qed
qed

lemma adb_write_spec:
  "adb_write fd bs w = Inr (r, w') \<Longrightarrow> r \<noteq> Inl EINTR \<and> wr_only fd w w' \<and>
    w_out w' fd = w_out w fd @ (case r of Inr k \<Rightarrow> take k bs | Inl e \<Rightarrow> []) \<and>
    (case r of Inr k \<Rightarrow> k \<le> length bs | Inl e \<Rightarrow> True)"
  by (induction rule: adb_write_induct)
    (auto simp: sys_write_def wr_only_def min_def split: list.splits wr_ans.splits)

lemma adb_write_complete:
  assumes "0 < wr_count (w_wr w fd)" and "bs \<noteq> []"
  shows "\<exists>k w'. adb_write fd bs w = Inr (Inr k, w') \<and> 0 < k \<and>
    wr_count (w_wr w fd) = Suc (wr_count (w_wr w' fd))"
  using assms
proof (induction "length (w_wr w fd)" arbitrary: w rule: less_induct)
  case less
  then obtain a as where s: "w_wr w fd = a # as" by (cases "w_wr w fd") auto
  show ?case
  proof (cases a)
    case (WrAcc k)
    with s less.prems show ?thesis
      by (subst adb_write.simps) (auto simp: sys_write_def split: if_splits)
  next
    case (WrErr e)
    with s less.prems have e: "e = EINTR" by (auto split: if_splits)
    let ?w = "w\<lparr>w_wr := (w_wr w)(fd := as), w_errno := e\<rparr>"
    have "adb_write fd bs w = adb_write fd bs ?w"
      by (subst adb_write.simps) (simp add: sys_write_def s WrErr e)
    with less.hyps [of ?w] less.prems s show ?thesis by (auto simp: WrErr e)
  qed
qed

lemma writex_induct [consumes 1, case_names empty stop chunk]:
  assumes "writex fd bs w = Inr (r, w')"
    and empty: "\<And>v. P [] v True v"
    and fin: "\<And>xs v q v'. xs \<noteq> [] \<Longrightarrow> adb_write fd xs v = Inr (q, v') \<Longrightarrow> q = Inr 0 \<or> isl q \<Longrightarrow> P xs v False v'"
    and chunk: "\<And>xs v k v1 q v2. xs \<noteq> [] \<Longrightarrow> adb_write fd xs v = Inr (Inr k, v1) \<Longrightarrow> 0 < k \<Longrightarrow>
      P (drop k xs) v1 q v2 \<Longrightarrow> P xs v q v2"
  shows "P bs w r w'"
  using assms(1)
proof (induction "length (w_wr w fd)" arbitrary: bs w r rule: less_induct)
  case less
  show ?case
  proof (cases "bs = []")
    case True
    with less.prems empty show ?thesis by (simp add: writex.simps)
  next
    case False
    with less.prems obtain q w1 where a: "adb_write fd bs w = Inr (q, w1)"
      and k: "(case q of Inr k \<Rightarrow> if 0 < k then writex fd (drop k bs) w1 else Inr (False, w1)
         | Inl e \<Rightarrow> if e = EINTR then writex fd bs w1 else Inr (False, w1)) = Inr (r, w')"
      by (subst (asm) writex.simps) (auto simp: andthen_Inr_iff)
    show ?thesis
    proof (cases "\<exists>n. q = Inr n \<and> 0 < n")
      case True
      then obtain n where q: "q = Inr n" "0 < n" by blast
      with k have "writex fd (drop n bs) w1 = Inr (r, w')" by simp
      from less.hyps [OF adb_write_shorter [OF a] this] show ?thesis
        by (rule chunk [OF False a [unfolded q(1)] q(2)])
    next
      case ne: False
      with k a have "\<not> r" "w' = w1" "q = Inr 0 \<or> isl q"
        by (auto split: sum.splits if_splits dest: adb_write_spec)
      with fin [OF False a] show ?thesis by simp
    qed
  qed
qed

lemma writex_wr_only: "writex fd bs w = Inr (r, w') \<Longrightarrow> wr_only fd w w'"
  by (induction rule: writex_induct) (auto dest: adb_write_spec intro: wr_only_trans)

lemma writex_out:
  "writex fd bs w = Inr (r, w') \<Longrightarrow>
    \<exists>k. w_out w' fd = w_out w fd @ take k bs \<and> (if r then k = length bs else k < length bs)"
proof (induction rule: writex_induct)
  case (empty v)
  then show ?case by simp
next
  case (stop xs v q v')
  with adb_write_spec [OF stop(2)] show ?case by (intro exI [of _ 0]) (auto split: sum.splits)
next
  case (chunk xs v k v1 q v2)
  from chunk.IH obtain j where j: "w_out v2 fd = w_out v1 fd @ take j (drop k xs)"
    "if q then j = length (drop k xs) else j < length (drop k xs)" by blast
  with adb_write_spec [OF chunk(2)] show ?case
    by (intro exI [of _ "k + j"]) (auto simp: take_add split: if_splits)
qed

lemma writex_complete:
  "length bs \<le> wr_count (w_wr w fd) \<Longrightarrow> \<exists>w'. writex fd bs w = Inr (True, w') \<and>
    wr_count (w_wr w fd) \<le> wr_count (w_wr w' fd) + length bs"
proof (induction bs arbitrary: w rule: length_induct)
  case (1 bs)
  show ?case
  proof (cases "bs = []")
    case True
    then show ?thesis by (simp add: writex.simps)
  next
    case False
    with "1.prems" have "0 < wr_count (w_wr w fd)" by (cases bs) auto
    with False obtain k w1 where a: "adb_write fd bs w = Inr (Inr k, w1)" "0 < k"
      "wr_count (w_wr w fd) = Suc (wr_count (w_wr w1 fd))"
      using adb_write_complete by blast
    with False "1.prems" have "length (drop k bs) < length bs"
      "length (drop k bs) \<le> wr_count (w_wr w1 fd)" by auto
    with "1.IH" obtain w2 where "writex fd (drop k bs) w1 = Inr (True, w2)"
      "wr_count (w_wr w1 fd) \<le> wr_count (w_wr w2 fd) + length (drop k bs)" by blast
    moreover from False a(2) have "Suc (length (drop k bs)) \<le> length bs" by (cases bs) auto
    ultimately show ?thesis using a False by (subst writex.simps) auto
  qed
qed

locale byte_sink =
  fixes wx :: "bytes \<Rightarrow> 's \<Rightarrow> (bool \<times> 's) outcome"
    and written :: "'s \<Rightarrow> bytes"
    and room :: "'s \<Rightarrow> nat"
  assumes wx_ok: "wx bs s = Inr (True, s') \<Longrightarrow> written s' = written s @ bs"
    and wx_fail: "wx bs s = Inr (False, s') \<Longrightarrow> \<exists>k<length bs. written s' = written s @ take k bs"
    and wx_complete: "length bs \<le> room s \<Longrightarrow> \<exists>s'. wx bs s = Inr (True, s') \<and> room s \<le> room s' + length bs"
begin

lemma wx_prefix: "wx bs s = Inr (r, s') \<Longrightarrow> \<exists>k. written s' = written s @ take k bs"
  using wx_ok [of bs s s'] wx_fail [of bs s s'] by (cases r) (auto intro: exI [of _ "length bs"])

end

interpretation writex: byte_sink "writex fd" "\<lambda>w. w_out w fd" "\<lambda>w. wr_count (w_wr w fd)" for fd
  by unfold_locales (use writex_out writex_complete in fastforce)+

section \<open>How much is left to read\<close>

text \<open>A measure for loops that read: the answers a descriptor still has, with their bytes.\<close>

definition rd_left :: "int \<Rightarrow> world \<Rightarrow> nat" where
  "rd_left fd w = sum_list (map (\<lambda>a. case a of RdData bs \<Rightarrow> Suc (length bs) | RdErr e \<Rightarrow> 1) (w_rd w fd))"

lemma sys_read_left: "sys_read fd n w = Inr (r, w') \<Longrightarrow> 0 < n \<Longrightarrow> rd_left fd w' < rd_left fd w"
  by (auto simp: sys_read_def rd_left_def split: list.splits rd_ans.splits)

lemma adb_read_left: "adb_read fd n w = Inr (r, w') \<Longrightarrow> 0 < n \<Longrightarrow> rd_left fd w' < rd_left fd w"
  by (induction rule: adb_read_induct) (fastforce dest: sys_read_left)+

lemma readx_left: "readx fd len w = Inr (r, w') \<Longrightarrow> rd_left fd w' \<le> rd_left fd w \<and> (0 < len \<longrightarrow> rd_left fd w' < rd_left fd w)"
  by (induction rule: readx_induct) (auto dest: adb_read_left)

lemma rd_left_same: "w_rd w' = w_rd w \<Longrightarrow> rd_left fd w' = rd_left fd w"
  by (simp add: rd_left_def)

lemma rd_only_left: "rd_only fd w w' \<Longrightarrow> fd' \<noteq> fd \<Longrightarrow> rd_left fd' w' = rd_left fd' w"
  by (simp add: rd_left_def rd_only_def)

end
