(* ===== verification/Packet.thy ===== *)
theory Packet
  imports Io
begin

text \<open>
  The packets of \<open>adb.h\<close> and their path over a byte stream: header and payload checks and
  the fields \<open>send_packet\<close> fills in (\<open>transport.c\<close>), reading and writing a packet on a TCP
  connection (\<open>transport_local.c\<close>).
\<close>

unbundle bit_operations_syntax

section \<open>Messages\<close>

definition MAX_PAYLOAD :: nat where "MAX_PAYLOAD = 4096"

definition A_SYNC :: u32 where "A_SYNC = 0x434e5953"
definition A_CNXN :: u32 where "A_CNXN = 0x4e584e43"
definition A_OPEN :: u32 where "A_OPEN = 0x4e45504f"
definition A_OKAY :: u32 where "A_OKAY = 0x59414b4f"
definition A_CLSE :: u32 where "A_CLSE = 0x45534c43"
definition A_WRTE :: u32 where "A_WRTE = 0x45545257"
definition A_AUTH :: u32 where "A_AUTH = 0x48545541"
definition A_VERSION :: u32 where "A_VERSION = 0x01000000"

lemmas command_defs = A_SYNC_def A_CNXN_def A_OPEN_def A_OKAY_def A_CLSE_def A_WRTE_def A_AUTH_def

record amessage =
  command :: u32
  arg0 :: u32
  arg1 :: u32
  data_length :: u32
  data_check :: u32
  magic :: u32

text \<open>\<open>a_data\<close> is the whole payload buffer, \<open>MAX_PAYLOAD\<close> bytes; \<open>a_ptr\<close> is the offset of the
  next byte to write out, the C pointer \<open>ptr\<close> relative to \<open>data\<close>.\<close>

record apacket =
  a_len :: u32
  a_ptr :: nat
  a_msg :: amessage
  a_data :: bytes

definition zero_msg :: amessage where
  "zero_msg = \<lparr>command = 0, arg0 = 0, arg1 = 0, data_length = 0, data_check = 0, magic = 0\<rparr>"

text \<open>\<open>get_apacket\<close> clears everything but the payload, which keeps what \<open>malloc\<close> left there; a
  failed allocation ends the process.\<close>

definition get_apacket :: "bytes option \<Rightarrow> apacket outcome" where
  "get_apacket mem = (case mem of
       None \<Rightarrow> fatal
     | Some junk \<Rightarrow> Inr \<lparr>a_len = 0, a_ptr = 0, a_msg = zero_msg, a_data = junk\<rparr>)"

definition amessage_bytes :: "amessage \<Rightarrow> bytes" where
  "amessage_bytes m = le32 (command m) @ le32 (arg0 m) @ le32 (arg1 m) @
     le32 (data_length m) @ le32 (data_check m) @ le32 (magic m)"

definition amessage_of :: "bytes \<Rightarrow> amessage" where
  "amessage_of bs = \<lparr>command = of_le32 bs, arg0 = of_le32 (drop 4 bs), arg1 = of_le32 (drop 8 bs),
     data_length = of_le32 (drop 12 bs), data_check = of_le32 (drop 16 bs),
     magic = of_le32 (drop 20 bs)\<rparr>"

section \<open>Checks\<close>

text \<open>The loop \<open>while(count-->0) sum+=*x++\<close>, reading the buffer byte by byte.\<close>

fun sum_loop :: "nat \<Rightarrow> bytes \<Rightarrow> u32 \<Rightarrow> u32 outcome" where
  "sum_loop 0 x acc = Inr acc"
| "sum_loop (Suc count) [] acc = Inl OutOfBounds"
| "sum_loop (Suc count) (b # x) acc = sum_loop count x (acc + ucast b)"

definition check_header :: "apacket \<Rightarrow> int" where
  "check_header p =
    (if magic (a_msg p) \<noteq> command (a_msg p) XOR 0xffffffff then -1
     else if data_length (a_msg p) > word_of_nat MAX_PAYLOAD then -1
     else 0)"

definition check_data :: "apacket \<Rightarrow> int outcome" where
  "check_data p = andthen (sum_loop (unat (data_length (a_msg p))) (a_data p) 0)
     (\<lambda>acc. Inr (if acc \<noteq> data_check (a_msg p) then -1 else 0))"

text \<open>The fields \<open>send_packet\<close> computes before it queues the packet.\<close>

definition seal_packet :: "apacket \<Rightarrow> apacket outcome" where
  "seal_packet p =
    (let m = (a_msg p)\<lparr>magic := command (a_msg p) XOR 0xffffffff\<rparr>
     in andthen (sum_loop (unat (data_length m)) (a_data p) 0)
          (\<lambda>acc. Inr (p\<lparr>a_msg := m\<lparr>data_check := acc\<rparr>\<rparr>)))"

section \<open>Packets over a byte stream\<close>

text \<open>The receive sequence shared by the TCP and USB transports, over the transport's own
  \<open>rx\<close>: header, header check, payload, payload check.\<close>

definition recv_packet ::
  "(nat \<Rightarrow> 's \<Rightarrow> (bytes option \<times> 's) outcome) \<Rightarrow> apacket \<Rightarrow> 's \<Rightarrow> (int \<times> apacket \<times> 's) outcome"
where
  "recv_packet rx p s = andthen (rx 24 s) (\<lambda>(h, s1).
     case h of
       None \<Rightarrow> Inr (-1, p, s1)
     | Some hb \<Rightarrow>
         let p1 = p\<lparr>a_msg := amessage_of hb\<rparr> in
         if check_header p1 \<noteq> 0 then Inr (-1, p1, s1)
         else andthen (rx (unat (data_length (a_msg p1))) s1) (\<lambda>(d, s2).
           case d of
             None \<Rightarrow> Inr (-1, p1, s2)
           | Some db \<Rightarrow>
               let p2 = p1\<lparr>a_data := db @ drop (length db) (a_data p1)\<rparr> in
               andthen (check_data p2) (\<lambda>c. Inr (if c \<noteq> 0 then -1 else 0, p2, s2))))"

definition remote_read :: "int \<Rightarrow> apacket \<Rightarrow> world \<Rightarrow> (int \<times> apacket \<times> world) outcome" where
  "remote_read sfd p w = recv_packet (readx sfd) p w"

text \<open>\<open>sizeof(amessage)+length\<close> with \<open>int length\<close>: the sum is a \<open>size_t\<close>.\<close>

definition wire_length :: "u32 \<Rightarrow> nat" where
  "wire_length len = nat ((24 + sint len) mod 2 ^ 64)"

definition remote_write :: "int \<Rightarrow> apacket \<Rightarrow> world \<Rightarrow> (int \<times> world) outcome" where
  "remote_write sfd p w =
    (let n = wire_length (data_length (a_msg p));
         buf = amessage_bytes (a_msg p) @ a_data p
     in if length buf < n then Inl OutOfBounds
        else andthen (writex sfd (take n buf) w) (\<lambda>(ok, w1). Inr (if ok then 0 else -1, w1)))"

section \<open>Lemmas\<close>

lemma length_amessage_bytes [simp, layout_simps]: "length (amessage_bytes m) = 24"
  by (simp add: amessage_bytes_def)

lemma amessage_of_bytes [simp, layout_simps]: "amessage_of (amessage_bytes m @ r) = m"
  by (simp add: amessage_of_def amessage_bytes_def)

lemma amessage_of_bytes_alone [simp, layout_simps]: "amessage_of (amessage_bytes m) = m"
  using amessage_of_bytes [of m "[]"] by simp

lemma amessage_bytes_of: "length hb = 24 \<Longrightarrow> amessage_bytes (amessage_of hb) = hb"
proof -
  assume h: "length hb = 24"
  have field: "le32 (of_le32 (drop k hb)) = take 4 (drop k hb)" if "k + 4 \<le> 24" for k
  proof -
    have "of_le32 (drop k hb) = of_le32 (take 4 (drop k hb))"
      using h that by (cases "drop k hb" rule: of_le32.cases) (auto simp: numeral_eq_Suc dest: arg_cong [of _ _ length])
    with h that show ?thesis by (simp add: le32_of_le32)
  qed
  have "amessage_bytes (amessage_of hb) = take 4 (drop 0 hb) @ take 4 (drop 4 hb) @ take 4 (drop 8 hb) @
      take 4 (drop 12 hb) @ take 4 (drop 16 hb) @ take 4 (drop 20 hb)"
    using field [of 0] by (simp add: amessage_bytes_def amessage_of_def field)
  also have "\<dots> = hb"
    using h by (simp flip: take_add drop_drop add: append_assoc [symmetric] del: append_assoc)
  finally show ?thesis .
qed

lemma sum_loop_eq: "sum_loop n x s =
    (if n \<le> length x then Inr (s + (\<Sum>b\<leftarrow>take n x. ucast b)) else Inl OutOfBounds)"
  by (induction n x s rule: sum_loop.induct) (auto simp: algebra_simps)

lemma check_header_iff:
  "check_header p = 0 \<longleftrightarrow> magic (a_msg p) = command (a_msg p) XOR 0xffffffff \<and>
     unat (data_length (a_msg p)) \<le> MAX_PAYLOAD"
  by (auto simp: check_header_def MAX_PAYLOAD_def word_less_nat_alt)

lemma check_header_values: "check_header p \<in> {0, -1}"
  by (auto simp: check_header_def)

lemma seal_packet_eq:
  "unat (data_length (a_msg p)) \<le> length (a_data p) \<Longrightarrow>
   seal_packet p = Inr (p\<lparr>a_msg := (a_msg p)\<lparr>magic := command (a_msg p) XOR 0xffffffff,
     data_check := (\<Sum>b\<leftarrow>take (unat (data_length (a_msg p))) (a_data p). ucast b)\<rparr>\<rparr>)"
  by (simp add: seal_packet_def sum_loop_eq)

lemma wire_length_small: "unat len \<le> MAX_PAYLOAD \<Longrightarrow> wire_length len = 24 + unat len"
proof -
  assume l: "unat len \<le> MAX_PAYLOAD"
  from l have "int (unat len) \<le> 4096" unfolding MAX_PAYLOAD_def by linarith
  then have u: "uint len \<le> 4096" "0 \<le> uint len" by simp_all
  have "- (2 ^ 31) \<le> uint len" by (rule order_trans [OF _ u(2)]) simp
  with u have "signed_take_bit 31 (uint len) = uint len"
    by (intro signed_take_bit_int_eq_self) auto
  then have "sint len = uint len" by (simp add: sint_uint)
  moreover have "(24 + uint len) mod 2 ^ 64 = 24 + uint len"
    using u by (intro mod_pos_pos_trivial) auto
  ultimately show ?thesis
    by (simp add: wire_length_def nat_add_distrib)
qed

text \<open>The bytes of a packet on the wire: the header and the \<open>data_length\<close> bytes of payload.\<close>

definition wire :: "apacket \<Rightarrow> bytes" where
  "wire p = amessage_bytes (a_msg p) @ take (unat (data_length (a_msg p))) (a_data p)"

definition packet_ok :: "apacket \<Rightarrow> bool" where
  "packet_ok p \<longleftrightarrow> length (a_data p) = MAX_PAYLOAD \<and> unat (data_length (a_msg p)) \<le> MAX_PAYLOAD"

lemma seal_packet_sealed:
  assumes "packet_ok p"
  obtains q where "seal_packet p = Inr q" and "packet_ok q" and "check_header q = 0"
    and "check_data q = Inr 0" and "a_data q = a_data p" and "command (a_msg q) = command (a_msg p)"
    and "arg0 (a_msg q) = arg0 (a_msg p)" and "arg1 (a_msg q) = arg1 (a_msg p)"
    and "data_length (a_msg q) = data_length (a_msg p)"
  using assms that
  by (auto simp: packet_ok_def seal_packet_eq check_header_iff check_data_def sum_loop_eq)

lemma recv_packetE:
  assumes "recv_packet rx b s = Inr (c, b', s')"
  obtains (1) "c = -1" "b' = b"
  | (2) hb where "c = -1" "b' = b\<lparr>a_msg := amessage_of hb\<rparr>"
  | (3) hb s1 db x where "rx 24 s = Inr (Some hb, s1)"
      "check_header (b\<lparr>a_msg := amessage_of hb\<rparr>) = 0"
      "rx (unat (data_length (amessage_of hb))) s1 = Inr (Some db, s')"
      "b' = b\<lparr>a_msg := amessage_of hb, a_data := db @ drop (length db) (a_data b)\<rparr>"
      "check_data b' = Inr x" "c = (if x \<noteq> 0 then -1 else 0)"
proof -
  from assms obtain h s1 where h: "rx 24 s = Inr (h, s1)"
    by (auto simp: recv_packet_def andthen_Inr_iff)
  show thesis
  proof (cases h)
    case None
    with assms h that(1) show thesis by (simp add: recv_packet_def)
  next
    case (Some hb)
    show thesis
    proof (cases "check_header (b\<lparr>a_msg := amessage_of hb\<rparr>) = 0")
      case False
      with assms h Some show thesis by (intro that(2) [of hb]) (auto simp: recv_packet_def Let_def)
    next
      case True
      with assms h Some obtain d s2 where d: "rx (unat (data_length (amessage_of hb))) s1 = Inr (d, s2)"
        by (auto simp: recv_packet_def andthen_Inr_iff Let_def)
      show thesis
      proof (cases d)
        case None
        with assms h Some True d show thesis
          by (intro that(2) [of hb]) (auto simp: recv_packet_def Let_def)
      next
        case (Some db)
        let ?p = "b\<lparr>a_msg := amessage_of hb, a_data := db @ drop (length db) (a_data b)\<rparr>"
        from assms h Some \<open>h = Some hb\<close> True d obtain x where
          "check_data ?p = Inr x" "c = (if x \<noteq> 0 then -1 else 0)" "b' = ?p" "s' = s2"
          by (auto simp: recv_packet_def Let_def andthen_Inr_iff)
        with h Some \<open>h = Some hb\<close> True d show thesis by (intro that(3) [of hb s1 db x]) auto
      qed
    qed
  qed
qed

context byte_source
begin

text \<open>A sealed packet at the head of the stream is received whole, and nothing after it is
  consumed.\<close>

lemma recv_wire:
  assumes p: "packet_ok p" "check_header p = 0" "check_data p = Inr 0"
    and b: "length (a_data b) = MAX_PAYLOAD" and s: "content s = wire p @ rest"
  shows "\<exists>b' s'. recv_packet rx b s = Inr (0, b', s') \<and> a_msg b' = a_msg p \<and>
    take (unat (data_length (a_msg p))) (a_data b') = take (unat (data_length (a_msg p))) (a_data p) \<and>
    length (a_data b') = MAX_PAYLOAD \<and> content s' = rest"
proof -
  let ?n = "unat (data_length (a_msg p))"
  let ?d = "take ?n (a_data p)"
  have n: "length ?d = ?n" using p(1) by (simp add: packet_ok_def)
  obtain s1 where r1: "rx 24 s = Inr (Some (amessage_bytes (a_msg p)), s1)"
    and c1: "content s1 = ?d @ rest"
    by (rule rx_append [of s "amessage_bytes (a_msg p)" "?d @ rest" 24]) (auto simp: s wire_def)
  obtain s2 where r2: "rx ?n s1 = Inr (Some ?d, s2)" and c2: "content s2 = rest"
    by (rule rx_append [of s1 ?d rest ?n]) (use c1 n in auto)
  have h: "check_header (b\<lparr>a_msg := a_msg p\<rparr>) = 0" using p(2) by (simp add: check_header_iff)
  have d: "check_data (b\<lparr>a_msg := a_msg p, a_data := ?d @ drop ?n (a_data b)\<rparr>) = Inr 0"
    using p(1,3) b by (simp add: check_data_def sum_loop_eq packet_ok_def)
  have "recv_packet rx b s = Inr (0, b\<lparr>a_msg := a_msg p, a_data := ?d @ drop ?n (a_data b)\<rparr>, s2)"
    using n d by (simp add: recv_packet_def r1 r2 h Let_def)
  with c2 n b p(1) show ?thesis by (auto simp: packet_ok_def)
qed

text \<open>Whatever the stream holds, what is received fits the buffer and has passed both checks.\<close>

lemma recv_safe:
  assumes b: "length (a_data b) = MAX_PAYLOAD" and r: "recv_packet rx b s = Inr (c, b', s')"
  shows "length (a_data b') = MAX_PAYLOAD"
    and "c = 0 \<Longrightarrow> check_header b' = 0 \<and> check_data b' = Inr 0 \<and> content s = wire b' @ content s'"
proof -
  from r show "length (a_data b') = MAX_PAYLOAD"
  proof (cases rule: recv_packetE)
    case (3 hb s1 db)
    with rx_sound [OF 3(3)] b show ?thesis by (auto simp: check_header_iff)
  qed (use b in auto)
  assume "c = 0"
  with r obtain hb s1 db where h: "rx 24 s = Inr (Some hb, s1)"
    and d: "rx (unat (data_length (amessage_of hb))) s1 = Inr (Some db, s')"
    and ok: "check_header (b\<lparr>a_msg := amessage_of hb\<rparr>) = 0"
    and b': "b' = b\<lparr>a_msg := amessage_of hb, a_data := db @ drop (length db) (a_data b)\<rparr>"
    and ck: "check_data b' = Inr 0"
    by (cases rule: recv_packetE) (auto split: if_splits)
  from rx_sound [OF h] have hb: "length hb = 24" "content s = hb @ content s1" by auto
  from rx_sound [OF d] have db: "length db = unat (data_length (amessage_of hb))"
    "content s1 = db @ content s'" by auto
  have "amessage_bytes (amessage_of hb) = hb"
    using hb(1) by (rule amessage_bytes_of)
  with ok ck b' hb db show "check_header b' = 0 \<and> check_data b' = Inr 0 \<and> content s = wire b' @ content s'"
    by (simp add: check_header_iff wire_def)
qed

lemma recv_in_bounds:
  assumes "length (a_data b) = MAX_PAYLOAD" and "\<And>n s. rx n s \<noteq> Inl OutOfBounds"
  shows "recv_packet rx b s \<noteq> Inl OutOfBounds"
proof
  assume "recv_packet rx b s = Inl OutOfBounds"
  with assms(2) obtain hb s1 db s2 where h: "rx 24 s = Inr (Some hb, s1)"
    and d: "rx (unat (data_length (amessage_of hb))) s1 = Inr (Some db, s2)"
    and ok: "check_header (b\<lparr>a_msg := amessage_of hb\<rparr>) = 0"
    and ck: "check_data (b\<lparr>a_msg := amessage_of hb, a_data := db @ drop (length db) (a_data b)\<rparr>) = Inl OutOfBounds"
    by (auto simp: recv_packet_def andthen_Inl_iff Let_def split: option.splits if_splits)
  from rx_sound [OF d] ok ck assms(1) show False
    by (simp add: check_data_def sum_loop_eq check_header_iff)
qed

end

lemma remote_write_in_bounds: "packet_ok p \<Longrightarrow> remote_write fd p w =
    andthen (writex fd (wire p) w) (\<lambda>(ok, w1). Inr (if ok then 0 else -1, w1))"
  by (simp add: remote_write_def Let_def wire_length_small packet_ok_def wire_def)

lemma remote_write_wire:
  assumes "packet_ok p" and "remote_write fd p w = Inr (c, w')"
  shows "c = 0 \<Longrightarrow> w_out w' fd = w_out w fd @ wire p"
    and "c \<noteq> 0 \<Longrightarrow> \<exists>k<length (wire p). w_out w' fd = w_out w fd @ take k (wire p)"
proof -
  from assms obtain ok where o: "writex fd (wire p) w = Inr (ok, w')" "c = (if ok then 0 else -1)"
    by (auto simp: remote_write_in_bounds andthen_Inr_iff)
  from o show "c = 0 \<Longrightarrow> w_out w' fd = w_out w fd @ wire p"
    by (cases ok) (auto dest: writex.wx_ok)
  from o show "c \<noteq> 0 \<Longrightarrow> \<exists>k<length (wire p). w_out w' fd = w_out w fd @ take k (wire p)"
    by (cases ok) (auto dest: writex.wx_fail)
qed

section \<open>Properties\<close>

text \<open>C3: Round trip over TCP. A packet prepared as \<open>send_packet\<close> does and written out whole by
  \<open>remote_write\<close> is read back by \<open>remote_read\<close> at the other end with the same header and the
  same payload, however the kernel cuts the bytes into reads and whatever EINTRs come between,
  and the bytes after it stay in the stream.\<close>

theorem packet_roundtrip:
  assumes "packet_ok p" and "seal_packet p = Inr q"
    and "remote_write fd q w = Inr (0, w1)" and "w_out w1 fd = w_out w fd @ bs"
    and "avail fd' v = bs @ rest" and "length (a_data b) = MAX_PAYLOAD"
  shows "\<exists>b' v'. remote_read fd' b v = Inr (0, b', v') \<and> a_msg b' = a_msg q \<and>
    command (a_msg b') = command (a_msg p) \<and> arg0 (a_msg b') = arg0 (a_msg p) \<and>
    arg1 (a_msg b') = arg1 (a_msg p) \<and> data_length (a_msg b') = data_length (a_msg p) \<and>
    take (unat (data_length (a_msg p))) (a_data b') = take (unat (data_length (a_msg p))) (a_data p) \<and>
    avail fd' v' = rest"
proof -
  from seal_packet_sealed [OF assms(1)] assms(2)
  have q: "packet_ok q" "check_header q = 0" "check_data q = Inr 0" "a_data q = a_data p"
    "command (a_msg q) = command (a_msg p)" "arg0 (a_msg q) = arg0 (a_msg p)"
    "arg1 (a_msg q) = arg1 (a_msg p)" "data_length (a_msg q) = data_length (a_msg p)"
    by auto
  from remote_write_wire(1) [OF q(1) assms(3)] assms(4) have "bs = wire q" by simp
  with readx.recv_wire [OF q(1-3) assms(6), of fd' v rest] assms(5) q show ?thesis
    by (auto simp: remote_read_def)
qed

definition sample_packet :: apacket where
  "sample_packet = \<lparr>a_len = 0, a_ptr = 0, a_msg = zero_msg\<lparr>command := A_WRTE, arg0 := 7, data_length := 3\<rparr>,
     a_data = [1, 2, 3] @ replicate 4093 0\<rparr>"

lemma sample_packet_ok: "packet_ok sample_packet"
  by (simp add: sample_packet_def packet_ok_def MAX_PAYLOAD_def zero_msg_def)

theorem packet_roundtrip_witness:
  "\<exists>q w1 b' v'. seal_packet sample_packet = Inr q \<and>
    remote_write 5 q (idle_world\<lparr>w_wr := (\<lambda>_. replicate 27 (WrAcc 3))\<rparr>) = Inr (0, w1) \<and>
    remote_read 6 sample_packet (idle_world\<lparr>w_rd := (\<lambda>_. [RdData (take 7 (w_out w1 5)), RdErr EINTR,
      RdData (drop 7 (w_out w1 5) @ [9])])\<rparr>) = Inr (0, b', v') \<and>
    command (a_msg b') = A_WRTE \<and> take 3 (a_data b') = [1, 2, 3] \<and> avail 6 v' = [9]"
proof -
  obtain q where q: "seal_packet sample_packet = Inr q" "packet_ok q"
    "data_length (a_msg q) = data_length (a_msg sample_packet)" "a_data q = a_data sample_packet"
    by (rule seal_packet_sealed [OF sample_packet_ok]) blast
  let ?w = "idle_world\<lparr>w_wr := (\<lambda>_. replicate 27 (WrAcc 3))\<rparr>"
  have l: "length (wire q) = 27"
    using q(3,4) by (simp add: wire_def sample_packet_def zero_msg_def)
  then obtain w1 where w1: "remote_write 5 q ?w = Inr (0, w1)"
    using writex_complete [of "wire q" ?w 5] by (auto simp: remote_write_in_bounds [OF q(2)])
  let ?v = "idle_world\<lparr>w_rd := (\<lambda>_. [RdData (take 7 (w_out w1 5)), RdErr EINTR,
      RdData (drop 7 (w_out w1 5) @ [9])])\<rparr>"
  have o: "w_out w1 5 = w_out ?w 5 @ wire q" using remote_write_wire(1) [OF q(2) w1] by simp
  then have "w_out w1 5 = wire q" by (simp add: idle_world_def)
  with l have "avail 6 ?v = wire q @ [9]" by (auto simp: avail_def)
  from packet_roundtrip [OF sample_packet_ok q(1) w1 o this, of sample_packet] q(1) w1 show ?thesis
    by (auto simp: sample_packet_def zero_msg_def MAX_PAYLOAD_def)
qed

text \<open>C5: Receiving is memory safe and checked. Whatever bytes the peer sends, \<open>remote_read\<close>
  never goes past the payload buffer; and when it reports success the packet has the right
  magic, a length within \<open>MAX_PAYLOAD\<close> and the right checksum, and it is exactly what was taken
  off the stream.\<close>

theorem remote_read_safe:
  assumes "length (a_data b) = MAX_PAYLOAD"
  shows "remote_read fd b w \<noteq> Inl OutOfBounds \<and>
    (\<forall>c b' w'. remote_read fd b w = Inr (c, b', w') \<longrightarrow>
       length (a_data b') = MAX_PAYLOAD \<and>
       (c = 0 \<longrightarrow> check_header b' = 0 \<and> unat (data_length (a_msg b')) \<le> MAX_PAYLOAD \<and>
          check_data b' = Inr 0 \<and> avail fd w = wire b' @ avail fd w'))"
proof -
  have "readx fd n s \<noteq> Inl OutOfBounds" for n s by (rule readx_not_oob)
  from readx.recv_in_bounds [OF assms this] readx.recv_safe [OF assms, of fd w] show ?thesis
    by (auto simp: remote_read_def check_header_iff)
qed

theorem remote_read_safe_witness:
  "length (a_data sample_packet) = MAX_PAYLOAD \<and>
   remote_read 6 sample_packet (idle_world\<lparr>w_rd := (\<lambda>_. [RdData (replicate 24 7)])\<rparr>) \<noteq> Inl OutOfBounds"
  using remote_read_safe [of sample_packet 6 "idle_world\<lparr>w_rd := (\<lambda>_. [RdData (replicate 24 7)])\<rparr>"]
    sample_packet_ok by (auto simp: packet_ok_def)

end
