(* ===== verification/Base64.thy ===== *)
theory Base64
  imports Prelude
begin

text \<open>
  The base64 decoder \<open>b64_pton\<close> of \<open>base64.c\<close>, which reads the authorised keys. The decoder
  is translated character by character, with the target buffer as a list and every bound check
  of the source; it is compared with a reference encoder.
\<close>

unbundle bit_operations_syntax

definition Base64 :: string where
  "Base64 = ''ABCDEFGHIJKLMNOPQRSTUVWXYZabcdefghijklmnopqrstuvwxyz0123456789+/''"

definition Pad64 :: char where "Pad64 = CHR ''=''"

definition isspace :: "char \<Rightarrow> bool" where
  "isspace c \<longleftrightarrow> c \<in> set [CHR '' '', CHR 0x09, CHR 0x0A, CHR 0x0B, CHR 0x0C, CHR 0x0D]"

text \<open>\<open>strchr(Base64,ch)\<close>, as the offset \<open>pos-Base64\<close>.\<close>

definition b64_pos :: "char \<Rightarrow> nat option" where
  "b64_pos ch = (let i = length (takeWhile (\<lambda>x. x \<noteq> ch) Base64)
                 in if i < length Base64 then Some i else None)"

text \<open>One turn of the \<open>switch(state)\<close>: the new state, index and buffer, or \<open>None\<close> for \<open>return -1\<close>.\<close>

definition b64_step :: "u8 \<Rightarrow> nat \<Rightarrow> nat \<Rightarrow> bytes \<Rightarrow> (nat \<times> nat \<times> bytes) option" where
  "b64_step v state tarindex target =
    (if state = 0 then
       (if tarindex \<ge> length target then None
        else Some (1, tarindex, target[tarindex := push_bit 2 v]))
     else if state = 1 then
       (if tarindex + 1 \<ge> length target then None
        else Some (2, tarindex + 1,
          target[tarindex := target ! tarindex OR drop_bit 4 v, tarindex + 1 := push_bit 4 (v AND 0x0f)]))
     else if state = 2 then
       (if tarindex + 1 \<ge> length target then None
        else Some (3, tarindex + 1,
          target[tarindex := target ! tarindex OR drop_bit 2 v, tarindex + 1 := push_bit 6 (v AND 0x03)]))
     else
       (if tarindex \<ge> length target then None
        else Some (0, tarindex + 1, target[tarindex := target ! tarindex OR v])))"

text \<open>The main loop. It returns -1 (\<open>Inl\<close>, with the buffer as it is then), or it leaves at the
  end of the string (\<open>None\<close> in the last component) or at the padding character, with what
  follows it.\<close>

fun b64_loop :: "string \<Rightarrow> nat \<Rightarrow> nat \<Rightarrow> bytes \<Rightarrow> bytes + nat \<times> nat \<times> bytes \<times> string option" where
  "b64_loop [] state tarindex target = Inr (state, tarindex, target, None)"
| "b64_loop (ch # src) state tarindex target =
    (if isspace ch then b64_loop src state tarindex target
     else if ch = Pad64 then Inr (state, tarindex, target, Some src)
     else case b64_pos ch of
         None \<Rightarrow> Inl target
       | Some pos \<Rightarrow> (case b64_step (word_of_nat pos) state tarindex target of
             None \<Rightarrow> Inl target
           | Some (state', tarindex', target') \<Rightarrow> b64_loop src state' tarindex' target'))"

text \<open>The loop of case 3 after the padding: only white space may follow, and the bits left over
  in the last byte must be zero.\<close>

definition b64_tail3 :: "string \<Rightarrow> nat \<Rightarrow> bytes \<Rightarrow> int outcome" where
  "b64_tail3 src tarindex target =
    (if list_all isspace src then
       if tarindex < length target then
         Inr (if target ! tarindex \<noteq> 0 then -1 else int tarindex)
       else Inl OutOfBounds
     else Inr (-1))"

text \<open>What follows the loop: the padding, or the check that the last group was complete.\<close>

definition b64_finish :: "bytes + nat \<times> nat \<times> bytes \<times> string option \<Rightarrow> (int \<times> bytes) outcome" where
  "b64_finish r = (case r of
       Inl target \<Rightarrow> Inr (-1, target)
     | Inr (state, tarindex, target, None) \<Rightarrow>
         Inr (if state \<noteq> 0 then -1 else int tarindex, target)
     | Inr (state, tarindex, target, Some rest) \<Rightarrow>
         andthen
           (if state = 0 \<or> state = 1 then Inr (-1)
            else if state = 2 then
              (case dropWhile isspace rest of
                 [] \<Rightarrow> Inr (-1)
               | ch # rest' \<Rightarrow> if ch \<noteq> Pad64 then Inr (-1) else b64_tail3 rest' tarindex target)
            else b64_tail3 rest tarindex target)
           (\<lambda>n. Inr (n, target)))"

definition b64_pton :: "string \<Rightarrow> bytes \<Rightarrow> (int \<times> bytes) outcome" where
  "b64_pton src target = b64_finish (b64_loop src 0 0 target)"

section \<open>Reference encoder\<close>

definition b64_char :: "u8 \<Rightarrow> char" where
  "b64_char v = Base64 ! unat v"

text \<open>The four six-bit groups of three bytes.\<close>

definition group0 :: "u8 \<Rightarrow> u8" where "group0 a = drop_bit 2 a"
definition group1 :: "u8 \<Rightarrow> u8 \<Rightarrow> u8" where "group1 a b = push_bit 4 (a AND 3) OR drop_bit 4 b"
definition group2 :: "u8 \<Rightarrow> u8 \<Rightarrow> u8" where "group2 b c = push_bit 2 (b AND 15) OR drop_bit 6 c"
definition group3 :: "u8 \<Rightarrow> u8" where "group3 c = c AND 63"

fun b64_encode :: "bytes \<Rightarrow> string" where
  "b64_encode [] = []"
| "b64_encode [a] = [b64_char (group0 a), b64_char (group1 a 0), Pad64, Pad64]"
| "b64_encode [a, b] = [b64_char (group0 a), b64_char (group1 a b), b64_char (group2 b 0), Pad64]"
| "b64_encode (a # b # c # bs) =
     [b64_char (group0 a), b64_char (group1 a b), b64_char (group2 b c), b64_char (group3 c)] @ b64_encode bs"

text \<open>The bytes the decoder assembles from neighbouring groups.\<close>

definition byte0 :: "u8 \<Rightarrow> u8 \<Rightarrow> u8" where "byte0 u v = push_bit 2 u OR drop_bit 4 v"
definition byte1 :: "u8 \<Rightarrow> u8 \<Rightarrow> u8" where "byte1 u v = push_bit 4 (u AND 15) OR drop_bit 2 v"
definition byte2 :: "u8 \<Rightarrow> u8 \<Rightarrow> u8" where "byte2 u v = push_bit 6 (u AND 3) OR v"

lemmas group_defs = group0_def group1_def group2_def group3_def
lemmas byte_defs = byte0_def byte1_def byte2_def

section \<open>The alphabet\<close>

lemma length_Base64 [simp]: "length Base64 = 64"
  by (simp add: Base64_def)

lemma distinct_Base64: "distinct Base64"
  by (simp add: Base64_def)

lemma Base64_plain: "\<forall>c \<in> set Base64. \<not> isspace c \<and> c \<noteq> Pad64"
  by (simp add: Base64_def isspace_def Pad64_def)

lemma b64_pos_nth: "i < 64 \<Longrightarrow> b64_pos (Base64 ! i) = Some i"
proof -
  assume i: "i < 64"
  have "takeWhile (\<lambda>x. x \<noteq> Base64 ! i) Base64 = take i Base64"
    using i distinct_Base64 by (intro takeWhile_eq_take_P_nth) (auto simp: nth_eq_iff_index_eq)
  with i show ?thesis by (simp add: b64_pos_def)
qed

lemma b64_pos_Some: "b64_pos c = Some i \<Longrightarrow> i < 64 \<and> Base64 ! i = c"
  using nth_length_takeWhile [of "\<lambda>x. x \<noteq> c" Base64] by (auto simp: b64_pos_def Let_def split: if_splits)

lemma b64_char_plain:
  assumes "unat v < 64"
  shows "\<not> isspace (b64_char v)" and "b64_char v \<noteq> Pad64" and "b64_pos (b64_char v) = Some (unat v)"
  using Base64_plain nth_mem [of "unat v" Base64] assms by (auto simp: b64_char_def b64_pos_nth)

section \<open>Six-bit groups\<close>

lemma and_masks: "v AND 3 = take_bit 2 v" "v AND 15 = take_bit 4 v" "v AND 63 = take_bit 6 v" for v :: u8
  by (simp_all add: take_bit_eq_mask mask_eq_exp_minus_1)

lemma less64I: "take_bit 6 v = v \<Longrightarrow> unat v < 64" for v :: u8
proof -
  assume "take_bit 6 v = v"
  then have "unat v = take_bit 6 (unat v)" by (metis unsigned_take_bit_eq)
  also have "\<dots> < 2 ^ 6" by (rule take_bit_nat_less_exp)
  finally show ?thesis by simp
qed

lemma bit_u8: "bit v n \<Longrightarrow> n < 8" for v :: u8
  using bit_imp_le_length [of v n] by simp

lemma group_less:
  "unat (group0 a) < 64" "unat (group1 a b) < 64" "unat (group2 b c) < 64" "unat (group3 c) < 64"
  by (rule less64I, rule bit_word_eqI, auto simp: group_defs bit_simps and_masks dest: bit_u8)+

lemma u8_eqI:
  "bit v 0 = bit w 0 \<Longrightarrow> bit v 1 = bit w 1 \<Longrightarrow> bit v 2 = bit w 2 \<Longrightarrow> bit v 3 = bit w 3 \<Longrightarrow>
   bit v 4 = bit w 4 \<Longrightarrow> bit v 5 = bit w 5 \<Longrightarrow> bit v 6 = bit w 6 \<Longrightarrow> bit v 7 = bit w 7 \<Longrightarrow> v = w"
  for v w :: u8
proof (rule bit_word_eqI)
  assume *: "bit v 0 = bit w 0" "bit v 1 = bit w 1" "bit v 2 = bit w 2" "bit v 3 = bit w 3"
    "bit v 4 = bit w 4" "bit v 5 = bit w 5" "bit v 6 = bit w 6" "bit v 7 = bit w 7"
  fix n assume "n < LENGTH(8)"
  then have "n \<in> {0, 1, 2, 3, 4, 5, 6, 7}" by auto
  with * show "bit v n = bit w n" by auto
qed

lemma bytes_of_groups:
  "byte0 (group0 a) (group1 a b) = a" "byte1 (group1 a b) (group2 b c) = b"
  "byte2 (group2 b c) (group3 c) = c" "byte1 (group1 a 0) 0 = 0" "byte2 (group2 b 0) 0 = 0"
  unfolding byte_defs group_defs by (rule u8_eqI; simp add: bit_simps and_masks)+

lemma bit_six: "unat v < 64 \<Longrightarrow> bit v n \<Longrightarrow> n < 6" for v :: u8
proof -
  assume "unat v < 64" "bit v n"
  then have "take_bit 6 (unat v) = unat v" "bit (unat v) n"
    by (auto simp: take_bit_nat_eq_self_iff bit_unsigned_iff)
  then show "n < 6" by (metis bit_take_bit_iff)
qed

lemma six_high: "unat v < 64 \<Longrightarrow> 6 \<le> n \<Longrightarrow> \<not> bit v n" for v :: u8
  using bit_six [of v n] by auto

text \<open>Zero bits left over in the last byte: the last group is the canonical one.\<close>

lemma last_group:
  "unat v < 64 \<Longrightarrow> byte1 v 0 = 0 \<Longrightarrow> group1 (byte0 u v) 0 = v"
  "unat v < 64 \<Longrightarrow> byte2 v 0 = 0 \<Longrightarrow> group2 (byte1 u v) 0 = v"
proof -
  assume v: "unat v < 64" "byte1 v 0 = 0"
  have "\<not> bit (byte1 v 0) n" for n using v(2) by simp
  from this [of 4] this [of 5] this [of 6] this [of 7]
  have "\<not> bit v 0" "\<not> bit v 1" "\<not> bit v 2" "\<not> bit v 3"
    unfolding byte1_def by (simp_all add: bit_simps and_masks)
  then show "group1 (byte0 u v) 0 = v"
    unfolding byte_defs group_defs by (intro u8_eqI; simp add: bit_simps and_masks six_high [OF v(1)])
next
  assume v: "unat v < 64" "byte2 v 0 = 0"
  have "\<not> bit (byte2 v 0) n" for n using v(2) by simp
  from this [of 6] this [of 7] have "\<not> bit v 0" "\<not> bit v 1"
    unfolding byte2_def by (simp_all add: bit_simps and_masks)
  then show "group2 (byte1 u v) 0 = v"
    unfolding byte_defs group_defs by (intro u8_eqI; simp add: bit_simps and_masks six_high [OF v(1)])
qed

lemma groups_of_bytes:
  assumes v: "unat v0 < 64" "unat v1 < 64" "unat v2 < 64" "unat v3 < 64"
  shows "group0 (byte0 v0 v1) = v0" and "group1 (byte0 v0 v1) (byte1 v1 v2) = v1"
    and "group2 (byte1 v1 v2) (byte2 v2 v3) = v2" and "group3 (byte2 v2 v3) = v3"
  unfolding byte_defs group_defs
  by (rule u8_eqI; simp add: bit_simps and_masks six_high [OF v(1)] six_high [OF v(2)]
      six_high [OF v(3)] six_high [OF v(4)])+

section \<open>Decoding what was encoded\<close>

lemma b64_loop_char:
  "unat v < 64 \<Longrightarrow> b64_loop (b64_char v # src) state i t = (case b64_step v state i t of
     None \<Rightarrow> Inl t | Some (state', i', t') \<Rightarrow> b64_loop src state' i' t')"
  by (simp add: b64_char_plain)

lemma b64_loop_Pad: "b64_loop (Pad64 # src) state i t = Inr (state, i, t, Some src)"
  by (simp add: isspace_def Pad64_def)

declare b64_loop.simps(2) [simp del]

lemma b64_loop_group:
  assumes "unat v0 < 64" "unat v1 < 64" "unat v2 < 64" "unat v3 < 64" and "i + 2 < length t"
  shows "b64_loop (b64_char v0 # b64_char v1 # b64_char v2 # b64_char v3 # src) 0 i t =
    b64_loop src 0 (i + 3) (t[i := byte0 v0 v1, i + 1 := byte1 v1 v2, i + 2 := byte2 v2 v3])"
  using assms by (simp add: b64_loop_char b64_step_def list_update_swap numeral_3_eq_3 byte_defs)

text \<open>Two and three groups before the padding.\<close>

lemma b64_loop_two:
  assumes "unat v0 < 64" "unat v1 < 64" and "i + 1 < length t"
  shows "b64_loop (b64_char v0 # b64_char v1 # src) 0 i t =
    b64_loop src 2 (i + 1) (t[i := byte0 v0 v1, i + 1 := byte1 v1 0])"
  using assms by (simp add: b64_loop_char b64_step_def byte_defs)

lemma b64_loop_three:
  assumes "unat v0 < 64" "unat v1 < 64" "unat v2 < 64" and "i + 2 < length t"
  shows "b64_loop (b64_char v0 # b64_char v1 # b64_char v2 # src) 0 i t =
    b64_loop src 3 (i + 2) (t[i := byte0 v0 v1, i + 1 := byte1 v1 v2, i + 2 := byte2 v2 0])"
  using assms by (simp add: b64_loop_char b64_step_def byte_defs list_update_swap)

lemma window:
  "i + 1 \<le> length t \<Longrightarrow> t ! i = a \<Longrightarrow> take (Suc 0) (drop i t) = [a]"
  "i + 2 \<le> length t \<Longrightarrow> t ! i = a \<Longrightarrow> t ! Suc i = b \<Longrightarrow> take (Suc (Suc 0)) (drop i t) = [a, b]"
  "i + 3 \<le> length t \<Longrightarrow> t ! i = a \<Longrightarrow> t ! Suc i = b \<Longrightarrow> t ! Suc (Suc i) = c \<Longrightarrow>
    take 3 (drop i t) = [a, b, c]"
  by (simp_all add: numeral_3_eq_3 flip: Cons_nth_drop_Suc)

lemma b64_decode_encode:
  "i + length bs < length t \<Longrightarrow>
   \<exists>t'. b64_finish (b64_loop (b64_encode bs) 0 i t) = Inr (int (i + length bs), t') \<and>
     take (length bs) (drop i t') = bs \<and> take i t' = take i t \<and> length t' = length t"
proof (induction bs arbitrary: i t rule: b64_encode.induct)
  case 1
  then show ?case by (simp add: b64_finish_def)
next
  case (2 a)
  then show ?case
    by (simp add: b64_loop_two b64_loop_Pad group_less b64_finish_def b64_tail3_def bytes_of_groups
        window) (simp add: isspace_def Pad64_def)
next
  case (3 a b)
  then show ?case
    by (simp add: b64_loop_three b64_loop_Pad group_less b64_finish_def b64_tail3_def bytes_of_groups window)
next
  case (4 a b c bs)
  let ?t = "t[i := a, i + 1 := b, i + 2 := c]"
  from 4 have "i + 3 + length bs < length ?t" by simp
  from "4.IH" [OF this] obtain t' where
    t': "b64_finish (b64_loop (b64_encode bs) 0 (i + 3) ?t) = Inr (int (i + 3 + length bs), t')"
    "take (length bs) (drop (i + 3) t') = bs" "take (i + 3) t' = take (i + 3) ?t" "length t' = length ?t"
    by blast
  have "b64_loop (b64_encode (a # b # c # bs)) 0 i t = b64_loop (b64_encode bs) 0 (i + 3) ?t"
    using 4 by (simp add: b64_loop_group group_less bytes_of_groups)
  moreover have "take i t' = take i t"
    using arg_cong [OF t'(3), of "take i"] by simp
  moreover have "t' ! j = ?t ! j" if "j < i + 3" for j
    using arg_cong [OF t'(3), of "\<lambda>x. x ! j"] that by simp
  then have "take 3 (drop i t') = [a, b, c]"
    using t'(4) 4 by (intro window) simp_all
  moreover have "take (3 + length bs) (drop i t') = take 3 (drop i t') @ take (length bs) (drop (i + 3) t')"
    using take_add [of 3 "length bs" "drop i t'"] by (simp add: add.commute)
  ultimately show ?case using t' by (simp add: numeral_3_eq_3)
qed

section \<open>White space\<close>

abbreviation squeeze :: "string \<Rightarrow> string" where
  "squeeze src \<equiv> filter (\<lambda>c. \<not> isspace c) src"

lemma b64_loop_squeeze:
  "b64_loop (squeeze src) state i t = (case b64_loop src state i t of
     Inl t' \<Rightarrow> Inl t' | Inr (state', i', t', r) \<Rightarrow> Inr (state', i', t', map_option (filter (\<lambda>c. \<not> isspace c)) r))"
  by (induction src arbitrary: state i t) (auto simp: b64_loop.simps split: option.splits)

lemma b64_tail3_squeeze: "b64_tail3 (squeeze rest) i t = b64_tail3 rest i t"
  by (auto simp: b64_tail3_def list_all_iff)

lemma dropWhile_squeeze: "dropWhile isspace (squeeze rest) = squeeze (dropWhile isspace rest)"
  by (induction rest) auto

lemma dropWhile_isspace_hd: "dropWhile isspace rest = ch # rest' \<Longrightarrow> \<not> isspace ch"
  by (metis hd_dropWhile list.sel(1) list.simps(3))

lemma squeeze_dropWhile_case:
  "(case dropWhile isspace (squeeze rest) of [] \<Rightarrow> x | c # r \<Rightarrow> f c (squeeze r)) =
   (case dropWhile isspace rest of [] \<Rightarrow> x | c # r \<Rightarrow> f c (squeeze r))"
  by (induction rest) auto

lemma b64_finish_squeeze:
  "b64_finish (Inr (state, i, t, Some (squeeze rest))) = b64_finish (Inr (state, i, t, Some rest))"
proof -
  have "(case dropWhile isspace (squeeze rest) of [] \<Rightarrow> Inr (-1)
      | ch # r \<Rightarrow> if ch \<noteq> Pad64 then Inr (-1) else b64_tail3 r i t) =
    (case dropWhile isspace rest of [] \<Rightarrow> Inr (-1)
      | ch # r \<Rightarrow> if ch \<noteq> Pad64 then Inr (-1) else b64_tail3 r i t)"
    using squeeze_dropWhile_case [where rest = rest and x = "Inr (-1)" and
        f = "\<lambda>ch r. if ch \<noteq> Pad64 then Inr (-1) else b64_tail3 r i t"]
    by (simp only: b64_tail3_squeeze)
  then show ?thesis by (simp only: b64_finish_def sum.case prod.case option.case b64_tail3_squeeze)
qed

lemma b64_pton_squeeze: "b64_pton (squeeze src) t = b64_pton src t"
proof (cases "b64_loop src 0 0 t")
  case (Inl t')
  then show ?thesis by (simp add: b64_pton_def b64_loop_squeeze)
next
  case (Inr r)
  obtain st i t' q where r: "r = (st, i, t', q)" by (cases r)
  show ?thesis
    by (cases q) (simp_all add: b64_pton_def b64_loop_squeeze Inr r b64_finish_squeeze)
qed

section \<open>Only canonical encodings are accepted\<close>

lemma b64_posE:
  assumes "b64_pos c = Some n"
  obtains v where "c = b64_char v" and "unat v < 64" and "word_of_nat n = v"
proof -
  from b64_pos_Some [OF assms] have n: "n < 64" "Base64 ! n = c" by auto
  then have "unat (word_of_nat n :: u8) = n" by (simp add: unat_of_nat take_bit_eq_mod)
  with n that [of "word_of_nat n"] show ?thesis by (simp add: b64_char_def)
qed

text \<open>What the next character can be when the loop goes on without failing.\<close>

lemma b64_next:
  assumes "\<not> isspace c" and "b64_loop (c # src) state i t = Inr r"
  obtains (pad) "c = Pad64" and "r = (state, i, t, Some src)"
  | (char) v state' i' t' where "c = b64_char v" and "unat v < 64"
      and "b64_step v state i t = Some (state', i', t')" and "b64_loop src state' i' t' = Inr r"
  using assms by (auto simp: b64_loop.simps split: if_splits option.splits elim!: b64_posE)

lemma b64_finish_nonneg:
  assumes "b64_finish l = Inr (n, t')" and "0 \<le> n"
  obtains (done0) i where "l = Inr (0, i, t', None)" and "n = int i"
  | (pad2) i r r' where "l = Inr (2, i, t', Some r)" and "dropWhile isspace r = Pad64 # r'"
      and "list_all isspace r'" and "i < length t'" and "t' ! i = 0" and "n = int i"
  | (pad3) s i r where "l = Inr (s, i, t', Some r)" and "s \<noteq> 0" and "s \<noteq> 1" and "s \<noteq> 2" and "list_all isspace r"
      and "i < length t'" and "t' ! i = 0" and "n = int i"
proof (cases l)
  case (Inl x)
  with assms show thesis by (simp add: b64_finish_def)
next
  case (Inr p)
  obtain st i u q where p: "p = (st, i, u, q)" by (cases p)
  show thesis
  proof (cases q)
    case None
    with assms Inr p done0 show thesis by (auto simp: b64_finish_def split: if_splits)
  next
    case (Some r)
    with assms Inr p pad2 pad3 show thesis
      by (auto simp: b64_finish_def b64_tail3_def andthen_Inr_iff split: if_splits list.splits)
  qed
qed

text \<open>A successful decoding takes a full group, or ends with a group of two or three characters.\<close>

lemma b64_Nil:
  assumes "b64_finish (b64_loop src state i t) = Inr (n, t')" and "0 \<le> n" and "state \<noteq> 0"
  obtains c cs where "src = c # cs"
  using assms by (cases src) (auto simp: b64_finish_def)

lemma b64_nextE:
  assumes "b64_finish (b64_loop (c # src) state i t) = Inr (n, t')" and "0 \<le> n" and "\<not> isspace c"
  obtains (pad) "c = Pad64" and "b64_finish (Inr (state, i, t, Some src)) = Inr (n, t')"
  | (char) v state' i' u where "c = b64_char v" and "unat v < 64"
      and "b64_step v state i t = Some (state', i', u)"
      and "b64_finish (b64_loop src state' i' u) = Inr (n, t')"
proof (cases "b64_loop (c # src) state i t")
  case (Inl x)
  with assms show thesis by (simp add: b64_finish_def)
next
  case (Inr r)
  with assms(3) show thesis
    by (cases rule: b64_next) (use assms(1) Inr pad char in auto)
qed

lemma b64_groupE:
  assumes fin: "b64_finish (b64_loop (c # src) 0 i t) = Inr (n, t')" and n: "0 \<le> n"
    and plain: "list_all (\<lambda>c. \<not> isspace c) (c # src)"
  obtains (two) v0 v1 where "c # src = [b64_char v0, b64_char v1, Pad64, Pad64]"
      "unat v0 < 64" "unat v1 < 64" "byte1 v1 0 = 0" "i + 1 < length t" "n = int (i + 1)"
      "t' = t[i := byte0 v0 v1, i + 1 := byte1 v1 0]"
  | (three) v0 v1 v2 where "c # src = [b64_char v0, b64_char v1, b64_char v2, Pad64]"
      "unat v0 < 64" "unat v1 < 64" "unat v2 < 64" "byte2 v2 0 = 0" "i + 2 < length t" "n = int (i + 2)"
      "t' = t[i := byte0 v0 v1, i + 1 := byte1 v1 v2, i + 2 := byte2 v2 0]"
  | (full) v0 v1 v2 v3 r where "c # src = b64_char v0 # b64_char v1 # b64_char v2 # b64_char v3 # r"
      "unat v0 < 64" "unat v1 < 64" "unat v2 < 64" "unat v3 < 64" "i + 2 < length t"
      "b64_finish (b64_loop r 0 (i + 3) (t[i := byte0 v0 v1, i + 1 := byte1 v1 v2, i + 2 := byte2 v2 v3]))
        = Inr (n, t')"
proof -
  have no_pad: "\<not> b64_finish (Inr (st, j, u, Some q)) = Inr (n, t')" if "st \<le> 1" for st j u q
    using n that by (auto simp: b64_finish_def le_Suc_eq)
  from fin n plain obtain v0 s1 i1 t1 where c0: "c = b64_char v0" "unat v0 < 64"
    and s1: "b64_step v0 0 i t = Some (s1, i1, t1)" and f1: "b64_finish (b64_loop src s1 i1 t1) = Inr (n, t')"
    by (auto elim!: b64_nextE simp: no_pad)
  from s1 have [simp]: "s1 = 1" "i1 = i" "t1 = t[i := push_bit 2 v0]" "i < length t"
    by (auto simp: b64_step_def split: if_splits)
  from f1 n obtain c1 src1 where src: "src = c1 # src1" by (rule b64_Nil) simp
  with f1 n plain obtain v1 s2 i2 t2 where c1: "c1 = b64_char v1" "unat v1 < 64"
    and s2: "b64_step v1 s1 i1 t1 = Some (s2, i2, t2)" and f2: "b64_finish (b64_loop src1 s2 i2 t2) = Inr (n, t')"
    by (auto elim!: b64_nextE simp: no_pad)
  from s2 have [simp]: "s2 = 2" "i2 = i + 1" "i + 1 < length t"
    and t2: "t2 = t[i := byte0 v0 v1, i + 1 := byte1 v1 0]"
    by (auto simp: b64_step_def byte_defs split: if_splits)
  from f2 n obtain c2 src2 where src1: "src1 = c2 # src2" by (rule b64_Nil) simp
  from plain have "\<not> isspace c2" by (simp add: src src1)
  with f2 n show thesis unfolding src1
  proof (cases rule: b64_nextE)
    case pad
    from pad(2) n show thesis
    proof (cases rule: b64_finish_nonneg)
      case (pad2 j r r')
      with plain have "src2 = [Pad64]" unfolding src src1 by (cases src2) (auto simp: list_all_iff)
      with pad pad2 t2 c0 c1 show thesis
        by (intro two [of v0 v1]) (auto simp: src src1)
    qed (use pad in auto)
  next
    case (char v2 s3 i3 t3)
    then have [simp]: "s3 = 3" "i3 = i + 2" and i2: "i + 2 < length t"
      and t3: "t3 = t[i := byte0 v0 v1, i + 1 := byte1 v1 v2, i + 2 := byte2 v2 0]"
      by (auto simp: b64_step_def byte_defs t2 split: if_splits)
    from char(4) n obtain c3 src3 where src2: "src2 = c3 # src3" by (rule b64_Nil) simp
    from plain have "\<not> isspace c3" by (simp add: src src1 src2)
    with char(4) n show thesis unfolding src2
    proof (cases rule: b64_nextE)
      case pad
      from pad(2) n show thesis
      proof (cases rule: b64_finish_nonneg)
        case (pad3 s j r)
        with plain have "src3 = []" unfolding src src1 src2 by (cases src3) (auto simp: list_all_iff)
        with pad pad3 t3 c0 c1 char(1,2) i2 show thesis
          by (intro three [of v0 v1 v2]) (auto simp: src src1 src2)
      qed (use pad in auto)
    next
      case last: (char v3 s4 i4 t4)
      then have "s4 = 0" "i4 = i + 3"
        and "t4 = t[i := byte0 v0 v1, i + 1 := byte1 v1 v2, i + 2 := byte2 v2 v3]"
        by (auto simp: b64_step_def byte_defs t3 i2 split: if_splits)
      with last c0 c1 char(1,2) i2 show thesis
        by (intro full [of v0 v1 v2 v3 src3]) (auto simp: src src1 src2)
    qed
  qed
qed

lemma b64_canonical_from:
  assumes "b64_finish (b64_loop src 0 i t) = Inr (n, t')" and "0 \<le> n"
    and "list_all (\<lambda>c. \<not> isspace c) src" and "i \<le> length t"
  shows "\<exists>bs. src = b64_encode bs \<and> n = int (i + length bs) \<and> i + length bs \<le> length t \<and>
    take (length bs) (drop i t') = bs \<and> take i t' = take i t \<and> length t' = length t"
  using assms
proof (induction "length src" arbitrary: src i t rule: less_induct)
  case less
  show ?case
  proof (cases src)
    case Nil
    with less.prems show ?thesis by (intro exI [of _ "[]"]) (auto simp: b64_finish_def)
  next
    case (Cons c cs)
    from less.prems(1,2,3) [unfolded Cons] show ?thesis
    proof (cases rule: b64_groupE)
      case (two v0 v1)
      then show ?thesis
        by (intro exI [of _ "[byte0 v0 v1]"]) (simp add: Cons groups_of_bytes(1) [of v0 v1 0 0] last_group window)
    next
      case (three v0 v1 v2)
      then show ?thesis
        by (intro exI [of _ "[byte0 v0 v1, byte1 v1 v2]"])
          (simp add: Cons groups_of_bytes(1,2) [of v0 v1 v2 0] last_group window)
    next
      case (full v0 v1 v2 v3 r)
      let ?g = "[byte0 v0 v1, byte1 v1 v2, byte2 v2 v3]"
      let ?t = "t[i := byte0 v0 v1, i + 1 := byte1 v1 v2, i + 2 := byte2 v2 v3]"
      from full Cons less.prems have "length r < length src" "list_all (\<lambda>c. \<not> isspace c) r" "i + 3 \<le> length ?t"
        by auto
      from less.hyps [OF this(1) full(7) less.prems(2) this(2,3)] obtain bs where
        bs: "r = b64_encode bs" "n = int (i + 3 + length bs)" "i + 3 + length bs \<le> length ?t"
        "take (length bs) (drop (i + 3) t') = bs" "take (i + 3) t' = take (i + 3) ?t" "length t' = length ?t"
        by blast
      have "take i t' = take i t" using arg_cong [OF bs(5), of "take i"] by simp
      moreover have "t' ! j = ?t ! j" if "j < i + 3" for j
        using arg_cong [OF bs(5), of "\<lambda>x. x ! j"] that by simp
      then have "take 3 (drop i t') = ?g" using full bs by (intro window) simp_all
      moreover have "take (3 + length bs) (drop i t') = take 3 (drop i t') @ take (length bs) (drop (i + 3) t')"
        using take_add [of 3 "length bs" "drop i t'"] by (simp add: add.commute)
      ultimately show ?thesis using bs full
        by (intro exI [of _ "?g @ bs"]) (simp add: Cons groups_of_bytes [of v0 v1 v2 v3] numeral_3_eq_3)
    qed
  qed
qed

section \<open>Bounds\<close>

definition b64_room :: "nat \<Rightarrow> nat \<Rightarrow> bytes \<Rightarrow> bool" where
  "b64_room state i t \<longleftrightarrow> i \<le> length t \<and> (state \<noteq> 0 \<longrightarrow> i < length t)"

lemma b64_step_room:
  "b64_step v state i t = Some (state', i', t') \<Longrightarrow> b64_room state' i' t' \<and> length t' = length t"
  by (auto simp: b64_step_def b64_room_def split: if_splits)

lemma b64_loop_room:
  assumes "b64_room state i t"
  obtains (fail) t' where "b64_loop src state i t = Inl t'" and "length t' = length t"
  | (leave) state' i' t' q where "b64_loop src state i t = Inr (state', i', t', q)"
      and "b64_room state' i' t'" and "length t' = length t"
  using assms
proof (induction src arbitrary: state i t thesis)
  case (Cons c src)
  show ?case
  proof (cases "isspace c \<or> c = Pad64 \<or> b64_pos c = None")
    case False
    then obtain n where n: "b64_pos c = Some n" by auto
    show ?thesis
    proof (cases "b64_step (word_of_nat n) state i t")
      case None
      with False n Cons.prems(1) show ?thesis by (simp add: b64_loop.simps)
    next
      case (Some r)
      then obtain state1 i1 t1 where r: "b64_step (word_of_nat n) state i t = Some (state1, i1, t1)"
        by (cases r) auto
      then have loop: "b64_loop (c # src) state i t = b64_loop src state1 i1 t1"
        using False n by (simp add: b64_loop.simps)
      from b64_step_room [OF r] have "b64_room state1 i1 t1" "length t1 = length t" by auto
      with loop Cons.prems(1,2) show ?thesis by (metis Cons.IH)
    qed
  next
    case True
    then consider "isspace c" | "\<not> isspace c" "c = Pad64" | "\<not> isspace c" "c \<noteq> Pad64" "b64_pos c = None" by argo
    then show ?thesis
    proof cases
      case 1
      then have "b64_loop (c # src) state i t = b64_loop src state i t" by (simp add: b64_loop.simps)
      with Cons.prems show ?thesis by (metis Cons.IH)
    qed (use Cons.prems in \<open>simp_all add: b64_loop.simps\<close>)
  qed
qed auto

lemma b64_tail3_range:
  "i < length t \<Longrightarrow> \<exists>n. b64_tail3 src i t = Inr n \<and> -1 \<le> n \<and> n \<le> int (length t)"
  by (auto simp: b64_tail3_def)

lemma b64_finish_range:
  assumes "b64_room state i t"
  shows "\<exists>n. b64_finish (Inr (state, i, t, q)) = Inr (n, t) \<and> -1 \<le> n \<and> n \<le> int (length t)"
proof (cases q)
  case None
  with assms show ?thesis by (auto simp: b64_finish_def b64_room_def)
next
  case (Some r)
  show ?thesis
  proof (cases "state = 0 \<or> state = 1")
    case True
    with Some show ?thesis by (auto simp: b64_finish_def)
  next
    case False
    with assms have "i < length t" by (simp add: b64_room_def)
    note tail = b64_tail3_range [OF this]
    show ?thesis
    proof (cases "state = 2 \<and> (\<nexists>r'. dropWhile isspace r = Pad64 # r')")
      case True
      with Some show ?thesis by (auto simp: b64_finish_def split: list.split)
    next
      case no_error: False
      then obtain r' where "b64_finish (Inr (state, i, t, q)) = andthen (b64_tail3 r' i t) (\<lambda>n. Inr (n, t))"
        using Some False by (cases "state = 2") (auto simp: b64_finish_def)
      with tail [of r'] show ?thesis by auto
    qed
  qed
qed

section \<open>Properties\<close>

text \<open>C24: decoding inverts encoding. Whatever white space is mixed in, the base64 text of a byte
  string shorter than the target buffer decodes to exactly that byte string.\<close>

theorem b64_roundtrip:
  assumes "squeeze src = b64_encode bs" and "length bs < length t"
  shows "\<exists>t'. b64_pton src t = Inr (int (length bs), t') \<and> take (length bs) t' = bs \<and> length t' = length t"
  using b64_decode_encode [of 0 bs t] assms b64_pton_squeeze [of src t] by (auto simp: b64_pton_def)

theorem b64_roundtrip_witness:
  "\<exists>t'. b64_pton '' aG k='' (replicate 4 0) = Inr (2, t') \<and> take 2 t' = [104, 105] \<and> length t' = 4"
  using b64_roundtrip [of "'' aG k=''" "[104, 105]" "replicate 4 0"]
  by (simp add: isspace_def Pad64_def b64_char_def Base64_def group_defs flip: numeral_2_eq_2)

text \<open>C25: the decoder accepts canonical encodings only. When it reports a length, the text without
  its white space is the encoding of the bytes written, and they fit in the buffer.\<close>

theorem b64_canonical:
  assumes "b64_pton src t = Inr (n, t')" and "0 \<le> n"
  shows "squeeze src = b64_encode (take (nat n) t') \<and> nat n \<le> length t' \<and> length t' = length t"
  using b64_canonical_from [of "squeeze src" 0 t n t'] assms b64_pton_squeeze [of src t]
  by (auto simp: b64_pton_def list_all_iff)

lemma b64_pton_sample: "b64_pton '' aG k='' [7, 7, 7] = Inr (2, [104, 105, 0])"
  by (simp add: b64_pton_def isspace_def Pad64_def b64_pos_def Base64_def b64_step_def b64_loop.simps
      b64_finish_def b64_tail3_def)

theorem b64_canonical_witness:
  "squeeze '' aG k='' = b64_encode (take (nat 2) [104, 105, 0]) \<and> nat 2 \<le> length [104, 105, 0 :: u8] \<and>
   length [104, 105, 0 :: u8] = length [7, 7, 7 :: u8]"
  by (rule b64_canonical [OF b64_pton_sample]) simp

lemma b64_pton_total:
  "\<exists>n t'. b64_pton src t = Inr (n, t') \<and> -1 \<le> n \<and> n \<le> int (length t) \<and> length t' = length t"
proof -
  have "b64_room 0 0 t" by (simp add: b64_room_def)
  then show ?thesis
  proof (cases rule: b64_loop_room [where src = src])
    case fail
    then show ?thesis by (simp add: b64_pton_def b64_finish_def)
  next
    case leave
    with b64_finish_range [OF leave(2)] show ?thesis unfolding b64_pton_def by metis
  qed
qed


end
