(* ===== verification/Fdevent.thy ===== *)
theory Fdevent
  imports Ring Io "HOL-Library.Sublist"
begin

text \<open>
  The event loop of \<open>fdevent.c\<close>: descriptors registered in \<open>fd_table\<close>, their interest in the
  epoll set, and the list of pending events. Every function of the file is translated; the state
  word and the event word of an \<open>fdevent\<close> stay 16 bits wide. The epoll set is the kernel's, with
  the documented failures of \<open>epoll_ctl\<close>; allocation is taken to succeed. Pointers are
  eight bytes and \<open>int\<close> is four (LP64), which matters for one \<open>memset\<close>.
\<close>

unbundle bit_operations_syntax

section \<open>State\<close>

definition FDE_READ :: u16 where "FDE_READ = 0x0001"
definition FDE_WRITE :: u16 where "FDE_WRITE = 0x0002"
definition FDE_ERROR :: u16 where "FDE_ERROR = 0x0004"
definition FDE_TIMEOUT :: u16 where "FDE_TIMEOUT = 0x0008"
definition FDE_DONT_CLOSE :: u16 where "FDE_DONT_CLOSE = 0x0080"
definition FDE_EVENTMASK :: u16 where "FDE_EVENTMASK = 0x00ff"
definition FDE_STATEMASK :: u16 where "FDE_STATEMASK = 0xff00"
definition FDE_ACTIVE :: u16 where "FDE_ACTIVE = 0x0100"
definition FDE_PENDING :: u16 where "FDE_PENDING = 0x0200"
definition FDE_CREATED :: u16 where "FDE_CREATED = 0x0400"

definition EPOLLIN :: u32 where "EPOLLIN = 0x001"
definition EPOLLOUT :: u32 where "EPOLLOUT = 0x004"
definition EPOLLERR :: u32 where "EPOLLERR = 0x008"
definition EPOLLHUP :: u32 where "EPOLLHUP = 0x010"

lemmas fde_consts = FDE_READ_def FDE_WRITE_def FDE_ERROR_def FDE_TIMEOUT_def FDE_DONT_CLOSE_def
  FDE_EVENTMASK_def FDE_STATEMASK_def FDE_ACTIVE_def FDE_PENDING_def FDE_CREATED_def
lemmas epoll_consts = EPOLLIN_def EPOLLOUT_def EPOLLERR_def EPOLLHUP_def

text \<open>The handlers are named: the loop only passes them on.\<close>

datatype fd_func = NoFunc | SubprocFunc | Handler nat

record fdevent =
  fde_fd :: int
  force_eof :: bool
  fde_state :: u16
  fde_events :: u16
  fde_func :: fd_func
  fde_arg :: addr

text \<open>\<open>memset(fde,0,sizeof(fdevent))\<close>; the two link fields are in the store of links.\<close>

definition zero_fde :: fdevent where
  "zero_fde = \<lparr>fde_fd = 0, force_eof = False, fde_state = 0, fde_events = 0, fde_func = NoFunc, fde_arg = 0\<rparr>"

text \<open>An entry of \<open>fd_table\<close>: null, an fdevent, or memory that was never written.\<close>

datatype slot = Null | Fde addr | Garbage

record evloop =
  fdes :: "addr \<Rightarrow> fdevent"
  plinks :: links
  fd_table :: "slot list" \<comment> \<open>its length is \<open>fd_table_max\<close>\<close>
  epoll_ok :: bool \<comment> \<open>whether \<open>epoll_create\<close> succeeds\<close>
  epoll_up :: bool
  interest :: "int \<Rightarrow> (u32 \<times> addr) option"
  pollable :: "int \<Rightarrow> bool" \<comment> \<open>descriptors the kernel accepts in an epoll set\<close>
  closed :: "int list"

definition list_pending :: addr where "list_pending = 1"

abbreviation upd_fde :: "addr \<Rightarrow> (fdevent \<Rightarrow> fdevent) \<Rightarrow> evloop \<Rightarrow> evloop" where
  "upd_fde a f st \<equiv> st\<lparr>fdes := (fdes st)(a := f (fdes st a))\<rparr>"

abbreviation has :: "u16 \<Rightarrow> u16 \<Rightarrow> bool" where
  "has w m \<equiv> w AND m \<noteq> 0"

definition fdevent_start :: evloop where
  "fdevent_start = \<lparr>fdes = (\<lambda>_. zero_fde), plinks = list_init list_pending \<lparr>nxt = (\<lambda>_. 0), prv = (\<lambda>_. 0)\<rparr>,
     fd_table = [], epoll_ok = True, epoll_up = False, interest = (\<lambda>_. None), pollable = (\<lambda>_. True), closed = []\<rparr>"

section \<open>epoll\<close>

datatype ctl = EPOLL_CTL_ADD | EPOLL_CTL_MOD | EPOLL_CTL_DEL

text \<open>The kernel's side: adding a member, or changing an absent one, fails.\<close>

definition epoll_ctl :: "ctl \<Rightarrow> int \<Rightarrow> u32 \<times> addr \<Rightarrow> evloop \<Rightarrow> int \<times> evloop" where
  "epoll_ctl x fd ev st = (case x of
       EPOLL_CTL_ADD \<Rightarrow>
         (if interest st fd \<noteq> None \<or> \<not> pollable st fd then (-1, st)
          else (0, st\<lparr>interest := (interest st)(fd := Some ev)\<rparr>))
     | EPOLL_CTL_MOD \<Rightarrow>
         (if interest st fd = None then (-1, st) else (0, st\<lparr>interest := (interest st)(fd := Some ev)\<rparr>))
     | EPOLL_CTL_DEL \<Rightarrow>
         (if interest st fd = None then (-1, st) else (0, st\<lparr>interest := (interest st)(fd := None)\<rparr>)))"

text \<open>Closing a descriptor takes it out of the epoll set.\<close>

definition adb_close :: "int \<Rightarrow> evloop \<Rightarrow> evloop" where
  "adb_close fd st = st\<lparr>interest := (interest st)(fd := None), closed := closed st @ [fd]\<rparr>"

definition fdevent_init :: "evloop \<Rightarrow> evloop outcome" where
  "fdevent_init st = (if epoll_ok st then Inr (st\<lparr>epoll_up := True\<rparr>) else Inl (Exit 1))"

definition fdevent_connect :: "addr \<Rightarrow> evloop \<Rightarrow> evloop" where
  "fdevent_connect fde st = st"

definition fdevent_disconnect :: "addr \<Rightarrow> evloop \<Rightarrow> evloop" where
  "fdevent_disconnect fde st = snd (epoll_ctl EPOLL_CTL_DEL (fde_fd (fdes st fde)) (0, fde) st)"

definition epoll_mask :: "u16 \<Rightarrow> u32" where
  "epoll_mask events =
    (if has events FDE_READ then EPOLLIN else 0) OR
    (if has events FDE_WRITE then EPOLLOUT else 0) OR
    (if has events FDE_ERROR then EPOLLERR OR EPOLLHUP else 0)"

definition fdevent_update :: "addr \<Rightarrow> u16 \<Rightarrow> evloop \<Rightarrow> evloop outcome" where
  "fdevent_update fde events st0 =
    (let active = has (fde_state (fdes st0 fde)) FDE_EVENTMASK;
         ev = epoll_mask events;
         st = upd_fde fde (\<lambda>f. f\<lparr>fde_state := (fde_state f AND FDE_STATEMASK) OR events\<rparr>) st0;
         ctl = (\<lambda>x. let (r, st') = epoll_ctl x (fde_fd (fdes st fde)) (ev, fde) st
                    in if r \<noteq> 0 then Inl (Exit 1) else Inr st')
     in if ev \<noteq> 0 then ctl (if active then EPOLL_CTL_MOD else EPOLL_CTL_ADD)
        else if active then ctl EPOLL_CTL_DEL
        else Inr st)"

datatype wait_ans = WaitErr errno | WaitEvents "(u32 \<times> addr) list"

text \<open>The body of the loop over the events the kernel reported.\<close>

definition fdevent_report :: "u32 \<times> addr \<Rightarrow> evloop \<Rightarrow> evloop" where
  "fdevent_report ev st0 =
    (let fde = snd ev;
         got = (if fst ev AND EPOLLIN \<noteq> 0 then FDE_READ else 0) OR
               (if fst ev AND EPOLLOUT \<noteq> 0 then FDE_WRITE else 0) OR
               (if fst ev AND (EPOLLERR OR EPOLLHUP) \<noteq> 0 then FDE_ERROR else 0);
         st1 = upd_fde fde (\<lambda>f. f\<lparr>fde_events := fde_events f OR got\<rparr>) st0
     in if fde_events (fdes st1 fde) = 0 then st1
        else if has (fde_state (fdes st1 fde)) FDE_PENDING then st1
        else
          let st2 = upd_fde fde (\<lambda>f. f\<lparr>fde_state := fde_state f OR FDE_PENDING\<rparr>) st1
          in st2\<lparr>plinks := fdevent_plist_enqueue list_pending fde (plinks st2)\<rparr>)"

definition fdevent_process :: "wait_ans \<Rightarrow> evloop \<Rightarrow> evloop outcome" where
  "fdevent_process ans st = (case ans of
       WaitErr e \<Rightarrow> if e = EINTR then Inr st else Inl (Exit 1)
     | WaitEvents evs \<Rightarrow> Inr (fold fdevent_report evs st))"

section \<open>The table of descriptors\<close>

function grow_table :: "nat \<Rightarrow> nat \<Rightarrow> nat" where
  "grow_table fd fdmax = (if fdmax = 0 \<or> fd < fdmax then fdmax else grow_table fd (2 * fdmax))"
  by pat_completeness auto
termination
  by (relation "measure (\<lambda>(fd, fdmax). Suc fd - fdmax)") auto

declare grow_table.simps [simp del]

definition sizeof_ptr :: nat where "sizeof_ptr = 8"
definition sizeof_int :: nat where "sizeof_int = 4"

text \<open>\<open>realloc\<close> leaves the new part unwritten, and the \<open>memset\<close> after it counts in \<open>int\<close>s.\<close>

definition expand_table :: "nat \<Rightarrow> slot list \<Rightarrow> slot list" where
  "expand_table fdmax table =
    (let new = fdmax - length table;
         zeroed = sizeof_int * new div sizeof_ptr
     in table @ replicate zeroed Null @ replicate (new - zeroed) Garbage)"

definition fdevent_register :: "addr \<Rightarrow> evloop \<Rightarrow> evloop outcome" where
  "fdevent_register fde st0 =
    (let fd = fde_fd (fdes st0 fde) in
     if fd < 0 then FATAL
     else
       andthen
         (if int (length (fd_table st0)) \<le> fd then
            if fd > 32000 then FATAL
            else
              andthen (if fd_table st0 = [] then fdevent_init st0 else Inr st0) (\<lambda>st.
                let fdmax0 = (if fd_table st = [] then 256 else length (fd_table st));
                    fdmax = grow_table (nat fd) fdmax0
                in Inr (st\<lparr>fd_table := expand_table fdmax (fd_table st)\<rparr>))
          else Inr st0)
         (\<lambda>st. Inr (st\<lparr>fd_table := (fd_table st)[nat fd := Fde fde]\<rparr>)))"

definition fdevent_unregister :: "addr \<Rightarrow> evloop \<Rightarrow> evloop outcome" where
  "fdevent_unregister fde st0 =
    (let fd = fde_fd (fdes st0 fde) in
     if fd < 0 \<or> int (length (fd_table st0)) \<le> fd then FATAL
     else if fd_table st0 ! nat fd \<noteq> Fde fde then FATAL
     else
       let st = st0\<lparr>fd_table := (fd_table st0)[nat fd := Null]\<rparr>
       in Inr (if has (fde_state (fdes st fde)) FDE_DONT_CLOSE then st else adb_close fd st))"

section \<open>Installing, removing, choosing events\<close>

definition fdevent_install :: "addr \<Rightarrow> int \<Rightarrow> fd_func \<Rightarrow> addr \<Rightarrow> evloop \<Rightarrow> evloop outcome" where
  "fdevent_install fde fd func arg st0 =
    (let st1 = st0\<lparr>fdes := (fdes st0)(fde := zero_fde\<lparr>fde_state := FDE_ACTIVE, fde_fd := fd,
                     force_eof := False, fde_func := func, fde_arg := arg\<rparr>),
                   plinks := set_prev fde 0 (set_next fde 0 (plinks st0))\<rparr>
     in andthen (fdevent_register fde st1) (\<lambda>st2.
          let st3 = fdevent_connect fde st2
          in Inr (upd_fde fde (\<lambda>f. f\<lparr>fde_state := fde_state f OR FDE_ACTIVE\<rparr>) st3)))"

definition fdevent_remove :: "addr \<Rightarrow> evloop \<Rightarrow> evloop outcome" where
  "fdevent_remove fde st0 =
    (let st1 = (if has (fde_state (fdes st0 fde)) FDE_PENDING
                then st0\<lparr>plinks := fdevent_plist_remove fde (plinks st0)\<rparr> else st0)
     in andthen
          (if has (fde_state (fdes st1 fde)) FDE_ACTIVE
           then fdevent_unregister fde (fdevent_disconnect fde st1) else Inr st1)
          (\<lambda>st. Inr (upd_fde fde (\<lambda>f. f\<lparr>fde_state := 0, fde_events := 0\<rparr>) st)))"

definition fdevent_set :: "addr \<Rightarrow> u16 \<Rightarrow> evloop \<Rightarrow> evloop outcome" where
  "fdevent_set fde events0 st0 =
    (let events = events0 AND FDE_EVENTMASK in
     if fde_state (fdes st0 fde) AND FDE_EVENTMASK = events then Inr st0
     else
       andthen
         (if has (fde_state (fdes st0 fde)) FDE_ACTIVE then fdevent_update fde events st0 else Inr st0)
         (\<lambda>st1.
           let st2 = upd_fde fde (\<lambda>f. f\<lparr>fde_state := (fde_state f AND FDE_STATEMASK) OR events\<rparr>) st1 in
           if has (fde_state (fdes st2 fde)) FDE_PENDING then
             let st3 = upd_fde fde (\<lambda>f. f\<lparr>fde_events := fde_events f AND NOT events\<rparr>) st2 in
             if fde_events (fdes st3 fde) = 0 then
               Inr (upd_fde fde (\<lambda>f. f\<lparr>fde_state := fde_state f AND NOT FDE_PENDING\<rparr>)
                 (st3\<lparr>plinks := fdevent_plist_remove fde (plinks st3)\<rparr>))
             else Inr st3
           else Inr st2))"

definition fdevent_add :: "addr \<Rightarrow> u16 \<Rightarrow> evloop \<Rightarrow> evloop outcome" where
  "fdevent_add fde events st =
    fdevent_set fde ((fde_state (fdes st fde) AND FDE_EVENTMASK) OR (events AND FDE_EVENTMASK)) st"

definition fdevent_del :: "addr \<Rightarrow> u16 \<Rightarrow> evloop \<Rightarrow> evloop outcome" where
  "fdevent_del fde events st =
    fdevent_set fde ((fde_state (fdes st fde) AND FDE_EVENTMASK) AND NOT (events AND FDE_EVENTMASK)) st"

text \<open>\<open>fdevent_create\<close>: \<open>fde\<close> is the address \<open>malloc\<close> returns.\<close>

definition fdevent_create :: "addr \<Rightarrow> int \<Rightarrow> fd_func \<Rightarrow> addr \<Rightarrow> evloop \<Rightarrow> (addr \<times> evloop) outcome" where
  "fdevent_create fde fd func arg st =
    andthen (fdevent_install fde fd func arg st) (\<lambda>st1.
      Inr (fde, upd_fde fde (\<lambda>f. f\<lparr>fde_state := fde_state f OR FDE_CREATED\<rparr>) st1))"

definition fdevent_destroy :: "addr \<Rightarrow> evloop \<Rightarrow> evloop outcome" where
  "fdevent_destroy fde st =
    (if fde = 0 then Inr st
     else if \<not> has (fde_state (fdes st fde)) FDE_CREATED then FATAL
     else fdevent_remove fde st)"

section \<open>Dispatch\<close>

text \<open>\<open>fdevent_call_fdfunc\<close> up to the call of the handler: the call it makes, if any.\<close>

type_synonym fdcall = "fd_func \<times> int \<times> u16 \<times> addr"

definition fdevent_call_fdfunc :: "addr \<Rightarrow> evloop \<Rightarrow> fdcall option \<times> evloop" where
  "fdevent_call_fdfunc fde st0 =
    (let events = fde_events (fdes st0 fde);
         st1 = upd_fde fde (\<lambda>f. f\<lparr>fde_events := 0\<rparr>) st0
     in if \<not> has (fde_state (fdes st1 fde)) FDE_PENDING then (None, st1)
        else
          let st2 = upd_fde fde (\<lambda>f. f\<lparr>fde_state := fde_state f AND NOT FDE_PENDING\<rparr>) st1;
              f = fdes st2 fde
          in (Some (fde_func f, fde_fd f, events, fde_arg f), st2))"

text \<open>
  The inner loop of \<open>fdevent_loop\<close>. The handlers are a parameter: \<open>run call st\<close> is what the
  handler called does to the event loop. The calls made are returned in their order; \<open>None\<close>
  is that the fuel has run out.
\<close>

fun fdevent_drain :: "(fdcall \<Rightarrow> evloop \<Rightarrow> evloop outcome) \<Rightarrow> nat \<Rightarrow> evloop
    \<Rightarrow> (fdcall list \<times> evloop) outcome option" where
  "fdevent_drain run fuel st0 = (case fdevent_plist_dequeue list_pending (plinks st0) of
       (None, l) \<Rightarrow> Some (Inr ([], st0\<lparr>plinks := l\<rparr>))
     | (Some fde, l) \<Rightarrow>
         (case fuel of 0 \<Rightarrow> None
          | Suc fuel' \<Rightarrow>
              (case fdevent_call_fdfunc fde (st0\<lparr>plinks := l\<rparr>) of
                 (None, st1) \<Rightarrow> fdevent_drain run fuel' st1
               | (Some call, st1) \<Rightarrow>
                   (case run call st1 of
                      Inl e \<Rightarrow> Some (Inl e)
                    | Inr st2 \<Rightarrow> map_option (\<lambda>r. andthen r (\<lambda>(calls, st3). Inr (call # calls, st3)))
                        (fdevent_drain run fuel' st2)))))"

text \<open>The outer loop, one answer of \<open>epoll_wait\<close> at a time; with none left it blocks.\<close>

fun fdevent_loop_run :: "(fdcall \<Rightarrow> evloop \<Rightarrow> evloop outcome) \<Rightarrow> nat \<Rightarrow> wait_ans list \<Rightarrow> evloop
    \<Rightarrow> fdcall list \<times> evloop outcome option" where
  "fdevent_loop_run run fuel [] st = ([], Some (Inr st))"
| "fdevent_loop_run run fuel (ans # answers) st =
    (case fdevent_process ans st of
       Inl e \<Rightarrow> ([], Some (Inl e))
     | Inr st1 \<Rightarrow>
         (case fdevent_drain run fuel st1 of
            None \<Rightarrow> ([], None)
          | Some (Inl e) \<Rightarrow> ([], Some (Inl e))
          | Some (Inr (calls, st2)) \<Rightarrow>
              (let (calls', r) = fdevent_loop_run run fuel answers st2 in (calls @ calls', r))))"

text \<open>The handler of the shell-exit socket. \<open>rcount\<close> is the answer of the \<open>FIONREAD\<close> query. The
  call of \<open>fdevent_call_fdfunc\<close> at its end is left to the caller: the call to make is returned.\<close>

definition fdevent_subproc_event_func ::
  "(int \<Rightarrow> nat) \<Rightarrow> int \<Rightarrow> u16 \<Rightarrow> evloop \<Rightarrow> world \<Rightarrow> (fdcall option \<times> evloop \<times> world) outcome" where
  "fdevent_subproc_event_func rcount fd ev st0 w0 =
    (if fd < 0 \<or> int (length (fd_table st0)) \<le> fd then FATAL
     else case fd_table st0 ! nat fd of
         Null \<Rightarrow> Inl NullDeref
       | Garbage \<Rightarrow> Inl Dangling
       | Fde fde \<Rightarrow>
           andthen (fdevent_add fde FDE_READ st0) (\<lambda>st.
             if \<not> has ev FDE_READ then Inr (None, st, w0)
             else andthen (readx fd 4 w0) (\<lambda>(r, w). case r of
                 None \<Rightarrow> FATAL
               | Some bs \<Rightarrow>
                   (let subproc_fd = sint (of_le32 bs) in
                    if subproc_fd < 0 \<or> int (length (fd_table st)) \<le> subproc_fd then Inr (None, st, w)
                    else case fd_table st ! nat subproc_fd of
                        Null \<Rightarrow> Inr (None, st, w)
                      | Garbage \<Rightarrow> Inl Dangling
                      | Fde sub \<Rightarrow>
                          if fde_fd (fdes st sub) \<noteq> subproc_fd then Inr (None, st, w)
                          else
                            let st1 = upd_fde sub (\<lambda>f. f\<lparr>force_eof := True\<rparr>) st in
                            if rcount subproc_fd \<noteq> 0 then Inr (None, st1, w)
                            else
                              let st2 = upd_fde sub (\<lambda>f. f\<lparr>fde_events := fde_events f OR FDE_READ\<rparr>) st1 in
                              if has (fde_state (fdes st2 sub)) FDE_PENDING then Inr (None, st2, w)
                              else
                                let st3 = upd_fde sub (\<lambda>f. f\<lparr>fde_state := fde_state f OR FDE_PENDING\<rparr>) st2;
                                    (call, st4) = fdevent_call_fdfunc sub st3
                                in Inr (call, st4, w)))))"

text \<open>\<open>fdevent_subproc_setup\<close>, with the answer of \<open>socketpair\<close> and the address \<open>malloc\<close> returns.
  The result is \<open>SHELL_EXIT_NOTIFY_FD\<close>.\<close>

definition fdevent_subproc_setup :: "(int \<times> int) option \<Rightarrow> addr \<Rightarrow> evloop \<Rightarrow> (int \<times> evloop) outcome" where
  "fdevent_subproc_setup s a st = (case s of
       None \<Rightarrow> FATAL
     | Some (s0, s1) \<Rightarrow>
         andthen (fdevent_create a s1 SubprocFunc 0 st) (\<lambda>(fde, st1).
           andthen (fdevent_add fde FDE_READ st1) (\<lambda>st2. Inr (s0, st2))))"

declare fdevent_drain.simps [simp del]

section \<open>The state word\<close>

definition active :: "u16 \<Rightarrow> bool" where "active s \<longleftrightarrow> bit s 8"
definition pending :: "u16 \<Rightarrow> bool" where "pending s \<longleftrightarrow> bit s 9"
definition want :: "u16 \<Rightarrow> u16" where "want s = s AND FDE_EVENTMASK"

lemma bit_masks:
  "bit FDE_EVENTMASK n \<longleftrightarrow> n < 8" "bit FDE_STATEMASK n \<longleftrightarrow> 8 \<le> n \<and> n < 16"
  "bit FDE_ACTIVE n \<longleftrightarrow> n = 8" "bit FDE_PENDING n \<longleftrightarrow> n = 9" "bit FDE_CREATED n \<longleftrightarrow> n = 10"
proof -
  have e: "FDE_EVENTMASK = mask 8" "FDE_STATEMASK = push_bit 8 (mask 8)" "FDE_ACTIVE = 2 ^ 8"
    "FDE_PENDING = 2 ^ 9" "FDE_CREATED = 2 ^ 10"
    by (simp_all add: fde_consts mask_eq_exp_minus_1)
  show "bit FDE_EVENTMASK n \<longleftrightarrow> n < 8" "bit FDE_STATEMASK n \<longleftrightarrow> 8 \<le> n \<and> n < 16"
    "bit FDE_ACTIVE n \<longleftrightarrow> n = 8" "bit FDE_PENDING n \<longleftrightarrow> n = 9" "bit FDE_CREATED n \<longleftrightarrow> n = 10"
    unfolding e bit_exp_iff by (auto simp: bit_simps)
qed

lemma has_bit:
  "has s FDE_ACTIVE \<longleftrightarrow> active s" "has s FDE_PENDING \<longleftrightarrow> pending s" "has s FDE_EVENTMASK \<longleftrightarrow> want s \<noteq> 0"
  using and_exp_eq_0_iff_not_bit [of s 8] and_exp_eq_0_iff_not_bit [of s 9]
  by (simp_all add: FDE_ACTIVE_def FDE_PENDING_def active_def pending_def want_def)

lemma want_mask: "s AND FDE_EVENTMASK = want s"
  by (simp add: want_def)

lemma want_want [simp]: "want (want s) = want s"
  by (simp add: want_def and.assoc)

text \<open>The five ways the sources assign to a state word.\<close>

lemma state_words [simp]:
  "active ((s AND FDE_STATEMASK) OR want e) = active s" "pending ((s AND FDE_STATEMASK) OR want e) = pending s"
  "want ((s AND FDE_STATEMASK) OR want e) = want e"
  "active (s OR FDE_PENDING) = active s" "pending (s OR FDE_PENDING)" "want (s OR FDE_PENDING) = want s"
  "active (s AND NOT FDE_PENDING) = active s" "\<not> pending (s AND NOT FDE_PENDING)"
  "want (s AND NOT FDE_PENDING) = want s"
  "active (s OR FDE_ACTIVE)" "pending (s OR FDE_ACTIVE) = pending s" "want (s OR FDE_ACTIVE) = want s"
  "active (s OR FDE_CREATED) = active s" "pending (s OR FDE_CREATED) = pending s"
  "want (s OR FDE_CREATED) = want s"
  "active FDE_ACTIVE" "\<not> pending FDE_ACTIVE" "want FDE_ACTIVE = 0"
  "\<not> active 0" "\<not> pending 0" "want 0 = 0"
  by (auto simp: active_def pending_def want_def bit_simps bit_masks intro!: bit_word_eqI)

text \<open>The events the loop can wait for.\<close>

definition io_events :: "u16 \<Rightarrow> bool" where
  "io_events e \<longleftrightarrow> e AND NOT (FDE_READ OR FDE_WRITE OR FDE_ERROR) = 0"

lemma bit_io:
  "bit FDE_READ n \<longleftrightarrow> n = 0" "bit FDE_WRITE n \<longleftrightarrow> n = 1" "bit FDE_ERROR n \<longleftrightarrow> n = 2"
proof -
  have e: "FDE_READ = 2 ^ 0" "FDE_WRITE = 2 ^ 1" "FDE_ERROR = 2 ^ 2" by (simp_all add: fde_consts)
  show "bit FDE_READ n \<longleftrightarrow> n = 0" "bit FDE_WRITE n \<longleftrightarrow> n = 1" "bit FDE_ERROR n \<longleftrightarrow> n = 2"
    unfolding e bit_exp_iff by auto
qed

lemma has_io:
  "has e FDE_READ \<longleftrightarrow> bit e 0" "has e FDE_WRITE \<longleftrightarrow> bit e 1" "has e FDE_ERROR \<longleftrightarrow> bit e 2"
  using and_exp_eq_0_iff_not_bit [of e 0] and_exp_eq_0_iff_not_bit [of e 1] and_exp_eq_0_iff_not_bit [of e 2]
  by (simp_all add: fde_consts)

lemma io_events_iff: "io_events e \<longleftrightarrow> (\<forall>n. bit e n \<longrightarrow> n < 3)"
proof -
  have "io_events e \<longleftrightarrow> (\<forall>n. \<not> bit (e AND NOT (FDE_READ OR FDE_WRITE OR FDE_ERROR)) n)"
    unfolding io_events_def by (rule word_zero_iff)
  also have "\<dots> \<longleftrightarrow> (\<forall>n. bit e n \<longrightarrow> n < 3)"
  proof -
    have "bit (e AND NOT (FDE_READ OR FDE_WRITE OR FDE_ERROR)) n \<longleftrightarrow> bit e n \<and> \<not> n < 3" for n
      using bit_imp_le_length [of e n] by (auto simp: bit_simps bit_io numeral_3_eq_3 less_Suc_eq numeral_2_eq_2)
    then show ?thesis by blast
  qed
  finally show ?thesis .
qed

lemma io_events_want: "io_events e \<Longrightarrow> want e = e"
  by (rule bit_word_eqI) (auto simp: io_events_iff want_def bit_simps bit_masks dest!: spec)

lemma io_events_simps [simp]:
  "io_events 0" "io_events FDE_READ" "io_events FDE_WRITE" "io_events FDE_ERROR"
  "io_events a \<Longrightarrow> io_events b \<Longrightarrow> io_events (a OR b)" "io_events a \<Longrightarrow> io_events (a AND b)"
  by (auto simp: io_events_iff bit_simps bit_io)

lemma epoll_mask_0: "io_events e \<Longrightarrow> epoll_mask e = 0 \<longleftrightarrow> e = 0"
proof -
  assume e: "io_events e"
  have "e = 0 \<longleftrightarrow> \<not> bit e 0 \<and> \<not> bit e 1 \<and> \<not> bit e 2"
  proof
    assume *: "\<not> bit e 0 \<and> \<not> bit e 1 \<and> \<not> bit e 2"
    have "\<not> bit e n" for n
      using e * by (auto simp: io_events_iff numeral_3_eq_3 less_Suc_eq numeral_2_eq_2 dest!: spec [of _ n])
    then show "e = 0" by (simp add: word_zero_iff)
  qed simp
  then show ?thesis by (auto simp: epoll_mask_def has_io epoll_consts)
qed

lemma epoll_mask_zero [simp]: "epoll_mask 0 = 0"
  by (simp add: epoll_mask_0)

section \<open>The invariant of the loop\<close>

text \<open>The words of one \<open>fdevent\<close>: it is pending exactly when it has events to deliver, only what is
  registered is pending or waits for events, and it waits for real events only.\<close>

definition fde_ok :: "addr \<Rightarrow> fdevent \<Rightarrow> bool" where
  "fde_ok a f \<longleftrightarrow> (fde_events f \<noteq> 0 \<longleftrightarrow> pending (fde_state f)) \<and>
     (pending (fde_state f) \<longrightarrow> active (fde_state f)) \<and> io_events (want (fde_state f)) \<and>
     (\<not> active (fde_state f) \<longrightarrow> want (fde_state f) = 0) \<and>
     (active (fde_state f) \<longrightarrow> a \<noteq> 0 \<and> a \<noteq> list_pending)"

text \<open>The pending list is the ring of the links, and it holds exactly the pending ones.\<close>

definition queue_ok :: "evloop \<Rightarrow> addr list \<Rightarrow> bool" where
  "queue_ok st pend \<longleftrightarrow> ring (plinks st) list_pending pend \<and>
     (\<forall>a. a \<in> set pend \<longleftrightarrow> pending (fde_state (fdes st a)))"

text \<open>The table and the active ones point to each other.\<close>

definition table_ok :: "evloop \<Rightarrow> bool" where
  "table_ok st \<longleftrightarrow>
     (\<forall>a. active (fde_state (fdes st a)) \<longrightarrow> 0 \<le> fde_fd (fdes st a) \<and>
        nat (fde_fd (fdes st a)) < length (fd_table st) \<and> fd_table st ! nat (fde_fd (fdes st a)) = Fde a) \<and>
     (\<forall>i a. i < length (fd_table st) \<longrightarrow> fd_table st ! i = Fde a \<longrightarrow>
        active (fde_state (fdes st a)) \<and> fde_fd (fdes st a) = int i)"

text \<open>The epoll set is what the state words ask for.\<close>

definition interest_ok :: "evloop \<Rightarrow> bool" where
  "interest_ok st \<longleftrightarrow> (\<forall>fd ev a. interest st fd = Some (ev, a) \<longleftrightarrow>
     active (fde_state (fdes st a)) \<and> fde_fd (fdes st a) = fd \<and> want (fde_state (fdes st a)) \<noteq> 0 \<and>
     ev = epoll_mask (want (fde_state (fdes st a))))"

definition loop_inv :: "evloop \<Rightarrow> addr list \<Rightarrow> bool" where
  "loop_inv st pend \<longleftrightarrow> (\<forall>a. fde_ok a (fdes st a)) \<and> queue_ok st pend \<and> table_ok st \<and> interest_ok st"

text \<open>What the epoll set holds for a descriptor: its own interest.\<close>

definition asked :: "addr \<Rightarrow> u16 \<Rightarrow> (u32 \<times> addr) option" where
  "asked a e = (if e = 0 then None else Some (epoll_mask e, a))"

lemma active_unique:
  "table_ok st \<Longrightarrow> active (fde_state (fdes st a)) \<Longrightarrow> active (fde_state (fdes st b)) \<Longrightarrow>
   fde_fd (fdes st a) = fde_fd (fdes st b) \<Longrightarrow> a = b"
  unfolding table_ok_def by (metis slot.inject)

lemma interest_active:
  assumes inv: "loop_inv st pend" and a: "active (fde_state (fdes st a))"
  shows "interest st (fde_fd (fdes st a)) = asked a (want (fde_state (fdes st a)))"
proof -
  have t: "table_ok st" and i: "interest_ok st" using inv by (auto simp: loop_inv_def)
  show ?thesis
  proof (cases "interest st (fde_fd (fdes st a))")
    case None
    then show ?thesis using i a unfolding interest_ok_def asked_def by (metis option.distinct(1))
  next
    case (Some e)
    obtain ev b where e: "e = (ev, b)" by (cases e)
    with Some i have b: "active (fde_state (fdes st b))" "fde_fd (fdes st b) = fde_fd (fdes st a)"
      "want (fde_state (fdes st b)) \<noteq> 0" "ev = epoll_mask (want (fde_state (fdes st b)))"
      by (auto simp: interest_ok_def)
    with active_unique [OF t b(1) a] have "b = a" by simp
    with Some e b show ?thesis by (simp add: asked_def)
  qed
qed

text \<open>The frame rule: one active \<open>fdevent\<close> changes, its descriptor stays, and the epoll set and
  the pending list follow its words.\<close>

lemma loop_inv_upd:
  assumes inv: "loop_inv st pend" and a: "active (fde_state (fdes st a))"
    and f: "fde_fd f' = fde_fd (fdes st a)" "active (fde_state f')" "fde_ok a f'"
    and st': "fdes st' = (fdes st)(a := f')" "fd_table st' = fd_table st"
    and i': "interest st' = (interest st)(fde_fd f' := asked a (want (fde_state f')))"
    and r: "ring (plinks st') list_pending pend'"
    and s: "set pend' = set pend - {a} \<union> (if pending (fde_state f') then {a} else {})"
  shows "loop_inv st' pend'"
proof -
  have t: "table_ok st" and i: "interest_ok st" and q: "queue_ok st pend" and w: "\<And>b. fde_ok b (fdes st b)"
    using inv by (auto simp: loop_inv_def)
  have "\<forall>b. fde_ok b (fdes st' b)" using w f st' by simp
  moreover have "queue_ok st' pend'" using q r s st' by (auto simp: queue_ok_def)
  moreover have "table_ok st'" using t f a st' by (fastforce simp: table_ok_def)
  moreover have "interest_ok st'"
    unfolding interest_ok_def
  proof (intro allI)
    fix fd ev b
    show "interest st' fd = Some (ev, b) \<longleftrightarrow>
      active (fde_state (fdes st' b)) \<and> fde_fd (fdes st' b) = fd \<and> want (fde_state (fdes st' b)) \<noteq> 0 \<and>
      ev = epoll_mask (want (fde_state (fdes st' b)))"
    proof (cases "fd = fde_fd f'")
      case True
      then show ?thesis using i' st' f active_unique [OF t, of b a] a
        by (auto simp: asked_def split: if_splits)
    next
      case False
      then have "interest st' fd = interest st fd" using i' by simp
      then show ?thesis using i False f st' unfolding interest_ok_def by (cases "b = a") auto
    qed
  qed
  ultimately show ?thesis by (simp add: loop_inv_def)
qed

section \<open>Choosing events\<close>

text \<open>\<open>fdevent_update\<close> never meets an \<open>epoll_ctl\<close> failure when the invariant holds.\<close>

lemma fdevent_update_ok:
  assumes inv: "loop_inv st pend" and a: "active (fde_state (fdes st a))" and e: "io_events e"
    and p: "pollable st (fde_fd (fdes st a))" and new: "want (fde_state (fdes st a)) \<noteq> e"
  shows "fdevent_update a e st =
    Inr (upd_fde a (\<lambda>f. f\<lparr>fde_state := (fde_state f AND FDE_STATEMASK) OR e\<rparr>) st
      \<lparr>interest := (interest st)(fde_fd (fdes st a) := asked a e)\<rparr>)"
  using interest_active [OF inv a] e p new
  by (auto simp: fdevent_update_def epoll_ctl_def has_bit asked_def epoll_mask_0 Let_def)

lemma set_state_words:
  assumes "io_events e"
  shows "active ((s AND FDE_STATEMASK) OR e) = active s"
    and "pending ((s AND FDE_STATEMASK) OR e) = pending s"
    and "want ((s AND FDE_STATEMASK) OR e) = e"
    and "((s AND FDE_STATEMASK) OR e) AND FDE_STATEMASK = s AND FDE_STATEMASK"
proof -
  have w: "want e = e" by (rule io_events_want [OF assms])
  show "active ((s AND FDE_STATEMASK) OR e) = active s" "pending ((s AND FDE_STATEMASK) OR e) = pending s"
    "want ((s AND FDE_STATEMASK) OR e) = e"
    using state_words(1,2,3) [of s e] by (simp_all add: w)
  have "\<not> bit e n" if "8 \<le> n" for n using assms that by (force simp: io_events_iff)
  then show "((s AND FDE_STATEMASK) OR e) AND FDE_STATEMASK = s AND FDE_STATEMASK"
    by (auto simp: bit_simps bit_masks intro!: bit_word_eqI)
qed

text \<open>The state after \<open>fdevent_set\<close>: the words of the \<open>fdevent\<close>, its entry in the epoll set, and
  whether it leaves the pending list.\<close>

definition cancels :: "u16 \<Rightarrow> fdevent \<Rightarrow> bool" where
  "cancels e f \<longleftrightarrow> want (fde_state f) \<noteq> e \<and> pending (fde_state f) \<and> fde_events f AND NOT e = 0"

definition set_words :: "u16 \<Rightarrow> fdevent \<Rightarrow> fdevent" where
  "set_words e f =
    (if want (fde_state f) = e then f
     else let s = (fde_state f AND FDE_STATEMASK) OR e in
       if pending (fde_state f) then
         f\<lparr>fde_state := if fde_events f AND NOT e = 0 then s AND NOT FDE_PENDING else s,
           fde_events := fde_events f AND NOT e\<rparr>
       else f\<lparr>fde_state := s\<rparr>)"

lemma fdevent_set_eq:
  assumes inv: "loop_inv st pend" and a: "active (fde_state (fdes st a))" and e: "io_events e"
    and p: "pollable st (fde_fd (fdes st a))"
  shows "fdevent_set a e st = Inr (st\<lparr>fdes := (fdes st)(a := set_words e (fdes st a)),
      plinks := (if cancels e (fdes st a) then fdevent_plist_remove a (plinks st) else plinks st),
      interest := (interest st)(fde_fd (fdes st a) := asked a e)\<rparr>)"
proof (cases "want (fde_state (fdes st a)) = e")
  case True
  then show ?thesis using interest_active [OF inv a]
    by (simp add: fdevent_set_def want_mask io_events_want [OF e] set_words_def cancels_def
        fun_upd_idem)
next
  case False
  note s = set_state_words [OF e]
  show ?thesis using False a io_events_want [OF e]
    by (simp add: fdevent_set_def want_mask fdevent_update_ok [OF inv a e p False] has_bit s set_words_def
        cancels_def Let_def) (intro impI evloop.equality; cases "fdes st a"; simp)
qed

lemma set_words_ok:
  assumes f: "fde_ok a f" "active (fde_state f)" and e: "io_events e"
  shows "fde_ok a (set_words e f)" and "active (fde_state (set_words e f))"
    and "want (fde_state (set_words e f)) = e" and "fde_fd (set_words e f) = fde_fd f"
    and "pending (fde_state (set_words e f)) \<longleftrightarrow> pending (fde_state f) \<and> \<not> cancels e f"
proof -
  note s = set_state_words [OF e]
  show "fde_ok a (set_words e f)" "active (fde_state (set_words e f))"
    "want (fde_state (set_words e f)) = e" "fde_fd (set_words e f) = fde_fd f"
    "pending (fde_state (set_words e f)) \<longleftrightarrow> pending (fde_state f) \<and> \<not> cancels e f"
    using f e by (auto simp: set_words_def fde_ok_def cancels_def s Let_def)
qed

lemma fdevent_set_inv:
  assumes inv: "loop_inv st pend" and a: "active (fde_state (fdes st a))" and e: "io_events e"
    and p: "pollable st (fde_fd (fdes st a))"
  shows "\<exists>st'. fdevent_set a e st = Inr st' \<and>
    loop_inv st' (if cancels e (fdes st a) then remove1 a pend else pend) \<and>
    want (fde_state (fdes st' a)) = e \<and> interest st' (fde_fd (fdes st a)) = asked a e"
proof -
  let ?f = "set_words e (fdes st a)"
  let ?pend = "if cancels e (fdes st a) then remove1 a pend else pend"
  have ok: "fde_ok a (fdes st a)" and q: "queue_ok st pend" using inv by (auto simp: loop_inv_def)
  note w = set_words_ok [OF ok a e]
  have r: "ring (plinks st) list_pending pend" and m: "a \<in> set pend \<longleftrightarrow> pending (fde_state (fdes st a))"
    using q by (auto simp: queue_ok_def)
  have d: "distinct pend" using r by (simp add: ring_def)
  have r': "ring (if cancels e (fdes st a) then fdevent_plist_remove a (plinks st) else plinks st) list_pending ?pend"
    using r m plist.del_remove1 by (auto simp: cancels_def)
  have s': "set ?pend = set pend - {a} \<union> (if pending (fde_state ?f) then {a} else {})"
    using m d by (auto simp: w(5) cancels_def)
  show ?thesis unfolding fdevent_set_eq [OF assms]
    by (intro exI conjI, rule refl, rule loop_inv_upd [OF inv a, of ?f])
      (use w r' s' in \<open>simp_all add: w\<close>)
qed

section \<open>Registration\<close>

lemma grow_table_bounds:
  "0 < m \<Longrightarrow> fd < grow_table fd m \<and> m \<le> grow_table fd m \<and> grow_table fd m \<le> max m (2 * fd) \<and>
    (\<exists>k. grow_table fd m = 2 ^ k * m)"
proof (induction fd m rule: grow_table.induct)
  case (1 fd m)
  show ?case
  proof (cases "fd < m")
    case True
    then show ?thesis using 1(2) by (auto simp: grow_table.simps [of fd m] intro: exI [of _ 0])
  next
    case False
    then have eq: "grow_table fd m = grow_table fd (2 * m)" using 1(2) by (subst grow_table.simps) simp
    from 1 False obtain k where k: "fd < grow_table fd (2 * m)" "2 * m \<le> grow_table fd (2 * m)"
      "grow_table fd (2 * m) \<le> max (2 * m) (2 * fd)" "grow_table fd (2 * m) = 2 ^ k * (2 * m)"
      by auto
    from k(4) have "grow_table fd m = 2 ^ Suc k * m" by (simp add: eq)
    moreover have "fd < grow_table fd m" "m \<le> grow_table fd m" "grow_table fd m \<le> max m (2 * fd)"
      using k(1-3) False by (simp_all add: eq)
    ultimately show ?thesis by blast
  qed
qed

lemma expand_table_nth:
  "length table \<le> m \<Longrightarrow> length (expand_table m table) = m"
  "i < length table \<Longrightarrow> expand_table m table ! i = table ! i"
  "length table \<le> i \<Longrightarrow> i < m \<Longrightarrow> expand_table m table ! i \<noteq> Fde a"
  by (auto simp: expand_table_def Let_def nth_append sizeof_int_def sizeof_ptr_def)

text \<open>The table after \<open>fdevent_register\<close> has made room for a descriptor.\<close>

definition roomy :: "nat \<Rightarrow> slot list \<Rightarrow> slot list" where
  "roomy fd table =
    (if length table \<le> fd
     then expand_table (grow_table fd (if table = [] then 256 else length table)) table else table)"

lemma roomy_nth:
  "fd < length (roomy fd table)" "length table \<le> length (roomy fd table)"
  "i < length table \<Longrightarrow> roomy fd table ! i = table ! i"
  "length table \<le> i \<Longrightarrow> i < length (roomy fd table) \<Longrightarrow> roomy fd table ! i \<noteq> Fde a"
proof -
  let ?m = "if table = [] then 256 else length table"
  have "0 < ?m" by simp
  from grow_table_bounds [OF this, of fd]
  have g: "fd < grow_table fd ?m" "?m \<le> grow_table fd ?m" by blast+
  from g(2) have "length table \<le> grow_table fd ?m" by (simp split: if_splits)
  with g(1) show "fd < length (roomy fd table)" "length table \<le> length (roomy fd table)"
    "i < length table \<Longrightarrow> roomy fd table ! i = table ! i"
    "length table \<le> i \<Longrightarrow> i < length (roomy fd table) \<Longrightarrow> roomy fd table ! i \<noteq> Fde a"
    by (auto simp: roomy_def expand_table_nth)
qed

lemma fdevent_register_eq:
  assumes "fde_fd (fdes st a) = int fd" and "fd \<le> 32000" and "epoll_ok st"
  shows "\<exists>up. fdevent_register a st = Inr (st\<lparr>fd_table := (roomy fd (fd_table st))[fd := Fde a], epoll_up := up\<rparr>)"
proof (cases "length (fd_table st) \<le> fd \<and> fd_table st = []")
  case True
  then show ?thesis using assms
    by (intro exI [of _ True]) (simp add: fdevent_register_def fdevent_init_def roomy_def Let_def)
next
  case False
  then show ?thesis using assms
    by (intro exI [of _ "epoll_up st"]) (auto simp: fdevent_register_def roomy_def Let_def)
qed

lemma ring_frame: "a \<notin> set (h # xs) \<Longrightarrow> ring (set_prev a v (set_next a u l)) h xs = ring l h xs"
  using chain_prv_frame [of a h xs "set_next a u l" v h] chain_nxt_frame [of a h xs l u h]
  by (simp add: ring_def set_prev_def set_next_def)

lemma table_ok_register:
  assumes t: "table_ok st" and a: "\<not> active (fde_state (fdes st a))"
    and fd: "\<And>b. active (fde_state (fdes st b)) \<Longrightarrow> fde_fd (fdes st b) \<noteq> int fd"
    and f: "fde_fd f = int fd" "active (fde_state f)"
    and st': "fdes st' = (fdes st)(a := f)" "fd_table st' = (roomy fd (fd_table st))[fd := Fde a]"
  shows "table_ok st'"
proof -
  let ?T = "roomy fd (fd_table st)"
  note room = roomy_nth [where fd = fd and table = "fd_table st"]
  have old: "0 \<le> fde_fd (fdes st b) \<and> nat (fde_fd (fdes st b)) < length (fd_table st) \<and>
      fd_table st ! nat (fde_fd (fdes st b)) = Fde b \<and> nat (fde_fd (fdes st b)) \<noteq> fd"
    if "active (fde_state (fdes st b))" for b
    using t that fd [OF that] by (auto simp: table_ok_def)
  have slot_active: "active (fde_state (fdes st b)) \<and> fde_fd (fdes st b) = int j"
    if "j < length ?T" "?T ! j = Fde b" for j b
    using that t room(3) [of j] room(4) [of j b] by (cases "j < length (fd_table st)") (auto simp: table_ok_def)
  show ?thesis unfolding table_ok_def
  proof (intro conjI allI impI)
    fix b assume "active (fde_state (fdes st' b))"
    then show "0 \<le> fde_fd (fdes st' b)" "nat (fde_fd (fdes st' b)) < length (fd_table st')"
      "fd_table st' ! nat (fde_fd (fdes st' b)) = Fde b"
      using old [of b] room(1,2) room(3) [of "nat (fde_fd (fdes st b))"] f st' by (cases "b = a", auto)+
  next
    fix j b assume "j < length (fd_table st')" "fd_table st' ! j = Fde b"
    then have "j = fd \<and> b = a \<or> j \<noteq> fd \<and> j < length ?T \<and> ?T ! j = Fde b"
      using st' room(1) by (auto simp: nth_list_update split: if_splits)
    then show "active (fde_state (fdes st' b))" "fde_fd (fdes st' b) = int j"
      using slot_active [of j b] a f st' by auto
  qed
qed

lemma fdevent_install_inv:
  assumes inv: "loop_inv st pend" and a: "\<not> active (fde_state (fdes st a))" "a \<noteq> 0" "a \<noteq> list_pending"
    and fd: "fd \<le> 32000" "\<And>b. active (fde_state (fdes st b)) \<Longrightarrow> fde_fd (fdes st b) \<noteq> int fd"
    and ep: "epoll_ok st"
  shows "\<exists>st'. fdevent_install a (int fd) func arg st = Inr st' \<and> loop_inv st' pend \<and>
    fdes st' = (fdes st)(a := \<lparr>fde_fd = int fd, force_eof = False, fde_state = FDE_ACTIVE, fde_events = 0,
      fde_func = func, fde_arg = arg\<rparr>) \<and> interest st' = interest st \<and> closed st' = closed st \<and> pollable st' = pollable st \<and>
    epoll_ok st' = epoll_ok st"
proof -
  let ?f = "\<lparr>fde_fd = int fd, force_eof = False, fde_state = FDE_ACTIVE, fde_events = 0,
      fde_func = func, fde_arg = arg\<rparr>"
  have t: "table_ok st" and i: "interest_ok st" and q: "queue_ok st pend" and w: "\<And>b. fde_ok b (fdes st b)"
    using inv by (auto simp: loop_inv_def)
  define st1 where "st1 = st\<lparr>fdes := (fdes st)(a := ?f), plinks := set_prev a 0 (set_next a 0 (plinks st))\<rparr>"
  obtain up where reg: "fdevent_register a st1 =
      Inr (st1\<lparr>fd_table := (roomy fd (fd_table st))[fd := Fde a], epoll_up := up\<rparr>)"
    using fdevent_register_eq [of st1 a fd] fd ep by (auto simp: st1_def)
  define st' where "st' = st1\<lparr>fd_table := (roomy fd (fd_table st))[fd := Fde a], epoll_up := up\<rparr>"
  have "fdevent_install a (int fd) func arg st = Inr st'"
    using reg unfolding st'_def by (simp add: fdevent_install_def zero_fde_def st1_def fdevent_connect_def fun_upd_idem)
  moreover have "\<forall>b. fde_ok b (fdes st' b)" using w a by (simp add: st'_def st1_def fde_ok_def)
  moreover have "a \<notin> set pend" using q w [of a] a by (auto simp: queue_ok_def fde_ok_def)
  then have "queue_ok st' pend" using q a by (auto simp: queue_ok_def st'_def st1_def ring_frame)
  moreover have "table_ok st'"
    by (rule table_ok_register [OF t a(1) fd(2), of ?f]) (simp_all add: st'_def st1_def)
  moreover have "interest_ok st'" using i a unfolding interest_ok_def st'_def st1_def by auto
  ultimately show ?thesis by (auto simp: loop_inv_def st'_def st1_def)
qed

section \<open>Removal\<close>

lemma no_dont_close: "io_events (want s) \<Longrightarrow> s AND FDE_DONT_CLOSE = 0"
proof -
  assume "io_events (want s)"
  then have "\<not> bit (want s) 7" by (auto simp: io_events_iff dest!: spec [of _ 7])
  then have "\<not> bit s 7" by (simp add: want_def bit_simps bit_masks)
  then show ?thesis using and_exp_eq_0_iff_not_bit [of s 7] by (simp add: FDE_DONT_CLOSE_def)
qed

lemma fdevent_remove_eq:
  assumes inv: "loop_inv st pend" and a: "active (fde_state (fdes st a))"
  shows "fdevent_remove a st = Inr (st\<lparr>fdes := (fdes st)(a := (fdes st a)\<lparr>fde_state := 0, fde_events := 0\<rparr>),
      plinks := (if a \<in> set pend then fdevent_plist_remove a (plinks st) else plinks st),
      fd_table := (fd_table st)[nat (fde_fd (fdes st a)) := Null],
      interest := (interest st)(fde_fd (fdes st a) := None), closed := closed st @ [fde_fd (fdes st a)]\<rparr>)"
proof -
  let ?fd = "fde_fd (fdes st a)"
  have t: "0 \<le> ?fd" "nat ?fd < length (fd_table st)" "fd_table st ! nat ?fd = Fde a"
    using inv a by (auto simp: loop_inv_def table_ok_def)
  have m: "pending (fde_state (fdes st a)) \<longleftrightarrow> a \<in> set pend" using inv by (simp add: loop_inv_def queue_ok_def)
  have d: "fde_state (fdes st a) AND FDE_DONT_CLOSE = 0"
    using inv by (intro no_dont_close) (auto simp: loop_inv_def fde_ok_def)
  have disc: "fdevent_disconnect a s = s\<lparr>interest := (interest s)(fde_fd (fdes s a) := None)\<rparr>" for s
    by (cases "interest s (fde_fd (fdes s a))") (auto simp: fdevent_disconnect_def epoll_ctl_def fun_upd_idem)
  from t have b: "\<not> int (length (fd_table st)) \<le> ?fd" "\<not> ?fd < 0" by auto
  show ?thesis using a t b d m
    by (auto simp: fdevent_remove_def fdevent_unregister_def has_bit disc adb_close_def Let_def)
qed

lemma table_ok_drop:
  assumes t: "table_ok st" and a: "active (fde_state (fdes st a))" and f: "\<not> active (fde_state f)"
    and st': "fdes st' = (fdes st)(a := f)" "fd_table st' = (fd_table st)[nat (fde_fd (fdes st a)) := Null]"
  shows "table_ok st'"
  unfolding table_ok_def
proof (intro conjI allI impI)
  let ?fd = "fde_fd (fdes st a)"
  have slot: "0 \<le> ?fd" "fd_table st ! nat ?fd = Fde a" using t a by (auto simp: table_ok_def)
  {
    fix b assume "active (fde_state (fdes st' b))"
    then have b: "b \<noteq> a" "active (fde_state (fdes st b))" using st' f by (auto split: if_splits)
    then have "fde_fd (fdes st b) \<noteq> ?fd" using active_unique [OF t b(2) a] by auto
    moreover have "0 \<le> fde_fd (fdes st b)" "nat (fde_fd (fdes st b)) < length (fd_table st)"
      "fd_table st ! nat (fde_fd (fdes st b)) = Fde b"
      using t b by (simp_all add: table_ok_def)
    ultimately show "0 \<le> fde_fd (fdes st' b)" "nat (fde_fd (fdes st' b)) < length (fd_table st')"
      "fd_table st' ! nat (fde_fd (fdes st' b)) = Fde b"
      using slot(1) st' b by (simp_all add: nat_eq_iff2)
  }
  fix j b assume "j < length (fd_table st')" "fd_table st' ! j = Fde b"
  then have "j \<noteq> nat ?fd" "j < length (fd_table st)" "fd_table st ! j = Fde b"
    using st' by (cases "j = nat ?fd"; simp add: nth_list_update)+
  with t have "active (fde_state (fdes st b))" "fde_fd (fdes st b) = int j" "b \<noteq> a"
    unfolding table_ok_def by (blast, blast, metis nat_int)
  then show "active (fde_state (fdes st' b))" "fde_fd (fdes st' b) = int j"
    using st' by simp_all
qed

lemma interest_ok_drop:
  assumes t: "table_ok st" and i: "interest_ok st" and a: "active (fde_state (fdes st a))"
    and f: "\<not> active (fde_state f)"
    and st': "fdes st' = (fdes st)(a := f)" "interest st' = (interest st)(fde_fd (fdes st a) := None)"
  shows "interest_ok st'"
  unfolding interest_ok_def
proof (intro allI)
  fix fd ev b
  let ?fd = "fde_fd (fdes st a)"
  show "interest st' fd = Some (ev, b) \<longleftrightarrow>
    active (fde_state (fdes st' b)) \<and> fde_fd (fdes st' b) = fd \<and> want (fde_state (fdes st' b)) \<noteq> 0 \<and>
    ev = epoll_mask (want (fde_state (fdes st' b)))"
  proof (cases "b = a")
    case True
    then show ?thesis using st' f i by (auto simp: interest_ok_def)
  next
    case False
    have "interest st fd = Some (ev, b) \<longleftrightarrow> active (fde_state (fdes st b)) \<and> fde_fd (fdes st b) = fd \<and>
        want (fde_state (fdes st b)) \<noteq> 0 \<and> ev = epoll_mask (want (fde_state (fdes st b)))"
      using i unfolding interest_ok_def by blast
    moreover have "active (fde_state (fdes st b)) \<Longrightarrow> fde_fd (fdes st b) \<noteq> ?fd"
      using active_unique [OF t _ a] False by blast
    ultimately show ?thesis using st' False by auto
  qed
qed

lemma fdevent_remove_inv:
  assumes inv: "loop_inv st pend" and a: "active (fde_state (fdes st a))"
  shows "\<exists>st'. fdevent_remove a st = Inr st' \<and> loop_inv st' (remove1 a pend) \<and>
    \<not> active (fde_state (fdes st' a)) \<and> interest st' (fde_fd (fdes st a)) = None \<and>
    fd_table st' ! nat (fde_fd (fdes st a)) = Null \<and> closed st' = closed st @ [fde_fd (fdes st a)]"
proof -
  let ?fd = "fde_fd (fdes st a)" and ?f = "(fdes st a)\<lparr>fde_state := 0, fde_events := 0\<rparr>"
  define st' where "st' = st\<lparr>fdes := (fdes st)(a := ?f),
      plinks := (if a \<in> set pend then fdevent_plist_remove a (plinks st) else plinks st),
      fd_table := (fd_table st)[nat ?fd := Null],
      interest := (interest st)(?fd := None), closed := closed st @ [?fd]\<rparr>"
  have t: "table_ok st" and i: "interest_ok st" and q: "queue_ok st pend" and w: "\<And>b. fde_ok b (fdes st b)"
    using inv by (auto simp: loop_inv_def)
  have r: "ring (plinks st) list_pending pend" and m: "\<And>b. b \<in> set pend \<longleftrightarrow> pending (fde_state (fdes st b))"
    using q by (auto simp: queue_ok_def)
  then have "distinct pend" by (simp add: ring_def)
  then have "queue_ok st' (remove1 a pend)"
    using r m plist.del_remove1 [OF r, of a] by (auto simp: queue_ok_def st'_def remove1_idem)
  moreover have "\<forall>b. fde_ok b (fdes st' b)" using w by (simp add: st'_def fde_ok_def)
  moreover have "table_ok st'" by (rule table_ok_drop [OF t a, of ?f]) (simp_all add: st'_def)
  moreover have "interest_ok st'" by (rule interest_ok_drop [OF t i a, of ?f]) (simp_all add: st'_def)
  ultimately have "loop_inv st' (remove1 a pend)" by (simp add: loop_inv_def)
  moreover have "nat ?fd < length (fd_table st)" using t a by (auto simp: table_ok_def)
  ultimately show ?thesis
    by (intro exI [of _ st'] conjI fdevent_remove_eq [OF assms, folded st'_def]) (simp_all add: st'_def)
qed

section \<open>What the operations promise to their callers\<close>

text \<open>The handler of an \<open>fdevent\<close>, with its arguments.\<close>

definition target :: "fdevent \<Rightarrow> fd_func \<times> int \<times> addr" where
  "target f = (fde_func f, fde_fd f, fde_arg f)"

text \<open>The callers of the event loop rely on its invariant and on this frame: of the other
  \<open>fdevent\<close>s nothing changes, and nobody becomes pending.\<close>

definition loop_frame :: "addr \<Rightarrow> evloop \<Rightarrow> evloop \<Rightarrow> bool" where
  "loop_frame a st st' \<longleftrightarrow> (\<forall>b. b \<noteq> a \<longrightarrow> fdes st' b = fdes st b) \<and> pollable st' = pollable st \<and> epoll_ok st' = epoll_ok st"

lemma subseq_remove1: "subseq (remove1 a xs) xs"
  by (induction xs) auto

lemma fdevent_set_promise:
  assumes inv: "loop_inv st pend" and a: "active (fde_state (fdes st a))" and e: "io_events e"
    and p: "pollable st (fde_fd (fdes st a))"
  obtains st' pend' where "fdevent_set a e st = Inr st'" and "loop_inv st' pend'" and "subseq pend' pend"
    and "loop_frame a st st'" and "active (fde_state (fdes st' a))" and "want (fde_state (fdes st' a)) = e"
    and "target (fdes st' a) = target (fdes st a)" and "closed st' = closed st"
proof -
  have ok: "fde_ok a (fdes st a)" using inv by (simp add: loop_inv_def)
  obtain st' where st': "fdevent_set a e st = Inr st'"
    "loop_inv st' (if cancels e (fdes st a) then remove1 a pend else pend)" "want (fde_state (fdes st' a)) = e"
    using fdevent_set_inv [OF assms] by blast
  have "loop_frame a st st'" "active (fde_state (fdes st' a))" "closed st' = closed st"
    using st'(1) set_words_ok(2) [OF ok a e] unfolding fdevent_set_eq [OF assms] by (auto simp: loop_frame_def)
  moreover have "target (fdes st' a) = target (fdes st a)"
    using st'(1) unfolding fdevent_set_eq [OF assms] by (auto simp: target_def set_words_def Let_def)
  ultimately show ?thesis using that [OF st'(1,2)] st'(3) by (simp add: subseq_remove1)
qed

lemma fdevent_add_promise:
  assumes inv: "loop_inv st pend" and a: "active (fde_state (fdes st a))" and e: "io_events e"
    and p: "pollable st (fde_fd (fdes st a))"
  obtains st' pend' where "fdevent_add a e st = Inr st'" and "loop_inv st' pend'" and "subseq pend' pend"
    and "loop_frame a st st'" and "active (fde_state (fdes st' a))"
    and "want (fde_state (fdes st' a)) = want (fde_state (fdes st a)) OR e"
    and "target (fdes st' a) = target (fdes st a)" and "closed st' = closed st"
proof -
  have "io_events (want (fde_state (fdes st a)))" using inv by (auto simp: loop_inv_def fde_ok_def)
  then have "io_events (want (fde_state (fdes st a)) OR e)" using e by simp
  from fdevent_set_promise [OF inv a this p] io_events_want [OF e] that show ?thesis
    by (auto simp: fdevent_add_def want_mask)
qed

lemma fdevent_del_promise:
  assumes inv: "loop_inv st pend" and a: "active (fde_state (fdes st a))"
    and p: "pollable st (fde_fd (fdes st a))"
  obtains st' pend' where "fdevent_del a e st = Inr st'" and "loop_inv st' pend'" and "subseq pend' pend"
    and "loop_frame a st st'" and "active (fde_state (fdes st' a))"
    and "want (fde_state (fdes st' a)) = want (fde_state (fdes st a)) AND NOT (want e)"
    and "target (fdes st' a) = target (fdes st a)" and "closed st' = closed st"
proof -
  have "io_events (want (fde_state (fdes st a)))" using inv by (auto simp: loop_inv_def fde_ok_def)
  then have "io_events (want (fde_state (fdes st a)) AND NOT (want e))" by simp
  from fdevent_set_promise [OF inv a this p] that show ?thesis
    by (auto simp: fdevent_del_def want_mask)
qed

lemma fdevent_remove_promise:
  assumes inv: "loop_inv st pend" and a: "active (fde_state (fdes st a))"
  obtains st' pend' where "fdevent_remove a st = Inr st'" and "loop_inv st' pend'" and "subseq pend' pend"
    and "loop_frame a st st'" and "\<not> active (fde_state (fdes st' a))"
    and "closed st' = closed st @ [fde_fd (fdes st a)]"
proof -
  obtain st' where st': "fdevent_remove a st = Inr st'" "loop_inv st' (remove1 a pend)"
    "\<not> active (fde_state (fdes st' a))" "closed st' = closed st @ [fde_fd (fdes st a)]"
    using fdevent_remove_inv [OF assms] by blast
  moreover have "loop_frame a st st'"
    using st'(1) unfolding fdevent_remove_eq [OF assms] by (auto simp: loop_frame_def)
  ultimately show ?thesis using that by (simp add: subseq_remove1)
qed

section \<open>Reporting and dispatching\<close>

lemma asked_same:
  assumes "loop_inv st pend" and "active (fde_state (fdes st a))"
  shows "(interest st)(fde_fd (fdes st a) := asked a (want (fde_state (fdes st a)))) = interest st"
  using interest_active [OF assms] by (simp add: fun_upd_idem)

definition reported :: "u32 \<Rightarrow> bool" where
  "reported ev \<longleftrightarrow> ev AND (EPOLLIN OR EPOLLOUT OR EPOLLERR OR EPOLLHUP) \<noteq> 0"

text \<open>An event of a registered descriptor goes to the tail of the pending list, once.\<close>

lemma fdevent_report_inv:
  assumes inv: "loop_inv st pend" and a: "active (fde_state (fdes st a))" and ev: "reported ev"
  shows "loop_inv (fdevent_report (ev, a) st) (if a \<in> set pend then pend else pend @ [a]) \<and>
    (\<forall>b. active (fde_state (fdes (fdevent_report (ev, a) st) b)) = active (fde_state (fdes st b)))"
proof -
  define got where "got = (if ev AND EPOLLIN \<noteq> 0 then FDE_READ else 0) OR
    (if ev AND EPOLLOUT \<noteq> 0 then FDE_WRITE else 0) OR (if ev AND (EPOLLERR OR EPOLLHUP) \<noteq> 0 then FDE_ERROR else 0)"
  let ?f = "(fdes st a)\<lparr>fde_events := fde_events (fdes st a) OR got, fde_state := fde_state (fdes st a) OR FDE_PENDING\<rparr>"
  have "ev AND EPOLLIN \<noteq> 0 \<or> ev AND EPOLLOUT \<noteq> 0 \<or> ev AND (EPOLLERR OR EPOLLHUP) \<noteq> 0"
    using ev by (auto simp: reported_def bit.conj_disj_distrib)
  then have got: "got \<noteq> 0" by (auto simp: got_def fde_consts)
  then have ne: "fde_events (fdes st a) OR got \<noteq> 0" by (auto simp: word_zero_iff bit_simps)
  have ok: "fde_ok a (fdes st a)" and q: "queue_ok st pend" using inv by (auto simp: loop_inv_def)
  have r: "ring (plinks st) list_pending pend" and m: "a \<in> set pend \<longleftrightarrow> pending (fde_state (fdes st a))"
    using q by (auto simp: queue_ok_def)
  show ?thesis
  proof (cases "a \<in> set pend")
    case True
    let ?g = "(fdes st a)\<lparr>fde_events := fde_events (fdes st a) OR got\<rparr>"
    have eq: "fdevent_report (ev, a) st = st\<lparr>fdes := (fdes st)(a := ?g)\<rparr>"
      using True m ne by (simp add: fdevent_report_def has_bit Let_def flip: got_def)
    have "loop_inv (fdevent_report (ev, a) st) pend"
      by (rule loop_inv_upd [OF inv a, of ?g])
        (use True m ne ok a r asked_same [OF inv a] in \<open>auto simp: eq fde_ok_def\<close>)
    then show ?thesis using True a by (simp add: eq)
  next
    case False
    have eq: "fdevent_report (ev, a) st = st\<lparr>fdes := (fdes st)(a := ?f),
        plinks := fdevent_plist_enqueue list_pending a (plinks st)\<rparr>"
      using False m ne by (simp add: fdevent_report_def has_bit Let_def flip: got_def)
    have "ring (fdevent_plist_enqueue list_pending a (plinks st)) list_pending (pend @ [a])"
      using ok a False by (intro plist.add_ring [OF r]) (auto simp: fde_ok_def)
    then have "loop_inv (fdevent_report (ev, a) st) (pend @ [a])"
      by (intro loop_inv_upd [OF inv a, of ?f])
        (use False m ne ok a asked_same [OF inv a] in \<open>auto simp: eq fde_ok_def\<close>)
    then show ?thesis using False a by (simp add: eq)
  qed
qed

text \<open>The order in which one batch of events arrives at the tail.\<close>

definition arrivals :: "addr list \<Rightarrow> addr list \<Rightarrow> addr list" where
  "arrivals as pend = fold (\<lambda>a p. if a \<in> set p then p else p @ [a]) as pend"

lemma arrivals_append:
  "distinct pend \<Longrightarrow> \<exists>new. arrivals as pend = pend @ new \<and> distinct (pend @ new) \<and>
     set (pend @ new) = set pend \<union> set as \<and> subseq new as"
proof (induction as arbitrary: pend)
  case Nil
  then show ?case by (simp add: arrivals_def)
next
  case (Cons a as)
  show ?case
  proof (cases "a \<in> set pend")
    case True
    with Cons.IH [OF Cons.prems] show ?thesis by (auto simp: arrivals_def)
  next
    case False
    with Cons.prems have "distinct (pend @ [a])" by simp
    from Cons.IH [OF this] obtain new where "arrivals as (pend @ [a]) = (pend @ [a]) @ new"
      "distinct ((pend @ [a]) @ new)" "set ((pend @ [a]) @ new) = set (pend @ [a]) \<union> set as" "subseq new as"
      by blast
    with False show ?thesis by (intro exI [of _ "a # new"]) (auto simp: arrivals_def)
  qed
qed

lemma fold_report_inv:
  assumes "loop_inv st pend" and "\<forall>(ev, a) \<in> set evs. active (fde_state (fdes st a)) \<and> reported ev"
  shows "loop_inv (fold fdevent_report evs st) (arrivals (map snd evs) pend)"
  using assms
proof (induction evs arbitrary: st pend)
  case Nil
  then show ?case by (simp add: arrivals_def)
next
  case (Cons e evs)
  obtain ev a where e: "e = (ev, a)" by (cases e)
  from Cons.prems e have step: "loop_inv (fdevent_report e st) (if a \<in> set pend then pend else pend @ [a])"
    and "\<forall>b. active (fde_state (fdes (fdevent_report e st) b)) = active (fde_state (fdes st b))"
    using fdevent_report_inv [of st pend a ev] by auto
  with Cons.prems(2) have "\<forall>(ev, a) \<in> set evs. active (fde_state (fdes (fdevent_report e st) a)) \<and> reported ev"
    by auto
  from Cons.IH [OF step this] e show ?case by (simp add: arrivals_def)
qed

text \<open>Taking the head of the pending list and preparing its call.\<close>

definition call_target :: "fdcall \<Rightarrow> fd_func \<times> int \<times> addr" where
  "call_target c = (case c of (func, fd, _, arg) \<Rightarrow> (func, fd, arg))"

lemma call_target_simps [simp]: "call_target (func, fd, ev, arg) = (func, fd, arg)"
  by (simp add: call_target_def)

lemma dispatch_head:
  assumes inv: "loop_inv st (a # pend)"
  obtains l st1 where "fdevent_plist_dequeue list_pending (plinks st) = (Some a, l)"
    and "fdevent_call_fdfunc a (st\<lparr>plinks := l\<rparr>) =
      (Some (fde_func (fdes st a), fde_fd (fdes st a), fde_events (fdes st a), fde_arg (fdes st a)), st1)"
    and "loop_inv st1 pend" and "\<And>b. b \<noteq> a \<Longrightarrow> fdes st1 b = fdes st b"
    and "fde_events (fdes st a) \<noteq> 0"
proof -
  have q: "queue_ok st (a # pend)" and w: "fde_ok a (fdes st a)" using inv by (auto simp: loop_inv_def)
  then have r: "ring (plinks st) list_pending (a # pend)" and p: "pending (fde_state (fdes st a))"
    by (auto simp: queue_ok_def)
  from w p have a: "active (fde_state (fdes st a))" "fde_events (fdes st a) \<noteq> 0" by (auto simp: fde_ok_def)
  obtain l where l: "fdevent_plist_dequeue list_pending (plinks st) = (Some a, l)" "ring l list_pending pend"
    using plist_dequeue_Cons [OF r] by blast
  let ?f = "(fdes st a)\<lparr>fde_events := 0, fde_state := fde_state (fdes st a) AND NOT FDE_PENDING\<rparr>"
  let ?st = "st\<lparr>plinks := l, fdes := (fdes st)(a := ?f)\<rparr>"
  have "loop_inv ?st pend"
    by (rule loop_inv_upd [OF inv a(1), of ?f])
      (use a w l(2) r asked_same [OF inv a(1)] in \<open>auto simp: fde_ok_def ring_def\<close>)
  moreover have "fdevent_call_fdfunc a (st\<lparr>plinks := l\<rparr>) =
      (Some (fde_func (fdes st a), fde_fd (fdes st a), fde_events (fdes st a), fde_arg (fdes st a)), ?st)"
    using p by (simp add: fdevent_call_fdfunc_def has_bit)
  ultimately show ?thesis using that l a by simp
qed

text \<open>What the loop needs of the handlers: they keep the invariant, and of the descriptors still
  pending they leave the order, the handlers and the arguments.\<close>

definition handler_ok :: "(fdcall \<Rightarrow> evloop \<Rightarrow> evloop outcome) \<Rightarrow> bool" where
  "handler_ok run \<longleftrightarrow> (\<forall>call st pend st'. loop_inv st pend \<longrightarrow> run call st = Inr st' \<longrightarrow>
     (\<exists>pend'. loop_inv st' pend' \<and> subseq pend' pend \<and> (\<forall>b \<in> set pend'. target (fdes st' b) = target (fdes st b))))"

lemma handler_okD:
  assumes "handler_ok run" and "loop_inv st pend" and "run call st = Inr st'"
  obtains pend' where "loop_inv st' pend'" and "subseq pend' pend"
    and "\<forall>b \<in> set pend'. target (fdes st' b) = target (fdes st b)"
  using assms unfolding handler_ok_def by blast

lemma drain_Nil:
  "loop_inv st [] \<Longrightarrow> fdevent_drain run fuel st = Some (Inr ([], st))"
  by (subst fdevent_drain.simps) (simp add: plist_dequeue_Nil loop_inv_def queue_ok_def)

lemma drain_Cons:
  assumes "loop_inv st (a # pend)"
  obtains st1 where "loop_inv st1 pend" and "\<And>b. b \<in> set pend \<Longrightarrow> fdes st1 b = fdes st b"
    and "fdevent_drain run (Suc fuel) st =
      (let call = (fde_func (fdes st a), fde_fd (fdes st a), fde_events (fdes st a), fde_arg (fdes st a)) in
       case run call st1 of Inl e \<Rightarrow> Some (Inl e)
       | Inr st2 \<Rightarrow> map_option (\<lambda>r. andthen r (\<lambda>(calls, st3). Inr (call # calls, st3))) (fdevent_drain run fuel st2))"
  using assms
proof (rule dispatch_head)
  fix l st1
  assume d: "fdevent_plist_dequeue list_pending (plinks st) = (Some a, l)"
    "fdevent_call_fdfunc a (st\<lparr>plinks := l\<rparr>) =
      (Some (fde_func (fdes st a), fde_fd (fdes st a), fde_events (fdes st a), fde_arg (fdes st a)), st1)"
    "loop_inv st1 pend" "\<And>b. b \<noteq> a \<Longrightarrow> fdes st1 b = fdes st b"
  have "a \<notin> set pend" using assms by (auto simp: loop_inv_def queue_ok_def ring_def)
  with d(4) have "fdes st1 b = fdes st b" if "b \<in> set pend" for b using that by metis
  moreover have "fdevent_drain run (Suc fuel) st =
      (let call = (fde_func (fdes st a), fde_fd (fdes st a), fde_events (fdes st a), fde_arg (fdes st a)) in
       case run call st1 of Inl e \<Rightarrow> Some (Inl e)
       | Inr st2 \<Rightarrow> map_option (\<lambda>r. andthen r (\<lambda>(calls, st3). Inr (call # calls, st3))) (fdevent_drain run fuel st2))"
    by (subst fdevent_drain.simps) (simp add: d Let_def)
  ultimately show ?thesis using that d(3) by blast
qed

lemma subseq_set: "subseq xs ys \<Longrightarrow> set xs \<subseteq> set ys"
  by (blast elim: list_emb_set)

lemma handler_targets:
  assumes "subseq pend' pend" and "\<forall>b \<in> set pend'. target (fdes st2 b) = target (fdes st1 b)"
    and "\<And>b. b \<in> set pend \<Longrightarrow> fdes st1 b = fdes st b"
  shows "subseq (map (\<lambda>b. target (fdes st2 b)) pend') (map (\<lambda>b. target (fdes st b)) pend)"
proof -
  have "map (\<lambda>b. target (fdes st2 b)) pend' = map (\<lambda>b. target (fdes st b)) pend'"
    using assms subseq_set [OF assms(1)] by auto
  then show ?thesis using subseq_map [OF assms(1)] by metis
qed

lemma drain_ends:
  assumes h: "handler_ok run"
  shows "loop_inv st pend \<Longrightarrow> length pend \<le> fuel \<Longrightarrow> \<exists>r. fdevent_drain run fuel st = Some r \<and>
    (\<forall>calls st'. r = Inr (calls, st') \<longrightarrow> loop_inv st' [] \<and>
       subseq (map call_target calls) (map (\<lambda>a. target (fdes st a)) pend))"
proof (induction fuel arbitrary: st pend)
  case 0
  then show ?case by (simp add: drain_Nil)
next
  case (Suc fuel)
  show ?case
  proof (cases pend)
    case Nil
    with Suc.prems show ?thesis by (simp add: drain_Nil)
  next
    case (Cons a rest)
    let ?call = "(fde_func (fdes st a), fde_fd (fdes st a), fde_events (fdes st a), fde_arg (fdes st a))"
    from Suc.prems(1) [unfolded Cons] obtain st1 where
      st1: "loop_inv st1 rest" "\<And>b. b \<in> set rest \<Longrightarrow> fdes st1 b = fdes st b"
      and eq: "fdevent_drain run (Suc fuel) st = (let call = ?call in case run call st1 of Inl e \<Rightarrow> Some (Inl e)
        | Inr st2 \<Rightarrow> map_option (\<lambda>r. andthen r (\<lambda>(calls, st3). Inr (call # calls, st3))) (fdevent_drain run fuel st2))"
      by (rule drain_Cons [where run = run and fuel = fuel]) blast
    show ?thesis
    proof (cases "run ?call st1")
      case (Inl e)
      then show ?thesis by (simp add: eq)
    next
      case (Inr st2)
      from handler_okD [OF h st1(1) Inr] obtain pend' where
        p: "loop_inv st2 pend'" "subseq pend' rest" "\<forall>b \<in> set pend'. target (fdes st2 b) = target (fdes st1 b)" .
      from p(2) Suc.prems(2) Cons have "length pend' \<le> fuel" by (auto dest: list_emb_length)
      from Suc.IH [OF p(1) this] obtain r where r: "fdevent_drain run fuel st2 = Some r"
        "\<And>calls st'. r = Inr (calls, st') \<Longrightarrow> loop_inv st' [] \<and>
           subseq (map call_target calls) (map (\<lambda>a. target (fdes st2 a)) pend')"
        by auto
      note sub = handler_targets [OF p(2,3) st1(2)]
      show ?thesis
      proof (cases r)
        case (Inr q)
        obtain calls st' where q: "q = (calls, st')" by (cases q)
        with Inr r(2) sub have "loop_inv st' []"
          "subseq (map call_target calls) (map (\<lambda>a. target (fdes st a)) rest)"
          using subseq_order.order_trans by blast+
        with r(1) \<open>run ?call st1 = Inr st2\<close> Inr q show ?thesis
          by (simp add: eq Cons target_def)
      qed (use r \<open>run ?call st1 = Inr st2\<close> in \<open>simp add: eq\<close>)
    qed
  qed
qed

section \<open>Properties\<close>

lemma loop_inv_start: "loop_inv fdevent_start []"
  by (simp add: loop_inv_def fdevent_start_def zero_fde_def fde_ok_def queue_ok_def table_ok_def interest_ok_def
      link_defs list_pending_def ring_def)

text \<open>A small loop for the examples: one descriptor, 3, waiting for input at address 7.\<close>

definition sample_loop :: evloop where
  "sample_loop = (case andthen (fdevent_install 7 3 NoFunc 0 fdevent_start) (fdevent_set 7 FDE_READ) of
     Inr st \<Rightarrow> st | Inl _ \<Rightarrow> fdevent_start)"

lemma sample_loop_inv: "loop_inv sample_loop []" "active (fde_state (fdes sample_loop 7))"
  "want (fde_state (fdes sample_loop 7)) = FDE_READ" "fde_fd (fdes sample_loop 7) = 3" "pollable sample_loop = (\<lambda>_. True)"
proof -
  obtain st1 where st1: "fdevent_install 7 (int 3) NoFunc 0 fdevent_start = Inr st1" "loop_inv st1 []"
    "fde_state (fdes st1 7) = FDE_ACTIVE" "fde_fd (fdes st1 7) = 3" "pollable st1 = (\<lambda>_. True)"
    using fdevent_install_inv [OF loop_inv_start, of 7 3 NoFunc 0]
    by (auto simp: fdevent_start_def zero_fde_def list_pending_def)
  then have a: "active (fde_state (fdes st1 7))" and p: "pollable st1 (fde_fd (fdes st1 7))" by simp_all
  have ok: "fde_ok 7 (fdes st1 7)" using st1(2) by (simp add: loop_inv_def)
  have e: "io_events FDE_READ" by simp
  obtain st2 where st2: "fdevent_set 7 FDE_READ st1 = Inr st2" "loop_inv st2 []"
    using fdevent_set_inv [OF st1(2) a e p] by (auto split: if_splits)
  with st1 have s: "sample_loop = st2" by (simp add: sample_loop_def)
  show "loop_inv sample_loop []" "active (fde_state (fdes sample_loop 7))"
    "want (fde_state (fdes sample_loop 7)) = FDE_READ" "fde_fd (fdes sample_loop 7) = 3"
    "pollable sample_loop = (\<lambda>_. True)"
    using fdevent_set_eq [OF st1(2) a e p] st2 set_words_ok [OF ok a e] st1(4,5) unfolding s by auto
qed

lemma reported_IN: "reported EPOLLIN"
  by (simp add: reported_def epoll_consts)

lemma sample_pending: "loop_inv (fdevent_report (EPOLLIN, 7) sample_loop) [7]"
  using fdevent_report_inv [OF sample_loop_inv(1,2) reported_IN] by simp

text \<open>C15: registration, choice of events and removal keep the event loop consistent and cannot
  fail. From a consistent state, installing a new \<open>fdevent\<close> on a free descriptor below the limit
  of 32000, asking it for real events, and removing it all return (no abort on an out-of-sync
  table, no exit on an \<open>epoll_ctl\<close> error), with the epoll set holding exactly what was asked;
  after the removal the pending list is as before, the slot is null and the descriptor is closed
  once.\<close>

theorem fdevent_lifecycle:
  assumes "loop_inv st pend" and "\<not> active (fde_state (fdes st a))" and "a \<noteq> 0" and "a \<noteq> list_pending"
    and "fd \<le> 32000" and "\<forall>b. active (fde_state (fdes st b)) \<longrightarrow> fde_fd (fdes st b) \<noteq> int fd"
    and "epoll_ok st" and "\<forall>fd. pollable st fd" and "io_events e"
  shows "\<exists>st1 st2 st3. fdevent_install a (int fd) func arg st = Inr st1 \<and> loop_inv st1 pend \<and>
    fdevent_set a e st1 = Inr st2 \<and> loop_inv st2 pend \<and> interest st2 (int fd) = asked a e \<and>
    fdevent_remove a st2 = Inr st3 \<and> loop_inv st3 pend \<and> interest st3 (int fd) = None \<and>
    fd_table st3 ! fd = Null \<and> closed st3 = closed st @ [int fd]"
proof -
  obtain st1 where st1: "fdevent_install a (int fd) func arg st = Inr st1" "loop_inv st1 pend"
    "fde_state (fdes st1 a) = FDE_ACTIVE" "fde_fd (fdes st1 a) = int fd" "closed st1 = closed st"
    "pollable st1 = pollable st"
    using fdevent_install_inv [of st pend a fd func arg] assms by auto
  then have a1: "active (fde_state (fdes st1 a))" and p1: "pollable st1 (fde_fd (fdes st1 a))"
    and c: "\<not> cancels e (fdes st1 a)"
    using assms by (simp_all add: cancels_def)
  have ok: "fde_ok a (fdes st1 a)" using st1(2) by (simp add: loop_inv_def)
  obtain st2 where st2: "fdevent_set a e st1 = Inr st2" "loop_inv st2 pend" "interest st2 (int fd) = asked a e"
    using fdevent_set_inv [OF st1(2) a1 assms(9) p1] c st1(4) by auto
  have "active (fde_state (fdes st2 a))" "fde_fd (fdes st2 a) = int fd" "closed st2 = closed st"
    using fdevent_set_eq [OF st1(2) a1 assms(9) p1] st2(1) st1(4,5) set_words_ok [OF ok a1 assms(9)] by auto
  then obtain st3 where st3: "fdevent_remove a st2 = Inr st3" "loop_inv st3 (remove1 a pend)"
    "interest st3 (int fd) = None" "fd_table st3 ! fd = Null" "closed st3 = closed st @ [int fd]"
    using fdevent_remove_inv [OF st2(2), of a] by auto
  have "a \<notin> set pend" using st1(2,3) by (auto simp: loop_inv_def queue_ok_def)
  then have "remove1 a pend = pend" by (rule remove1_idem)
  with st1 st2 st3 show ?thesis by auto
qed

theorem fdevent_lifecycle_witness:
  "\<exists>st1 st2 st3. fdevent_install 7 (int 3) NoFunc 0 fdevent_start = Inr st1 \<and> loop_inv st1 [] \<and>
    fdevent_set 7 FDE_READ st1 = Inr st2 \<and> loop_inv st2 [] \<and> interest st2 (int 3) = asked 7 FDE_READ \<and>
    fdevent_remove 7 st2 = Inr st3 \<and> loop_inv st3 [] \<and> interest st3 (int 3) = None \<and>
    fd_table st3 ! 3 = Null \<and> closed st3 = closed fdevent_start @ [int 3]"
  by (rule fdevent_lifecycle [OF loop_inv_start])
    (simp_all add: fdevent_start_def zero_fde_def list_pending_def)

text \<open>A batch of epoll events reaches the tail of the pending list in the order reported, each
  descriptor at most once and none lost, and the loop stays consistent. The kernel is only
  assumed to report descriptors that are registered, with some event set.\<close>

lemma fdevent_process_order:
  assumes "loop_inv st pend" and "\<forall>(ev, a) \<in> set evs. active (fde_state (fdes st a)) \<and> reported ev"
  shows "\<exists>st' new. fdevent_process (WaitEvents evs) st = Inr st' \<and> loop_inv st' (pend @ new) \<and>
    distinct (pend @ new) \<and> subseq new (map snd evs) \<and> set (pend @ new) = set pend \<union> snd ` set evs"
proof -
  have "distinct pend" using assms(1) by (simp add: loop_inv_def queue_ok_def ring_def)
  from arrivals_append [OF this, of "map snd evs"] fold_report_inv [OF assms] show ?thesis
    by (auto simp: fdevent_process_def)
qed

text \<open>One turn of the loop delivers what is pending and ends. With handlers that keep the
  invariant, the inner loop needs no more turns than there are pending entries; when it returns,
  nothing is pending, and the handlers called are, in order and without repetition, those of the
  pending descriptors (those a handler cancelled or removed are left out).\<close>

lemma fdevent_drain_fifo:
  assumes "handler_ok run" and "loop_inv st pend"
  shows "\<exists>r. fdevent_drain run (length pend) st = Some r \<and>
    (\<forall>calls st'. r = Inr (calls, st') \<longrightarrow> loop_inv st' [] \<and>
       subseq (map call_target calls) (map (\<lambda>a. target (fdes st a)) pend))"
  using drain_ends [OF assms(1), of st pend "length pend"] assms(2) by simp

lemma handler_ok_skip: "handler_ok (\<lambda>_ st. Inr st)"
  by (auto simp: handler_ok_def)

text \<open>C16: no event is lost. When the handlers leave the other pending descriptors alone, every
  pending descriptor gets exactly one call, in order, with all the events collected for it.\<close>

theorem fdevent_drain_all:
  assumes quiet: "\<forall>call st pend. loop_inv st pend \<longrightarrow> (\<exists>st'. run call st = Inr st' \<and> loop_inv st' pend \<and>
      (\<forall>b \<in> set pend. fdes st' b = fdes st b))"
    and inv: "loop_inv st pend"
  shows "\<exists>st'. fdevent_drain run (length pend) st = Some (Inr (map (\<lambda>a. let f = fdes st a in
      (fde_func f, fde_fd f, fde_events f, fde_arg f)) pend, st')) \<and> loop_inv st' []"
  using inv
proof (induction pend arbitrary: st)
  case Nil
  then show ?case by (simp add: drain_Nil)
next
  case (Cons a rest)
  let ?f = "fdes st a"
  let ?call = "(fde_func ?f, fde_fd ?f, fde_events ?f, fde_arg ?f)"
  from Cons.prems obtain st1 where st1: "loop_inv st1 rest" "\<And>b. b \<in> set rest \<Longrightarrow> fdes st1 b = fdes st b"
    and eq: "fdevent_drain run (Suc (length rest)) st = (let call = ?call in case run call st1 of
        Inl e \<Rightarrow> Some (Inl e) | Inr st2 \<Rightarrow> map_option (\<lambda>r. andthen r (\<lambda>(calls, st3). Inr (call # calls, st3)))
          (fdevent_drain run (length rest) st2))"
    by (rule drain_Cons [where run = run and fuel = "length rest"]) blast
  from quiet st1(1) obtain st2 where st2: "run ?call st1 = Inr st2" "loop_inv st2 rest"
    "\<And>b. b \<in> set rest \<Longrightarrow> fdes st2 b = fdes st1 b"
    by blast
  from Cons.IH [OF st2(2)] st1(2) st2(1,3) show ?case
    by (auto simp: eq Let_def)
qed

theorem fdevent_drain_all_witness:
  "\<exists>st'. fdevent_drain (\<lambda>_ st. Inr st) (length [7 :: addr]) (fdevent_report (EPOLLIN, 7) sample_loop) =
     Some (Inr (map (\<lambda>a. let f = fdes (fdevent_report (EPOLLIN, 7) sample_loop) a in
       (fde_func f, fde_fd f, fde_events f, fde_arg f)) [7], st')) \<and> loop_inv st' []"
  by (rule fdevent_drain_all [OF _ sample_pending]) simp

text \<open>What \<open>fdevent_set\<close> does to an event that is already pending. The events in the new set are
  the ones taken away from what will be delivered, and those outside it are kept: an \<open>fdevent\<close>
  whose pending events are all wanted loses its place in the pending list.\<close>

lemma fdevent_set_pending:
  assumes "loop_inv st pend" and "a \<in> set pend" and "io_events e" and "pollable st (fde_fd (fdes st a))"
    and "want (fde_state (fdes st a)) \<noteq> e"
  shows "\<exists>st'. fdevent_set a e st = Inr st' \<and> fde_events (fdes st' a) = fde_events (fdes st a) AND NOT e \<and>
    loop_inv st' (if fde_events (fdes st a) AND NOT e = 0 then remove1 a pend else pend)"
proof -
  have p: "pending (fde_state (fdes st a))" and a: "active (fde_state (fdes st a))"
    using assms(1,2) by (auto simp: loop_inv_def queue_ok_def fde_ok_def)
  show ?thesis using fdevent_set_eq [OF assms(1) a assms(3,4)] fdevent_set_inv [OF assms(1) a assms(3,4)] p assms(5)
    by (auto simp: cancels_def set_words_def Let_def)
qed

lemma fdevent_report_keeps [simp]:
  "want (fde_state (fdes (fdevent_report ev st) b)) = want (fde_state (fdes st b))"
  "fde_fd (fdes (fdevent_report ev st) b) = fde_fd (fdes st b)" "pollable (fdevent_report ev st) = pollable st"
  by (simp_all add: fdevent_report_def Let_def)

text \<open>The flag \<open>FDE_DONT_CLOSE\<close> lies inside the event mask, so an \<open>fdevent\<close> that carries it looks
  as if it were in the epoll set already: the first \<open>fdevent_add\<close> then changes an entry that
  does not exist, and the process exits.\<close>

lemma dont_close_add_exits:
  assumes "active (fde_state (fdes st a))" and "fde_state (fdes st a) AND FDE_EVENTMASK = FDE_DONT_CLOSE"
    and "interest st (fde_fd (fdes st a)) = None"
  shows "fdevent_add a FDE_READ st = Inl (Exit 1)"
proof -
  have "(FDE_DONT_CLOSE OR (FDE_READ AND FDE_EVENTMASK)) AND FDE_EVENTMASK = FDE_DONT_CLOSE OR FDE_READ"
    "FDE_DONT_CLOSE \<noteq> FDE_DONT_CLOSE OR FDE_READ" "epoll_mask (FDE_DONT_CLOSE OR FDE_READ) \<noteq> 0"
    "FDE_DONT_CLOSE \<noteq> 0"
    by (simp_all add: fde_consts epoll_mask_def epoll_consts)
  with assms show ?thesis
    by (simp add: fdevent_add_def fdevent_set_def fdevent_update_def epoll_ctl_def has_bit(1) Let_def)
qed

text \<open>The table of descriptors grows to a power of two times 256, with room for the new
  descriptor and never beyond 64000 entries, keeps its old entries, and the new upper half is
  left unwritten: the \<open>memset\<close> counts the entries as \<open>int\<close>s.\<close>

lemma fdevent_first_register:
  assumes "fd_table st = []" and "fde_fd (fdes st a) = int fd" and "fd \<le> 32000" and "epoll_ok st"
  shows "\<exists>k. fd < 2 ^ k * 256 \<and> 2 ^ k * 256 \<le> max 256 (2 * fd) \<and>
    fdevent_register a st = Inr (st\<lparr>epoll_up := True, fd_table :=
      (replicate (2 ^ k * 128) Null @ replicate (2 ^ k * 128) Garbage)[fd := Fde a]\<rparr>)"
proof -
  obtain k where k: "fd < grow_table fd 256" "grow_table fd 256 \<le> max 256 (2 * fd)" "grow_table fd 256 = 2 ^ k * 256"
    using grow_table_bounds [of 256 fd] by auto
  have "expand_table (2 ^ k * 256) [] = replicate (2 ^ k * 128) Null @ replicate (2 ^ k * 128) Garbage"
    by (simp add: expand_table_def Let_def sizeof_int_def sizeof_ptr_def)
  with k assms show ?thesis
    by (intro exI [of _ k]) (simp add: fdevent_register_def fdevent_init_def Let_def)
qed

end
