(* ===== verification/Strings.thy ===== *)
theory Strings
  imports Prelude
begin

text \<open>
  The C string routines of libc the sources call, over HOL strings (a C string is the list of its
  characters, without the terminating zero byte): searching and splitting, the conversions
  \<open>%d\<close>, \<open>%04x\<close> and \<open>atoi\<close>, reading a C string out of a buffer, and \<open>snprintf\<close> into one.
\<close>

unbundle bit_operations_syntax

section \<open>Searching\<close>

text \<open>\<open>strchr\<close>: the suffix that starts at the first occurrence.\<close>

definition strchr :: "string \<Rightarrow> char \<Rightarrow> string option" where
  "strchr s c = (case dropWhile (\<lambda>x. x \<noteq> c) s of [] \<Rightarrow> None | t \<Rightarrow> Some t)"

text \<open>The part before the first occurrence: what is left when a zero byte is written there.\<close>

definition before_chr :: "string \<Rightarrow> char \<Rightarrow> string" where
  "before_chr s c = takeWhile (\<lambda>x. x \<noteq> c) s"

definition starts_with :: "string \<Rightarrow> string \<Rightarrow> bool" where
  "starts_with p s \<longleftrightarrow> take (length p) s = p"

lemma strchr_None_iff: "strchr s c = None \<longleftrightarrow> c \<notin> set s"
  unfolding strchr_def by (induction s) auto

lemma strchr_append [simp]: "c \<notin> set s \<Longrightarrow> strchr (s @ c # t) c = Some (c # t)"
  unfolding strchr_def by (induction s) auto

lemma before_chr_append [simp]: "c \<notin> set s \<Longrightarrow> before_chr (s @ c # t) c = s"
  unfolding before_chr_def by (induction s) auto

lemma before_chr_id [simp]: "c \<notin> set s \<Longrightarrow> before_chr s c = s"
  unfolding before_chr_def by (induction s) auto

lemma strchr_notin [simp]: "c \<notin> set s \<Longrightarrow> strchr s c = None"
  by (simp add: strchr_None_iff)

lemma strchr_Some_iff: "strchr s c = Some t \<longleftrightarrow> s = before_chr s c @ t \<and> (\<exists>r. t = c # r)"
proof
  assume "strchr s c = Some t"
  then have d: "dropWhile (\<lambda>x. x \<noteq> c) s = t" "t \<noteq> []" by (auto simp: strchr_def split: list.splits)
  then have "hd t = c" using hd_dropWhile [of "\<lambda>x. x \<noteq> c" s] by auto
  then have "\<exists>r. t = c # r" using d(2) by (cases t) auto
  then show "s = before_chr s c @ t \<and> (\<exists>r. t = c # r)"
    using d(1) takeWhile_dropWhile_id [of "\<lambda>x. x \<noteq> c" s] by (simp add: before_chr_def)
next
  assume s: "s = before_chr s c @ t \<and> (\<exists>r. t = c # r)"
  then obtain r where r: "s = before_chr s c @ c # r" "t = c # r" by auto
  have "c \<notin> set (before_chr s c)" by (auto simp: before_chr_def dest: set_takeWhileD)
  from strchr_append [OF this, of r] r show "strchr s c = Some t" by simp
qed

lemma starts_with_append [simp]: "starts_with p (p @ s)"
  by (simp add: starts_with_def)

lemma starts_with_iff: "starts_with p s \<longleftrightarrow> (\<exists>t. s = p @ t)"
  by (metis append_take_drop_id append_eq_conv_conj starts_with_def)

section \<open>Tokens\<close>

text \<open>One call of \<open>strtok_r\<close> with a single separator: the token and what is saved for the next call.\<close>

definition strtok_r :: "char \<Rightarrow> string \<Rightarrow> (string \<times> string) option" where
  "strtok_r c s =
    (let s' = dropWhile (\<lambda>x. x = c) s in
     if s' = [] then None else Some (before_chr s' c, drop 1 (dropWhile (\<lambda>x. x \<noteq> c) s')))"

lemma strtok_r_shorter: "strtok_r c s = Some (t, r) \<Longrightarrow> length r < length s"
proof -
  assume "strtok_r c s = Some (t, r)"
  then have "dropWhile (\<lambda>x. x = c) s \<noteq> []" "r = drop 1 (dropWhile (\<lambda>x. x \<noteq> c) (dropWhile (\<lambda>x. x = c) s))"
    by (auto simp: strtok_r_def Let_def split: if_splits)
  moreover have "dropWhile (\<lambda>x. x = c) s \<noteq> [] \<Longrightarrow>
      length (drop 1 (dropWhile (\<lambda>x. x \<noteq> c) (dropWhile (\<lambda>x. x = c) s))) < length (dropWhile (\<lambda>x. x = c) s)"
    using length_dropWhile_le [of "\<lambda>x. x \<noteq> c" "dropWhile (\<lambda>x. x = c) s"]
    by (cases "dropWhile (\<lambda>x. x = c) s") auto
  ultimately show ?thesis using length_dropWhile_le [of "\<lambda>x. x = c" s] by simp
qed

text \<open>All the tokens, the loop that calls \<open>strtok_r\<close> until it returns null.\<close>

function tokens :: "char \<Rightarrow> string \<Rightarrow> string list" where
  "tokens c s = (case strtok_r c s of None \<Rightarrow> [] | Some (t, r) \<Rightarrow> t # tokens c r)"
  by pat_completeness auto
termination
  by (relation "measure (\<lambda>(c, s). length s)") (auto dest: strtok_r_shorter)

declare tokens.simps [simp del]

lemma tokens_Nil [simp]: "tokens c [] = []"
  by (subst tokens.simps) (simp add: strtok_r_def)

lemma tokens_Cons:
  assumes "t \<noteq> []" and "c \<notin> set t"
  shows "tokens c (t @ c # r) = t # tokens c r"
proof -
  have "dropWhile (\<lambda>x. x = c) (t @ c # r) = t @ c # r" using assms by (cases t) auto
  moreover have "dropWhile (\<lambda>x. x \<noteq> c) (t @ c # r) = c # r"
    using assms(2) by (induction t) auto
  ultimately have "strtok_r c (t @ c # r) = Some (t, r)" using assms by (simp add: strtok_r_def)
  then show ?thesis by (subst tokens.simps) simp
qed

section \<open>Numbers\<close>

definition is_digit :: "char \<Rightarrow> bool" where
  "is_digit c \<longleftrightarrow> 48 \<le> (of_char c :: nat) \<and> (of_char c :: nat) \<le> 57"

text \<open>\<open>%04x\<close> of a number below 65536: four lower-case digits.\<close>

definition hex_digit :: "nat \<Rightarrow> char" where
  "hex_digit n = (if n < 10 then char_of (48 + n) else char_of (87 + n))"

definition hex4 :: "nat \<Rightarrow> string" where
  "hex4 n = [hex_digit (n div 4096 mod 16), hex_digit (n div 256 mod 16),
             hex_digit (n div 16 mod 16), hex_digit (n mod 16)]"

lemma length_hex4 [simp]: "length (hex4 n) = 4"
  by (simp add: hex4_def)

text \<open>\<open>%d\<close> of a natural number.\<close>

fun dec :: "nat \<Rightarrow> string" where
  "dec n = (if n < 10 then [char_of (48 + n)] else dec (n div 10) @ [char_of (48 + n mod 10)])"

declare dec.simps [simp del]

definition dec_int :: "int \<Rightarrow> string" where
  "dec_int n = (if n < 0 then CHR ''-'' # dec (nat (- n)) else dec (nat n))"

definition digit_value :: "char \<Rightarrow> nat" where
  "digit_value c = (let n = of_char c :: nat in
     if 48 \<le> n \<and> n \<le> 57 then n - 48 else if 97 \<le> n \<and> n \<le> 122 then n - 87 else if 65 \<le> n \<and> n \<le> 90 then n - 55 else 36)"

fun read_digits :: "nat \<Rightarrow> nat \<Rightarrow> string \<Rightarrow> nat" where
  "read_digits base acc [] = acc"
| "read_digits base acc (c # cs) = (if digit_value c < base then read_digits base (base * acc + digit_value c) cs else acc)"

definition is_space :: "char \<Rightarrow> bool" where
  "is_space c \<longleftrightarrow> (let n = of_char c :: nat in n = 32 \<or> 9 \<le> n \<and> n \<le> 13)"

text \<open>The optional sign, and the text after it.\<close>

definition strip_sign :: "string \<Rightarrow> bool \<times> string" where
  "strip_sign s = (let t = dropWhile is_space s in
     case t of c # r \<Rightarrow> if c = CHR ''-'' then (True, r) else if c = CHR ''+'' then (False, r) else (False, t) | [] \<Rightarrow> (False, []))"

text \<open>\<open>atoi\<close>: what \<open>strtol\<close> reads, within the range of \<open>long\<close>, converted to a 32-bit \<open>int\<close>.\<close>

definition atoi :: "string \<Rightarrow> int" where
  "atoi s = (let (neg, d) = strip_sign s; v = int (read_digits 10 0 d);
     n = (if neg then max (- v) (- (2 ^ 63)) else min v (2 ^ 63 - 1))
   in sint (word_of_int n :: 32 word))"

text \<open>\<open>strtoul(s,NULL,0)\<close>: the value, and whether it was out of range (\<open>errno\<close> is set).\<close>

definition strtoul :: "string \<Rightarrow> nat \<times> bool" where
  "strtoul s =
    (let (neg, u) = strip_sign s;
         v = (if starts_with ''0x'' u \<or> starts_with ''0X'' u then read_digits 16 0 (drop 2 u)
              else if starts_with ''0'' u then read_digits 8 0 u else read_digits 10 0 u)
     in if v \<ge> 2 ^ 64 then (2 ^ 64 - 1, True) else if neg then ((2 ^ 64 - v) mod 2 ^ 64, False) else (v, False))"

section \<open>Buffers\<close>

definition byte_of :: "char \<Rightarrow> u8" where "byte_of c = word_of_nat (of_char c)"
definition char_at :: "u8 \<Rightarrow> char" where "char_at b = char_of (unat b)"

definition bytes_of :: "string \<Rightarrow> bytes" where "bytes_of s = map byte_of s"

text \<open>Reading a C string: up to the first zero byte; without one the read runs off the buffer.\<close>

definition cstr :: "bytes \<Rightarrow> string outcome" where
  "cstr buf = (if 0 \<in> set buf then Inr (map char_at (takeWhile (\<lambda>b. b \<noteq> 0) buf)) else Inl OutOfBounds)"

lemma char_at_byte_of [simp]: "char_at (byte_of c) = c"
proof -
  have "(of_char c :: nat) < 256" using of_char_mod_256 [of c] by (metis mod_less_divisor zero_less_numeral)
  then have "unat (byte_of c) = of_char c" by (simp add: byte_of_def unat_of_nat take_bit_eq_mod)
  then show ?thesis by (simp add: char_at_def)
qed

lemma byte_of_inj: "byte_of c = byte_of d \<longleftrightarrow> c = d"
  by (metis char_at_byte_of)

lemma byte_of_0: "byte_of c = 0 \<longleftrightarrow> c = CHR 0x00"
  using byte_of_inj [of c "CHR 0x00"] by (simp add: byte_of_def)

lemma length_bytes_of [simp]: "length (bytes_of s) = length s"
  by (simp add: bytes_of_def)

lemma cstr_bytes_of:
  assumes "CHR 0x00 \<notin> set s"
  shows "cstr (bytes_of s @ 0 # r) = Inr s"
proof -
  have "\<forall>b \<in> set (bytes_of s). b \<noteq> 0" using assms by (auto simp: bytes_of_def byte_of_0)
  then have "takeWhile (\<lambda>b. b \<noteq> 0) (bytes_of s @ 0 # r) = bytes_of s"
    by (induction "bytes_of s") (auto simp: takeWhile_append)
  then show ?thesis by (simp add: cstr_def bytes_of_def o_def)
qed

end
