(* ===== verification/Banner.thy ===== *)
theory Banner
  imports Strings
begin

text \<open>
  The transport structure of \<open>adb.h\<close>, and the connection banner of \<open>adb.c\<close>: \<open>fill_connect_data\<close>
  writes it into the payload of an \<open>A_CNXN\<close> packet, \<open>parse_banner\<close> reads the one of the other
  side into the transport.
\<close>

section \<open>Transports\<close>

datatype transport_type = kTransportUsb | kTransportLocal | kTransportAny | kTransportHost

text \<open>The four function pointers are set together, by \<open>init_socket_transport\<close> or
  \<open>init_usb_transport\<close>: one name stands for the set.\<close>

datatype transport_ops = NoOps | SocketOps | UsbOps

record atransport =
  t_ops :: transport_ops
  t_fd :: int
  transport_socket :: int
  ref_count :: int
  sync_token :: u32
  connection_state :: int
  online :: bool
  t_type :: transport_type
  t_usb :: addr
  sfd :: int
  serial :: "string option"
  product :: "string option"
  model :: "string option"
  device :: "string option"
  devpath :: "string option"
  adb_port :: int
  kicked :: bool
  disconnects :: "addr list" \<comment> \<open>the ring of \<open>adisconnect\<close> nodes, as a list\<close>
  t_key :: addr
  token :: bytes
  failed_auth_attempts :: u32

definition CS_ANY :: int where "CS_ANY = -1"
definition CS_OFFLINE :: int where "CS_OFFLINE = 0"
definition CS_BOOTLOADER :: int where "CS_BOOTLOADER = 1"
definition CS_DEVICE :: int where "CS_DEVICE = 2"
definition CS_HOST :: int where "CS_HOST = 3"
definition CS_RECOVERY :: int where "CS_RECOVERY = 4"
definition CS_NOPERM :: int where "CS_NOPERM = 5"
definition CS_SIDELOAD :: int where "CS_SIDELOAD = 6"

lemmas cs_consts = CS_ANY_def CS_OFFLINE_def CS_BOOTLOADER_def CS_DEVICE_def CS_HOST_def CS_RECOVERY_def
  CS_NOPERM_def CS_SIDELOAD_def

definition TOKEN_SIZE :: nat where "TOKEN_SIZE = 20"

text \<open>\<open>calloc(1,sizeof(atransport))\<close>.\<close>

definition zero_transport :: atransport where
  "zero_transport = \<lparr>t_ops = NoOps, t_fd = 0, transport_socket = 0, ref_count = 0, sync_token = 0,
     connection_state = 0, online = False, t_type = kTransportUsb, t_usb = 0, sfd = 0, serial = None,
     product = None, model = None, device = None, devpath = None, adb_port = 0, kicked = False,
     disconnects = [], t_key = 0, token = replicate TOKEN_SIZE 0, failed_auth_attempts = 0\<rparr>"

definition connection_state_name :: "atransport option \<Rightarrow> string" where
  "connection_state_name t = (case t of
       None \<Rightarrow> ''unknown''
     | Some t \<Rightarrow>
         if connection_state t = CS_BOOTLOADER then ''bootloader''
         else if connection_state t = CS_DEVICE then ''device''
         else if connection_state t = CS_OFFLINE then ''offline''
         else ''unknown'')"

section \<open>Writing the banner\<close>

type_synonym u64 = "64 word"

text \<open>\<open>snprintf(buf+pos,remaining,"%s",s)\<close>: at most \<open>remaining-1\<close> characters and a zero byte, and the
  full length is returned. A write past the end of the buffer is undefined.\<close>

definition snprintf_at :: "bytes \<Rightarrow> nat \<Rightarrow> u64 \<Rightarrow> string \<Rightarrow> (u64 \<times> bytes) outcome" where
  "snprintf_at buf pos remaining s =
    (if remaining = 0 then Inr (word_of_nat (length s), buf)
     else
       let out = bytes_of (take (unat remaining - 1) s) @ [0] in
       if pos + length out \<le> length buf
       then Inr (word_of_nat (length s), take pos buf @ out @ drop (pos + length out) buf)
       else Inl OutOfBounds)"

text \<open>One step: \<open>len=snprintf(buf,remaining,...); remaining-=len; buf+=len\<close>.\<close>

definition put_text :: "string \<Rightarrow> bytes \<times> nat \<times> u64 \<Rightarrow> (bytes \<times> nat \<times> u64) outcome" where
  "put_text s = (\<lambda>(buf, pos, remaining).
     andthen (snprintf_at buf pos remaining s) (\<lambda>(len, buf'). Inr (buf', pos + unat len, remaining - len)))"

definition cnxn_props :: "string list" where
  "cnxn_props = [''ro.product.name'', ''ro.product.model'', ''ro.product.device'']"

text \<open>\<open>adb_device_banner\<close> and \<open>values\<close> are the globals of that name.\<close>

definition fill_connect_data :: "string \<Rightarrow> string list \<Rightarrow> bytes \<Rightarrow> (u64 \<times> bytes) outcome" where
  "fill_connect_data adb_device_banner vals buf0 =
    (let bufsize = word_of_nat (length buf0) in
     andthen (put_text (adb_device_banner @ ''::'') (buf0, 0, bufsize)) (\<lambda>s0.
     andthen (put_text (cnxn_props ! 0 @ ''='' @ vals ! 0 @ '';'') s0) (\<lambda>s1.
     andthen (put_text (cnxn_props ! 1 @ ''='' @ vals ! 1 @ '';'') s1) (\<lambda>s2.
     andthen (put_text (cnxn_props ! 2 @ ''='' @ vals ! 2 @ '';'') s2) (\<lambda>(buf, pos, remaining).
       Inr (bufsize - remaining + 1, buf))))))"

section \<open>Reading the banner\<close>

definition qual_overwrite :: "string \<Rightarrow> string option" where
  "qual_overwrite src = (if src = [] then None else Some src)"

text \<open>The body of the loop over the \<open>key=value\<close> tokens.\<close>

definition banner_token :: "string \<Rightarrow> atransport \<Rightarrow> atransport" where
  "banner_token tok t = (case strchr tok (CHR ''='') of
       None \<Rightarrow> t
     | Some cp \<Rightarrow>
         let key = before_chr tok (CHR ''=''); val = tl cp in
         if key = ''ro.product.name'' then t\<lparr>product := qual_overwrite val\<rparr>
         else if key = ''ro.product.model'' then t\<lparr>model := qual_overwrite val\<rparr>
         else if key = ''ro.product.device'' then t\<lparr>device := qual_overwrite val\<rparr>
         else t)"

definition banner_state :: "string \<Rightarrow> int" where
  "banner_state type =
    (if type = ''bootloader'' then CS_BOOTLOADER
     else if type = ''device'' then CS_DEVICE
     else if type = ''recovery'' then CS_RECOVERY
     else if type = ''sideload'' then CS_SIDELOAD
     else CS_HOST)"

definition parse_banner :: "bytes \<Rightarrow> atransport \<Rightarrow> atransport outcome" where
  "parse_banner data t = andthen (cstr data) (\<lambda>banner.
     let type = before_chr banner (CHR '':'');
         t' = (case strchr banner (CHR '':'') of
                 None \<Rightarrow> t
               | Some cp \<Rightarrow>
                   (case strchr (tl cp) (CHR '':'') of
                      None \<Rightarrow> t
                    | Some cp2 \<Rightarrow> fold banner_token (tokens (CHR '';'') (tl cp2)) t))
     in Inr (t'\<lparr>connection_state := banner_state type\<rparr>))"

section \<open>Round trip\<close>

text \<open>The state of a buffer that has been written up to \<open>pos\<close>: the text so far and a zero byte.\<close>

definition written :: "bytes \<Rightarrow> string \<Rightarrow> bytes \<Rightarrow> bool" where
  "written buf s buf0 \<longleftrightarrow> length buf = length buf0 \<and> take (length s) buf = bytes_of s \<and>
     (s \<noteq> [] \<longrightarrow> length s < length buf \<and> buf ! length s = 0)"

lemma put_text_written:
  assumes w: "written buf s buf0" and s: "t \<noteq> []" "length s + length t < length buf0" "length buf0 < 2 ^ 63"
  shows "\<exists>buf'. put_text t (buf, length s, word_of_nat (length buf0 - length s)) =
    Inr (buf', length (s @ t), word_of_nat (length buf0 - length (s @ t))) \<and> written buf' (s @ t) buf0"
proof -
  let ?r = "word_of_nat (length buf0 - length s) :: u64"
  have r: "unat ?r = length buf0 - length s" unfolding unat_of_nat using s by (simp add: take_bit_eq_mod)
  have r0: "?r \<noteq> 0" using r s by auto
  have tl: "take (unat ?r - 1) t = t" using r s by simp
  have lt: "unat (word_of_nat (length t) :: u64) = length t" using s by (simp add: unat_of_nat take_bit_eq_mod)
  have len: "length buf = length buf0" using w by (simp add: written_def)
  let ?b = "take (length s) buf @ (bytes_of t @ [0]) @ drop (length s + Suc (length t)) buf"
  have "?r - word_of_nat (length t) = word_of_nat (length buf0 - length (s @ t))"
    using s by (simp add: of_nat_diff algebra_simps)
  moreover have "snprintf_at buf (length s) ?r t = Inr (word_of_nat (length t), ?b)"
    using r0 tl s len by (simp add: snprintf_at_def)
  moreover have "written ?b (s @ t) buf0"
    using w s len by (auto simp: written_def bytes_of_def nth_append)
  ultimately show ?thesis by (auto simp: put_text_def lt)
qed

lemma written_cstr:
  assumes "written buf s buf0" and "s \<noteq> []" and "CHR 0x00 \<notin> set s"
  shows "cstr buf = Inr s"
proof -
  have "buf = bytes_of s @ 0 # drop (Suc (length s)) buf"
    using assms id_take_nth_drop [of "length s" buf] by (simp add: written_def)
  then show ?thesis using cstr_bytes_of [OF assms(3), of "drop (Suc (length s)) buf"] by simp
qed

text \<open>The text \<open>fill_connect_data\<close> writes, when it fits.\<close>

definition banner_text :: "string \<Rightarrow> string list \<Rightarrow> string" where
  "banner_text name vals = name @ ''::'' @ cnxn_props ! 0 @ ''='' @ vals ! 0 @ '';'' @
     cnxn_props ! 1 @ ''='' @ vals ! 1 @ '';'' @ cnxn_props ! 2 @ ''='' @ vals ! 2 @ '';''"

lemma fill_connect_data_text:
  assumes fit: "length (banner_text name vals) < length buf" and b: "length buf < 2 ^ 63"
  shows "\<exists>buf'. fill_connect_data name vals buf = Inr (word_of_nat (length (banner_text name vals) + 1), buf') \<and>
    written buf' (banner_text name vals) buf"
proof -
  let ?s0 = "name @ ''::''" and ?s1 = "cnxn_props ! 0 @ ''='' @ vals ! 0 @ '';''"
    and ?s2 = "cnxn_props ! 1 @ ''='' @ vals ! 1 @ '';''" and ?s3 = "cnxn_props ! 2 @ ''='' @ vals ! 2 @ '';''"
  let ?n = "length buf" and ?w = "\<lambda>m. word_of_nat m :: u64"
  have t: "banner_text name vals = ((?s0 @ ?s1) @ ?s2) @ ?s3" by (simp add: banner_text_def)
  have w0: "written buf [] buf" by (simp add: written_def bytes_of_def)
  obtain b0 where b0: "put_text ?s0 (buf, 0, ?w ?n) = Inr (b0, length ?s0, ?w (?n - length ?s0))" "written b0 ?s0 buf"
    using put_text_written [OF w0, of ?s0] fit b unfolding t by auto
  obtain b1 where b1: "put_text ?s1 (b0, length ?s0, ?w (?n - length ?s0)) =
      Inr (b1, length (?s0 @ ?s1), ?w (?n - length (?s0 @ ?s1)))" "written b1 (?s0 @ ?s1) buf"
    using put_text_written [OF b0(2), of ?s1] fit b unfolding t by auto
  obtain b2 where b2: "put_text ?s2 (b1, length (?s0 @ ?s1), ?w (?n - length (?s0 @ ?s1))) =
      Inr (b2, length ((?s0 @ ?s1) @ ?s2), ?w (?n - length ((?s0 @ ?s1) @ ?s2)))" "written b2 ((?s0 @ ?s1) @ ?s2) buf"
    using put_text_written [OF b1(2), of ?s2] fit b unfolding t by auto
  obtain b3 where b3: "put_text ?s3 (b2, length ((?s0 @ ?s1) @ ?s2), ?w (?n - length ((?s0 @ ?s1) @ ?s2))) =
      Inr (b3, length (banner_text name vals), ?w (?n - length (banner_text name vals)))"
      "written b3 (banner_text name vals) buf"
    using put_text_written [OF b2(2), of ?s3] fit b unfolding t by auto
  have "?w ?n - ?w (?n - length (banner_text name vals)) + 1 = ?w (length (banner_text name vals) + 1)"
    using fit by (simp add: of_nat_diff)
  with b3(2) show ?thesis unfolding fill_connect_data_def Let_def b0(1) andthen_simps b1(1) b2(1) b3(1) prod.case
    by auto
qed

lemma banner_tokens:
  assumes "\<forall>v \<in> set [v0, v1, v2]. CHR '';'' \<notin> set v"
  shows "tokens (CHR '';'') (cnxn_props ! 0 @ ''='' @ v0 @ '';'' @ cnxn_props ! 1 @ ''='' @ v1 @ '';'' @
      cnxn_props ! 2 @ ''='' @ v2 @ '';'') =
    [cnxn_props ! 0 @ ''='' @ v0, cnxn_props ! 1 @ ''='' @ v1, cnxn_props ! 2 @ ''='' @ v2]"
proof -
  have p: "CHR '';'' \<notin> set (cnxn_props ! i @ ''='' @ v) \<and> cnxn_props ! i @ ''='' @ v \<noteq> []"
    if "i \<in> {0, 1, 2}" "CHR '';'' \<notin> set v" for i v
    using that by (auto simp: cnxn_props_def)
  have "tokens (CHR '';'') ((cnxn_props ! i @ ''='' @ v) @ CHR '';'' # r) = (cnxn_props ! i @ ''='' @ v) # tokens (CHR '';'') r"
    if "i \<in> {0, 1, 2}" "CHR '';'' \<notin> set v" for i v r
    using p [OF that] by (intro tokens_Cons) auto
  from this [of 0 v0] this [of 1 v1] this [of 2 v2 "[]"] assms show ?thesis by simp
qed

lemma banner_token_prop:
  "banner_token (''ro.product.name'' @ ''='' @ v) t = t\<lparr>product := qual_overwrite v\<rparr>"
  "banner_token (''ro.product.model'' @ ''='' @ v) t = t\<lparr>model := qual_overwrite v\<rparr>"
  "banner_token (''ro.product.device'' @ ''='' @ v) t = t\<lparr>device := qual_overwrite v\<rparr>"
  by (simp_all add: banner_token_def strchr_def before_chr_def)

lemma parse_banner_text:
  assumes "cstr data = Inr (banner_text name [v0, v1, v2])" and "CHR '':'' \<notin> set name"
    and "\<forall>v \<in> set [v0, v1, v2]. CHR '';'' \<notin> set v"
  shows "parse_banner data t = Inr (t\<lparr>product := qual_overwrite v0, model := qual_overwrite v1,
    device := qual_overwrite v2, connection_state := banner_state name\<rparr>)"
proof -
  let ?r = "cnxn_props ! 0 @ ''='' @ v0 @ '';'' @ cnxn_props ! 1 @ ''='' @ v1 @ '';'' @ cnxn_props ! 2 @ ''='' @ v2 @ '';''"
  have b: "banner_text name [v0, v1, v2] = name @ CHR '':'' # CHR '':'' # ?r" by (simp add: banner_text_def)
  have c: "strchr (banner_text name [v0, v1, v2]) (CHR '':'') = Some (CHR '':'' # CHR '':'' # ?r)"
    "before_chr (banner_text name [v0, v1, v2]) (CHR '':'') = name"
    unfolding b using assms(2) by (rule strchr_append, simp)
  have d: "strchr (CHR '':'' # ?r) (CHR '':'') = Some (CHR '':'' # ?r)" by (simp add: strchr_def)
  show ?thesis
    unfolding parse_banner_def assms(1) andthen_simps c Let_def option.case list.sel d banner_tokens [OF assms(3)]
    by (simp add: cnxn_props_def banner_token_prop [simplified])
qed

text \<open>C28: the banner round trip. The connection data the daemon sends, when it fits in the payload, is
  reported with its exact length including the zero byte, and a peer that parses it gets the three
  properties (an empty one as absent) and the connection state of the banner's name.\<close>

theorem banner_roundtrip:
  assumes "length (banner_text name [v0, v1, v2]) < length buf" and "length buf < 2 ^ 63"
    and "CHR '':'' \<notin> set name" and "\<forall>v \<in> set [v0, v1, v2]. CHR '';'' \<notin> set v"
    and "CHR 0x00 \<notin> set (banner_text name [v0, v1, v2])"
  shows "\<exists>len data. fill_connect_data name [v0, v1, v2] buf = Inr (len, data) \<and>
    unat len = length (banner_text name [v0, v1, v2]) + 1 \<and> unat len \<le> length buf \<and> length data = length buf \<and>
    parse_banner data t = Inr (t\<lparr>product := qual_overwrite v0, model := qual_overwrite v1,
      device := qual_overwrite v2, connection_state := banner_state name\<rparr>)"
proof -
  let ?b = "banner_text name [v0, v1, v2]"
  from fill_connect_data_text [OF assms(1,2)] obtain data where
    d: "fill_connect_data name [v0, v1, v2] buf = Inr (word_of_nat (length ?b + 1), data)" "written data ?b buf"
    by blast
  have "?b \<noteq> []" by (simp add: banner_text_def)
  from written_cstr [OF d(2) this assms(5)] have "cstr data = Inr ?b" .
  note p = parse_banner_text [OF this assms(3,4), of t]
  have "unat (word_of_nat (length ?b + 1) :: u64) = length ?b + 1"
    using assms(1,2) unfolding unat_of_nat by (simp add: take_bit_eq_mod)
  with d p assms(1) show ?thesis by (auto simp: written_def)
qed

theorem banner_roundtrip_witness:
  "\<exists>len data. fill_connect_data ''device'' [''Linux'', ''Systemd'', ''GNU''] (replicate 4096 0) = Inr (len, data) \<and>
    unat len = length (banner_text ''device'' [''Linux'', ''Systemd'', ''GNU'']) + 1 \<and>
    unat len \<le> length (replicate 4096 (0 :: u8)) \<and> length data = length (replicate 4096 (0 :: u8)) \<and>
    parse_banner data zero_transport = Inr (zero_transport\<lparr>product := qual_overwrite ''Linux'',
      model := qual_overwrite ''Systemd'', device := qual_overwrite ''GNU'', connection_state := banner_state ''device''\<rparr>)"
  by (rule banner_roundtrip) (simp_all add: banner_text_def cnxn_props_def)

text \<open>A banner name that does not fit makes the daemon write outside the payload buffer. The length
  \<open>snprintf\<close> reports is subtracted from the room left without a check, so the room wraps around
  and the next write starts past the end.\<close>

lemma banner_overflow:
  assumes "0 < length buf" and "length buf < length name + 2" and "length name + 2 < 2 ^ 63"
  shows "fill_connect_data name vals buf = Inl OutOfBounds"
proof -
  let ?r = "word_of_nat (length buf) :: u64" and ?l = "word_of_nat (length name + 2) :: u64"
  have u: "unat ?r = length buf" "unat ?l = length name + 2"
    using assms unfolding unat_of_nat by (simp_all add: take_bit_eq_mod)
  have r0: "?r \<noteq> 0" using u(1) assms(1) by auto
  have ne: "?r - ?l \<noteq> 0" using u assms(2) by auto
  obtain b where b: "put_text (name @ ''::'') (buf, 0, ?r) = Inr (b, length name + 2, ?r - ?l)" "length b = length buf"
    using r0 u assms by (auto simp: put_text_def snprintf_at_def Let_def simp del: of_nat_add)
  have "put_text t (b, length name + 2, ?r - ?l) = Inl OutOfBounds" for t
    using ne b(2) assms(2) by (auto simp: put_text_def snprintf_at_def Let_def simp del: of_nat_add)
  with b(1) show ?thesis by (simp add: fill_connect_data_def del: of_nat_add)
qed

end
