(* ===== verification/Transports.thy ===== *)
theory Transports
  imports Banner
begin

text \<open>
  Choosing a transport (\<open>qual_match\<close> and \<open>acquire_one_transport\<close> of \<open>transport.c\<close>). The list of
  transports is a list of addresses with the transports at them; a retry sees the list as it is
  one second later, so the successive lists are an argument.
\<close>

section \<open>Qualifiers\<close>

definition qual_char_is_invalid :: "char \<Rightarrow> bool" where
  "qual_char_is_invalid ch =
    (let c = (of_char ch :: nat) in
     if 65 \<le> c \<and> c \<le> 90 then False
     else if 97 \<le> c \<and> c \<le> 122 then False
     else if 48 \<le> c \<and> c \<le> 57 then False
     else True)"

text \<open>The two loops: over the prefix, and over the qualifier.\<close>

fun match_prefix :: "string \<Rightarrow> string \<Rightarrow> string option" where
  "match_prefix [] to_test = Some to_test"
| "match_prefix (p # ps) to_test = (case to_test of [] \<Rightarrow> None | c # cs \<Rightarrow> if p \<noteq> c then None else match_prefix ps cs)"

fun match_qual :: "bool \<Rightarrow> string \<Rightarrow> string \<Rightarrow> string option" where
  "match_qual sanitize [] to_test = Some to_test"
| "match_qual sanitize (q # qs) to_test =
    (let ch = (if sanitize \<and> qual_char_is_invalid q then CHR ''_'' else q) in
     case to_test of [] \<Rightarrow> None | c # cs \<Rightarrow> if ch \<noteq> c then None else match_qual sanitize qs cs)"

definition qual_match :: "string \<Rightarrow> string \<Rightarrow> string option \<Rightarrow> bool \<Rightarrow> bool" where
  "qual_match to_test prefix qual sanitize_qual =
    (if to_test = [] then qual = None \<or> qual = Some []
     else case qual of
         None \<Rightarrow> False
       | Some q \<Rightarrow>
           (case match_prefix prefix to_test of
              None \<Rightarrow> False
            | Some rest \<Rightarrow> (case match_qual sanitize_qual q rest of None \<Rightarrow> False | Some rest' \<Rightarrow> rest' = [])))"

section \<open>Choosing\<close>

text \<open>Whether the loop body takes the transport as a candidate, and the error for a second one.\<close>

definition candidate :: "transport_type \<Rightarrow> string option \<Rightarrow> atransport \<Rightarrow> string option" where
  "candidate ttype wanted t =
    (if connection_state t = CS_NOPERM then None
     else case wanted of
         Some s \<Rightarrow>
           if (serial t = Some s) \<or> (devpath t = Some s) \<or> qual_match s ''product:'' (product t) False \<or>
              qual_match s ''model:'' (model t) True \<or> qual_match s ''device:'' (device t) False
           then Some ''more than one device'' else None
       | None \<Rightarrow>
           if ttype = kTransportUsb \<and> t_type t = kTransportUsb then Some ''more than one device''
           else if ttype = kTransportLocal \<and> t_type t = kTransportLocal then Some ''more than one emulator''
           else if ttype = kTransportAny then Some ''more than one device and emulator''
           else None)"

text \<open>The loop: the result, whether it was ambiguous, and the error text.\<close>

fun scan_transports :: "transport_type \<Rightarrow> string option \<Rightarrow> (addr \<times> atransport) list \<Rightarrow> (addr \<times> atransport) option
    \<Rightarrow> string \<Rightarrow> (addr \<times> atransport) option \<times> bool \<times> string" where
  "scan_transports ttype wanted [] result err = (result, False, err)"
| "scan_transports ttype wanted ((a, t) # ts) result err =
    (if connection_state t = CS_NOPERM
     then scan_transports ttype wanted ts result ''insufficient permissions for device''
     else case candidate ttype wanted t of
         None \<Rightarrow> scan_transports ttype wanted ts result err
       | Some e \<Rightarrow>
           if result \<noteq> None then (None, True, e)
           else scan_transports ttype wanted ts (Some (a, t)) err)"

text \<open>One pass of \<open>retry\<close>: the result or the error, and whether the function tries again.\<close>

definition acquire_pass :: "int \<Rightarrow> transport_type \<Rightarrow> string option \<Rightarrow> (addr \<times> atransport) list \<Rightarrow> bool
    \<Rightarrow> (string + addr) \<times> bool \<times> bool" where
  "acquire_pass state ttype wanted ts ambiguous0 =
    (let (result, amb, err) = scan_transports ttype wanted ts None ''device not found'';
         ambiguous = (ambiguous0 \<or> amb);
         r = (case result of
                None \<Rightarrow> Inl err
              | Some (a, t) \<Rightarrow>
                  if connection_state t = CS_OFFLINE then Inl ''device offline''
                  else if state \<noteq> CS_ANY \<and> connection_state t \<noteq> state then Inl ''invalid device state''
                  else Inr a)
     in (r, ambiguous, (case r of Inr _ \<Rightarrow> False | Inl _ \<Rightarrow> state \<noteq> CS_ANY \<and> (wanted \<noteq> None \<or> \<not> ambiguous))))"

text \<open>With the lists seen by the successive passes; \<open>None\<close>: it is still trying when they run out.\<close>

fun acquire_retry :: "int \<Rightarrow> transport_type \<Rightarrow> string option \<Rightarrow> (addr \<times> atransport) list list \<Rightarrow> bool
    \<Rightarrow> (string + addr) option" where
  "acquire_retry state ttype wanted [] ambiguous = None"
| "acquire_retry state ttype wanted (ts # later) ambiguous =
    (case acquire_pass state ttype wanted ts ambiguous of
       (r, amb, again) \<Rightarrow> if again then acquire_retry state ttype wanted later amb else Some r)"

definition acquire_one_transport :: "int \<Rightarrow> transport_type \<Rightarrow> string option \<Rightarrow> (addr \<times> atransport) list list
    \<Rightarrow> (string + addr) option" where
  "acquire_one_transport state ttype wanted snapshots = acquire_retry state ttype wanted snapshots False"

section \<open>What a qualifier matches\<close>

definition sanitized :: "bool \<Rightarrow> string \<Rightarrow> string" where
  "sanitized b q = map (\<lambda>c. if b \<and> qual_char_is_invalid c then CHR ''_'' else c) q"

lemma match_prefix_iff: "match_prefix p s = Some r \<longleftrightarrow> s = p @ r"
  by (induction p s rule: match_prefix.induct) (auto split: list.splits)

lemma match_qual_iff: "match_qual b q s = Some r \<longleftrightarrow> s = sanitized b q @ r"
  by (induction b q s rule: match_qual.induct) (auto simp: sanitized_def split: list.splits)

text \<open>A qualifier matches exactly when the requested name is the prefix followed by the
  qualifier with its special characters replaced; an empty request matches an absent or empty
  qualifier.\<close>

lemma qual_match_spec:
  "qual_match to_test prefix qual sanitize \<longleftrightarrow>
    (if to_test = [] then qual = None \<or> qual = Some []
     else \<exists>q. qual = Some q \<and> to_test = prefix @ sanitized sanitize q)"
proof (cases "to_test = [] \<or> qual = None")
  case True
  then show ?thesis by (auto simp: qual_match_def)
next
  case False
  then obtain q where q: "qual = Some q" by auto
  have "qual_match to_test prefix qual sanitize \<longleftrightarrow>
    (\<exists>rest. match_prefix prefix to_test = Some rest \<and> match_qual sanitize q rest = Some [])"
    using False q by (auto simp: qual_match_def split: option.splits)
  with False q show ?thesis by (simp add: match_prefix_iff match_qual_iff)
qed

section \<open>What is chosen\<close>

definition candidates :: "transport_type \<Rightarrow> string option \<Rightarrow> (addr \<times> atransport) list \<Rightarrow> (addr \<times> atransport) list" where
  "candidates ttype wanted ts = filter (\<lambda>(a, t). candidate ttype wanted t \<noteq> None) ts"

lemma scan_candidates:
  "fst (scan_transports ttype wanted ts result err) =
    (case result of
       None \<Rightarrow> (case candidates ttype wanted ts of [x] \<Rightarrow> Some x | _ \<Rightarrow> None)
     | Some x \<Rightarrow> if candidates ttype wanted ts = [] then Some x else None) \<and>
   fst (snd (scan_transports ttype wanted ts result err)) =
    (1 < length (candidates ttype wanted ts) + (if result = None then 0 else 1))"
proof (induction ttype wanted ts result err rule: scan_transports.induct)
  case (1 ttype wanted result err)
  then show ?case by (auto simp: candidates_def split: option.splits)
next
  case (2 ttype wanted a t ts result err)
  show ?case
  proof (cases "connection_state t = CS_NOPERM")
    case True
    then have "candidates ttype wanted ((a, t) # ts) = candidates ttype wanted ts"
      by (simp add: candidates_def candidate_def)
    with True 2(1) show ?thesis by (cases result) auto
  next
    case False
    show ?thesis
    proof (cases "candidate ttype wanted t")
      case None
      then have "candidates ttype wanted ((a, t) # ts) = candidates ttype wanted ts" by (simp add: candidates_def)
      with None False 2(2) show ?thesis by (cases result) auto
    next
      case (Some e)
      then have "candidates ttype wanted ((a, t) # ts) = (a, t) # candidates ttype wanted ts" by (simp add: candidates_def)
      with Some False 2(3) [OF False Some] show ?thesis
        by (cases result; cases "candidates ttype wanted ts") auto
    qed
  qed
qed

text \<open>C29: a transport is acquired only when the choice is unique. A single pass without a required state
  returns a transport exactly when one transport alone is a candidate (by serial, device path or
  qualifier, or by type), it has permissions and it is not offline; in every other case it returns
  an error, and it never retries.\<close>

theorem acquire_any_unique:
  "(acquire_one_transport CS_ANY ttype wanted [ts] = Some (Inr a) \<longleftrightarrow>
    (\<exists>t. candidates ttype wanted ts = [(a, t)] \<and> connection_state t \<noteq> CS_OFFLINE)) \<and>
   acquire_one_transport CS_ANY ttype wanted [ts] \<noteq> None"
proof -
  obtain r amb err where s: "scan_transports ttype wanted ts None ''device not found'' = (r, amb, err)"
    by (cases "scan_transports ttype wanted ts None ''device not found''") auto
  have r: "r = (case candidates ttype wanted ts of [x] \<Rightarrow> Some x | _ \<Rightarrow> None)"
    using scan_candidates [of ttype wanted ts None "''device not found''"] by (simp add: s)
  have "acquire_one_transport CS_ANY ttype wanted [ts] = Some (Inr a) \<longleftrightarrow>
    (\<exists>t. candidates ttype wanted ts = [(a, t)] \<and> connection_state t \<noteq> CS_OFFLINE)"
    by (auto simp: acquire_one_transport_def acquire_pass_def s r Let_def split: list.splits option.splits if_splits)
  moreover have "acquire_one_transport CS_ANY ttype wanted [ts] \<noteq> None"
    by (auto simp: acquire_one_transport_def acquire_pass_def s Let_def split: option.splits)
  ultimately show ?thesis by blast
qed

end
