(* ===== verification/Threads.thy ===== *)
theory Threads
  imports Transports Packet "HOL-Library.Sublist"
begin

text \<open>
  The two threads of a transport (\<open>transport.c\<close>, \<open>transport_local.c\<close>): what they move between the
  remote side and the socket pair, and how they shut the transport down. The packets pass through
  the socket pair by address, one at a time, so a thread sees a list of packets.

  The shutdown runs concurrently in both threads and in the event loop. It is a step relation: a
  section under \<open>transport_lock\<close> is one step, everything between two such sections is interleaved.
\<close>

unbundle bit_operations_syntax

section \<open>What the threads move\<close>

definition sync_packet :: "apacket \<Rightarrow> u32 \<Rightarrow> u32 \<Rightarrow> apacket" where
  "sync_packet p0 a0 a1 =
    p0\<lparr>a_msg := (a_msg p0)\<lparr>command := A_SYNC, arg0 := a0, arg1 := a1, magic := A_SYNC XOR 0xffffffff\<rparr>\<rparr>"

text \<open>\<open>output_thread\<close>: \<open>reads\<close> are the packets \<open>read_from_remote\<close> will deliver before it fails, \<open>room\<close> how
  many writes to the socket pair succeed. The result is the packets written, in order, and the token.
  \<open>fresh\<close> is the packet \<open>get_apacket\<close> returns.\<close>

fun output_loop :: "apacket \<Rightarrow> apacket list \<Rightarrow> nat \<Rightarrow> apacket list" where
  "output_loop fresh [] room = (if room = 0 then [] else [sync_packet fresh 0 0])"
| "output_loop fresh (p # reads) room = (if room = 0 then [] else p # output_loop fresh reads (room - 1))"

definition output_thread :: "apacket \<Rightarrow> u32 \<Rightarrow> apacket list \<Rightarrow> nat \<Rightarrow> apacket list \<times> u32" where
  "output_thread fresh tok0 reads room =
    (let tok = tok0 + 1 in
     if room = 0 then ([], tok)
     else (sync_packet fresh 1 tok # output_loop fresh reads (room - 1), tok))"

text \<open>\<open>input_thread\<close>: the packets taken from the socket pair; the ones given to \<open>write_to_remote\<close>.\<close>

fun input_loop :: "u32 \<Rightarrow> bool \<Rightarrow> apacket list \<Rightarrow> apacket list" where
  "input_loop tok active [] = []"
| "input_loop tok active (p # ps) =
    (if command (a_msg p) = A_SYNC then
       if arg0 (a_msg p) = 0 then []
       else if arg1 (a_msg p) = tok then input_loop tok True ps
       else input_loop tok active ps
     else if active then p # input_loop tok active ps
     else input_loop tok active ps)"

definition input_thread :: "u32 \<Rightarrow> apacket list \<Rightarrow> apacket list" where
  "input_thread tok ps = input_loop tok False ps"

section \<open>Shutting down\<close>

datatype thr = InThread | OutThread

text \<open>Where a thread is: in its loop, before the unlocked test of \<open>kick_transport\<close>, before its locked
  section, before the call of \<open>t->kick\<close>, before \<open>transport_unref\<close>, at its end.\<close>

datatype pc = Running | AtTest | AtLock | AtCall | AtUnref | Finished

datatype tcall = CallKick | CallClose | PostRemove

record tmach =
  m_t :: atransport
  m_pc :: "thr \<Rightarrow> pc"
  m_calls :: "tcall list"
  m_closed :: "int list" \<comment> \<open>descriptors closed so far\<close>
  m_posted :: nat \<comment> \<open>removal messages the event loop has not read\<close>
  m_freed :: bool

text \<open>\<open>remote_kick\<close> and \<open>remote_close\<close> of the two kinds of transport.\<close>

definition remote_kick :: "tmach \<Rightarrow> tmach" where
  "remote_kick m = (if t_ops (m_t m) = SocketOps
     then m\<lparr>m_t := (m_t m)\<lparr>sfd := -1\<rparr>, m_closed := m_closed m @ [sfd (m_t m)], m_calls := m_calls m @ [CallKick]\<rparr>
     else m\<lparr>m_calls := m_calls m @ [CallKick]\<rparr>)"

definition remote_close :: "tmach \<Rightarrow> tmach" where
  "remote_close m = (if t_ops (m_t m) = SocketOps
     then m\<lparr>m_closed := m_closed m @ [t_fd (m_t m)], m_calls := m_calls m @ [CallClose]\<rparr>
     else m\<lparr>m_t := (m_t m)\<lparr>t_usb := 0\<rparr>, m_calls := m_calls m @ [CallClose]\<rparr>)"

definition remove_transport :: "tmach \<Rightarrow> tmach" where
  "remove_transport m = m\<lparr>m_posted := m_posted m + 1, m_calls := m_calls m @ [PostRemove]\<rparr>"

definition transport_unref_locked :: "tmach \<Rightarrow> tmach" where
  "transport_unref_locked m0 =
    (let m1 = m0\<lparr>m_t := (m_t m0)\<lparr>ref_count := ref_count (m_t m0) - 1\<rparr>\<rparr> in
     if ref_count (m_t m1) = 0 then
       let m2 = (if \<not> kicked (m_t m1) then remote_kick (m1\<lparr>m_t := (m_t m1)\<lparr>kicked := True\<rparr>\<rparr>) else m1)
       in remove_transport (remote_close m2)
     else m1)"

abbreviation goto_pc :: "thr \<Rightarrow> pc \<Rightarrow> tmach \<Rightarrow> tmach" where
  "goto_pc th pc m \<equiv> m\<lparr>m_pc := (m_pc m)(th := pc)\<rparr>"

text \<open>One step of a thread from the end of its loop on: \<open>kick_transport\<close>, then \<open>transport_unref\<close>.\<close>

definition thread_step :: "thr \<Rightarrow> tmach \<Rightarrow> tmach" where
  "thread_step th m = (case m_pc m th of
       Running \<Rightarrow> goto_pc th AtTest m
     | AtTest \<Rightarrow> goto_pc th (if kicked (m_t m) then AtUnref else AtLock) m
     | AtLock \<Rightarrow>
         if kicked (m_t m) then goto_pc th AtUnref m
         else goto_pc th AtCall (m\<lparr>m_t := (m_t m)\<lparr>kicked := True\<rparr>\<rparr>)
     | AtCall \<Rightarrow> goto_pc th AtUnref (remote_kick m)
     | AtUnref \<Rightarrow> goto_pc th Finished (transport_unref_locked m)
     | Finished \<Rightarrow> m)"

text \<open>The event loop reads a removal message: the first half of \<open>transport_registration_func\<close>
  with action 0, which closes \<open>t->fd\<close> and frees the transport.\<close>

definition registration_remove :: "tmach \<Rightarrow> tmach" where
  "registration_remove m =
    m\<lparr>m_posted := m_posted m - 1, m_closed := m_closed m @ [t_fd (m_t m)], m_freed := True\<rparr>"

inductive mstep :: "tmach \<Rightarrow> tmach \<Rightarrow> bool" where
  thread: "m_pc m th \<noteq> Finished \<Longrightarrow> mstep m (thread_step th m)"
| event_loop: "0 < m_posted m \<Longrightarrow> mstep m (registration_remove m)"

definition fresh_mach :: "atransport \<Rightarrow> tmach" where
  "fresh_mach t = \<lparr>m_t = t\<lparr>ref_count := 2, kicked := False\<rparr>, m_pc = (\<lambda>_. Running), m_calls = [], m_closed = [],
     m_posted = 0, m_freed = False\<rparr>"

section \<open>Properties of the shutdown\<close>

text \<open>The whole state as a function of where the two threads are.\<close>

definition past_kick :: "pc \<Rightarrow> bool" where
  "past_kick p \<longleftrightarrow> p = AtCall \<or> p = AtUnref \<or> p = Finished"

definition all_finished :: "tmach \<Rightarrow> bool" where
  "all_finished m \<longleftrightarrow> m_pc m InThread = Finished \<and> m_pc m OutThread = Finished"

definition kick_called :: "tmach \<Rightarrow> bool" where
  "kick_called m \<longleftrightarrow> kicked (m_t m) \<and> m_pc m InThread \<noteq> AtCall \<and> m_pc m OutThread \<noteq> AtCall"

definition mach_inv :: "atransport \<Rightarrow> tmach \<Rightarrow> bool" where
  "mach_inv t m \<longleftrightarrow>
     (kicked (m_t m) \<longleftrightarrow> past_kick (m_pc m InThread) \<or> past_kick (m_pc m OutThread)) \<and>
     \<not> (m_pc m InThread = AtCall \<and> m_pc m OutThread = AtCall) \<and>
     ref_count (m_t m) = (if m_pc m InThread = Finished then 0 else 1) + (if m_pc m OutThread = Finished then 0 else 1) \<and>
     m_calls m = (if kick_called m then [CallKick] else []) @ (if all_finished m then [CallClose, PostRemove] else []) \<and>
     m_posted m = (if all_finished m \<and> \<not> m_freed m then 1 else 0) \<and> (m_freed m \<longrightarrow> all_finished m) \<and>
     t_ops (m_t m) = t_ops t \<and> t_fd (m_t m) = t_fd t \<and>
     sfd (m_t m) = (if t_ops t = SocketOps \<and> kick_called m then -1 else sfd t) \<and>
     m_closed m = (if t_ops t = SocketOps then (if kick_called m then [sfd t] else []) @
         (if all_finished m then [t_fd t] else []) else []) @ (if m_freed m then [t_fd t] else [])"

lemmas mach_simps = mach_inv_def past_kick_def all_finished_def kick_called_def

lemma mach_inv_fresh: "mach_inv t (fresh_mach t)"
  by (simp add: mach_simps fresh_mach_def)

lemma thread_step_inv:
  assumes "mach_inv t m" and "m_pc m th \<noteq> Finished"
  shows "mach_inv t (thread_step th m)"
proof (cases th)
  case InThread
  show ?thesis
    by (cases "m_pc m InThread"; cases "m_pc m OutThread")
      (use assms InThread in \<open>simp_all add: mach_simps thread_step_def transport_unref_locked_def remote_kick_def
        remote_close_def remove_transport_def Let_def\<close>)
next
  case OutThread
  show ?thesis
    by (cases "m_pc m OutThread"; cases "m_pc m InThread")
      (use assms OutThread in \<open>simp_all add: mach_simps thread_step_def transport_unref_locked_def remote_kick_def
        remote_close_def remove_transport_def Let_def\<close>)
qed

lemma mstep_inv: "mstep m m' \<Longrightarrow> mach_inv t m \<Longrightarrow> mach_inv t m'"
proof (induction rule: mstep.induct)
  case (thread m th)
  then show ?case by (intro thread_step_inv)
next
  case (event_loop m)
  then show ?case by (auto simp: mach_simps registration_remove_def split: if_splits)
qed

lemma reachable_inv: "mstep\<^sup>*\<^sup>* (fresh_mach t) m \<Longrightarrow> mach_inv t m"
  by (induction rule: rtranclp_induct) (auto intro: mach_inv_fresh mstep_inv)

lemma mach_invD:
  assumes "mach_inv t m"
  shows "all_finished m \<longrightarrow> kick_called m"
    and "m_calls m = (if kick_called m then [CallKick] else []) @ (if all_finished m then [CallClose, PostRemove] else [])"
    and "m_posted m = (if all_finished m \<and> \<not> m_freed m then 1 else 0)" and "m_freed m \<longrightarrow> all_finished m"
    and "m_closed m = (if t_ops t = SocketOps then (if kick_called m then [sfd t] else []) @
         (if all_finished m then [t_fd t] else []) else []) @ (if m_freed m then [t_fd t] else [])"
proof -
  from assms have k: "kicked (m_t m) \<longleftrightarrow> past_kick (m_pc m InThread) \<or> past_kick (m_pc m OutThread)"
    unfolding mach_inv_def by blast
  then show "all_finished m \<longrightarrow> kick_called m" by (simp add: all_finished_def kick_called_def past_kick_def)
qed (use assms in \<open>unfold mach_inv_def, blast+\<close>)

text \<open>C13: in every interleaving of the two threads and the event loop, a transport is kicked at most once,
  closed at most once and only after the kick, its removal is posted at most once and only after it
  is closed, and it is freed only when both threads are past their last use of it.\<close>

theorem transport_shutdown_order:
  assumes "mstep\<^sup>*\<^sup>* (fresh_mach t) m"
  shows "prefix (m_calls m) [CallKick, CallClose, PostRemove] \<and> m_posted m \<le> 1 \<and>
    (m_freed m \<or> CallClose \<in> set (m_calls m) \<longrightarrow> all_finished m)"
  using mach_invD(1-4) [OF reachable_inv [OF assms]] by (cases "kick_called m"; cases "all_finished m") simp_all

fun pc_rank :: "pc \<Rightarrow> nat" where
  "pc_rank Running = 5" | "pc_rank AtTest = 4" | "pc_rank AtLock = 3" | "pc_rank AtCall = 2"
| "pc_rank AtUnref = 1" | "pc_rank Finished = 0"

definition mach_rank :: "tmach \<Rightarrow> nat" where
  "mach_rank m = 2 * (pc_rank (m_pc m InThread) + pc_rank (m_pc m OutThread)) + m_posted m"

lemma mstep_rank: "mstep m m' \<Longrightarrow> mach_rank m' < mach_rank m"
proof (induction rule: mstep.induct)
  case (thread m th)
  then show ?case
    by (cases th; cases "m_pc m th")
      (auto simp: mach_rank_def thread_step_def transport_unref_locked_def remote_kick_def remote_close_def
        remove_transport_def Let_def)
next
  case (event_loop m)
  then show ?case by (simp add: mach_rank_def registration_remove_def)
qed

lemma mstep_stuck:
  assumes "mach_inv t m" and "\<nexists>m'. mstep m m'"
  shows "all_finished m \<and> m_freed m"
proof -
  have f: "m_pc m th = Finished" for th using assms(2) mstep.thread [of m th] by blast
  have "m_posted m = 0" using assms(2) mstep.event_loop [of m] by auto
  with f mach_invD(3) [OF assms(1)] show ?thesis by (simp add: all_finished_def split: if_splits)
qed


lemma thread_steps: "mstep\<^sup>*\<^sup>* m ((thread_step th ^^ n) m)"
proof (induction n)
  case (Suc n)
  let ?m = "(thread_step th ^^ n) m"
  have "mstep\<^sup>*\<^sup>* ?m (thread_step th ?m)"
  proof (cases "m_pc ?m th = Finished")
    case True
    then show ?thesis by (simp add: thread_step_def)
  next
    case False
    then show ?thesis by (intro r_into_rtranclp mstep.thread)
  qed
  with Suc show ?case by simp
qed simp

text \<open>A complete run: the input thread first, then the output thread, then the event loop.\<close>

definition sample_end :: tmach where
  "sample_end = registration_remove ((thread_step OutThread ^^ 3) ((thread_step InThread ^^ 5)
     (fresh_mach (zero_transport\<lparr>t_ops := SocketOps, sfd := 8, t_fd := 9\<rparr>))))"

lemma sample_end_reached: "mstep\<^sup>*\<^sup>* (fresh_mach (zero_transport\<lparr>t_ops := SocketOps, sfd := 8, t_fd := 9\<rparr>)) sample_end"
  and sample_end_stuck: "\<nexists>m'. mstep sample_end m'"
proof -
  let ?t = "zero_transport\<lparr>t_ops := SocketOps, sfd := 8, t_fd := 9\<rparr>"
  let ?m = "(thread_step OutThread ^^ 3) ((thread_step InThread ^^ 5) (fresh_mach ?t))"
  have r: "mstep\<^sup>*\<^sup>* (fresh_mach ?t) ?m" by (rule rtranclp_trans [OF thread_steps thread_steps])
  have p: "m_posted ?m = 1" "m_pc ?m th = Finished" for th
    by (cases th; simp add: numeral_eq_Suc thread_step_def fresh_mach_def transport_unref_locked_def remote_kick_def
        remote_close_def remove_transport_def Let_def)+
  then have "mstep ?m sample_end" unfolding sample_end_def by (intro mstep.event_loop) simp
  with r show "mstep\<^sup>*\<^sup>* (fresh_mach ?t) sample_end" by (rule rtranclp.rtrancl_into_rtrancl)
  show "\<nexists>m'. mstep sample_end m'"
    unfolding sample_end_def using p by (auto simp: registration_remove_def elim!: mstep.cases)
qed

theorem transport_shutdown_order_witness:
  "prefix (m_calls sample_end) [CallKick, CallClose, PostRemove] \<and> m_posted sample_end \<le> 1 \<and> all_finished sample_end"
  using transport_shutdown_order [OF sample_end_reached] by (simp add: sample_end_def registration_remove_def)


section \<open>Properties of the transfer\<close>

definition is_sync :: "apacket \<Rightarrow> bool" where
  "is_sync p \<longleftrightarrow> command (a_msg p) = A_SYNC"

definition sync_end :: "apacket \<Rightarrow> bool" where
  "sync_end p \<longleftrightarrow> is_sync p \<and> arg0 (a_msg p) = 0"

definition sync_go :: "u32 \<Rightarrow> apacket \<Rightarrow> bool" where
  "sync_go tok p \<longleftrightarrow> is_sync p \<and> arg0 (a_msg p) \<noteq> 0 \<and> arg1 (a_msg p) = tok"

lemma input_loop_active:
  "input_loop tok True ps = filter (\<lambda>p. \<not> is_sync p) (takeWhile (\<lambda>p. \<not> sync_end p) ps)"
  by (induction ps) (auto simp: is_sync_def sync_end_def)

lemma input_loop_idle:
  "\<forall>p \<in> set ps. \<not> sync_go tok p \<Longrightarrow> input_loop tok False ps = []"
  by (induction ps) (auto simp: is_sync_def sync_go_def)

lemma input_loop_skip:
  "\<forall>p \<in> set pre. \<not> sync_end p \<and> \<not> sync_go tok p \<Longrightarrow> input_loop tok False (pre @ ps) = input_loop tok False ps"
  by (induction pre) (auto simp: is_sync_def sync_end_def sync_go_def)

text \<open>C22: nothing reaches the remote side before the handshake. The input thread drops every packet
  until the SYNC with its own token has come back from the event loop; from then on it passes on,
  in order, every packet that is no SYNC, up to the SYNC that ends the connection.\<close>

theorem input_thread_gate:
  assumes "\<forall>p \<in> set pre. \<not> sync_end p \<and> \<not> sync_go tok p" and "sync_go tok s"
  shows "input_thread tok pre = [] \<and> input_thread tok (pre @ s # post) =
    filter (\<lambda>p. \<not> is_sync p) (takeWhile (\<lambda>p. \<not> sync_end p) post)"
proof -
  have "input_loop tok False (s # post) = input_loop tok True post"
    using assms(2) by (simp add: sync_go_def is_sync_def)
  with assms(1) show ?thesis
    by (simp add: input_thread_def input_loop_idle input_loop_skip input_loop_active)
qed

lemma sync_packet_go: "sync_go tok (sync_packet p 1 tok)"
  by (simp add: sync_go_def is_sync_def sync_packet_def)

theorem input_thread_gate_witness:
  "input_thread 2 [sample_packet] = [] \<and> input_thread 2 ([sample_packet] @ sync_packet sample_packet 1 2 # [sample_packet]) =
    filter (\<lambda>p. \<not> is_sync p) (takeWhile (\<lambda>p. \<not> sync_end p) [sample_packet])"
  by (rule input_thread_gate [OF _ sync_packet_go])
    (simp add: sample_packet_def sync_end_def sync_go_def is_sync_def A_SYNC_def A_WRTE_def)

lemma output_loop_take: "output_loop fresh reads room = take room (reads @ [sync_packet fresh 0 0])"
  by (induction fresh reads room rule: output_loop.induct) (auto simp: take_Cons')

text \<open>The output thread brackets what it reads. When no write fails, the event loop gets a SYNC
  with the new token, then every packet of the remote side in order, then the SYNC that ends the
  connection, and nothing else; a failing write cuts this sequence short.\<close>

lemma output_thread_brackets:
  "output_thread fresh tok reads room =
    (take room (sync_packet fresh 1 (tok + 1) # reads @ [sync_packet fresh 0 0]), tok + 1)"
  by (simp add: output_thread_def Let_def output_loop_take take_Cons')

end
