(* ===== verification/SmartSocket.thy ===== *)
theory SmartSocket
  imports Strings Packet
begin

text \<open>
  The text protocol of the smart socket (\<open>sockets.c\<close>): the hexadecimal length prefix (\<open>unhex\<close>), failure
  messages (\<open>sendfailmsg\<close>), the length of a serial in a service name (\<open>skip_host_serial\<close>), and the way
  a request is put together from the packets that carry it.
\<close>

unbundle bit_operations_syntax

section \<open>Numbers\<close>

text \<open>The value of one digit, as the \<open>switch\<close> computes it; \<open>None\<close> is its \<open>default\<close>.\<close>

definition hex_value :: "u8 \<Rightarrow> u32 option" where
  "hex_value c =
    (if 48 \<le> c \<and> c \<le> 57 then Some (ucast c - 48)
     else if 97 \<le> c \<and> c \<le> 102 then Some (ucast c - 97 + 10)
     else if 65 \<le> c \<and> c \<le> 70 then Some (ucast c - 65 + 10)
     else None)"

fun unhex_loop :: "bytes \<Rightarrow> nat \<Rightarrow> u32 \<Rightarrow> u32 outcome" where
  "unhex_loop s 0 n = Inr n"
| "unhex_loop [] (Suc len) n = Inl OutOfBounds"
| "unhex_loop (c # s) (Suc len) n = (case hex_value c of
       None \<Rightarrow> Inr 0xffffffff
     | Some v \<Rightarrow> unhex_loop s len (push_bit 4 n OR v))"

definition unhex :: "bytes \<Rightarrow> nat \<Rightarrow> u32 outcome" where
  "unhex s len = unhex_loop s len 0"

section \<open>Failure messages\<close>

definition sendfailmsg :: "int \<Rightarrow> string \<Rightarrow> world \<Rightarrow> (int \<times> world) outcome" where
  "sendfailmsg fd reason w =
    (let len = min (length reason) 0xffff in
     andthen (writex fd (bytes_of (''FAIL'' @ hex4 len)) w) (\<lambda>(ok, w1).
       if \<not> ok then Inr (-1, w1)
       else andthen (writex fd (bytes_of (take len reason)) w1) (\<lambda>(ok2, w2). Inr (if ok2 then 0 else -1, w2))))"

section \<open>Serials in service names\<close>

definition prefixes :: "string list" where
  "prefixes = [''usb:'', ''product:'', ''model:'', ''device:'']"

fun skip_prefixes :: "string list \<Rightarrow> string \<Rightarrow> string option option" where
  "skip_prefixes [] service = None"
| "skip_prefixes (p # ps) service =
    (if starts_with p service then Some (strchr (drop (length p) service) (CHR '':'')) else skip_prefixes ps service)"

text \<open>The result is the rest of the name from the colon that ends the serial.\<close>

definition skip_host_serial :: "string \<Rightarrow> string option" where
  "skip_host_serial service = (case skip_prefixes prefixes service of
       Some r \<Rightarrow> r
     | None \<Rightarrow>
         (case strchr service (CHR '':'') of
            None \<Rightarrow> None
          | Some first_colon \<Rightarrow>
              let after = tl first_colon in
              if after \<noteq> [] \<and> is_digit (hd after) then
                let serial_end = dropWhile is_digit after in
                Some (if serial_end \<noteq> [] \<and> hd serial_end = CHR '':'' then serial_end else first_colon)
              else Some first_colon))"

section \<open>Requests\<close>

text \<open>The first part of \<open>smart_socket_enqueue\<close>: the packet is kept, or appended to the one kept before;
  \<open>Inl\<close> is the branch to \<open>fail\<close>.\<close>

definition smart_collect :: "apacket option \<Rightarrow> apacket \<Rightarrow> (unit + apacket) outcome" where
  "smart_collect kept p = (case kept of
       None \<Rightarrow> Inr (Inr p)
     | Some q \<Rightarrow>
         if a_len q + a_len p > word_of_nat MAX_PAYLOAD then Inr (Inl ())
         else
           let n = unat (a_len q); k = unat (a_len p) in
           if n + k > length (a_data q) \<or> k > length (a_data p) then Inl OutOfBounds
           else Inr (Inr (q\<lparr>a_data := take n (a_data q) @ take k (a_data p) @ drop (n + k) (a_data q),
                            a_len := a_len q + a_len p\<rparr>)))"

datatype smart_request = NeedMore | BadRequest | Request string

text \<open>The second part: the length prefix and the service name; the packet with the zero byte written.\<close>

definition smart_decode :: "apacket \<Rightarrow> (smart_request \<times> apacket) outcome" where
  "smart_decode p =
    (if a_len p < 4 then Inr (NeedMore, p)
     else andthen (unhex (a_data p) 4) (\<lambda>len.
       if len < 1 \<or> len > 1024 then Inr (BadRequest, p)
       else if len + 4 > a_len p then Inr (NeedMore, p)
       else
         let i = unat (len + 4) in
         if i \<ge> length (a_data p) then Inl OutOfBounds
         else
           let data = (a_data p)[i := 0] in
           andthen (cstr (drop 4 data)) (\<lambda>name. Inr (Request name, p\<lparr>a_data := data\<rparr>))))"

section \<open>Lemmas\<close>

lemma hex_value_digit: "n < 16 \<Longrightarrow> hex_value (byte_of (hex_digit n)) = Some (word_of_nat n)"
proof -
  have "[0..<16] = [0, 1, 2, 3, 4, 5, 6, 7, 8, 9, 10, 11, 12, 13, 14, 15]" by (simp add: upt_rec)
  moreover have "\<forall>n \<in> set [0, 1, 2, 3, 4, 5, 6, 7, 8, 9, 10, 11, 12, 13, 14, 15].
      hex_value (byte_of (hex_digit n)) = Some (word_of_nat n)"
    by (simp add: hex_digit_def byte_of_def hex_value_def)
  ultimately have "\<forall>n \<in> set [0..<16]. hex_value (byte_of (hex_digit n)) = Some (word_of_nat n)" by metis
  then show "n < 16 \<Longrightarrow> ?thesis" by simp
qed

lemma or_push4:
  assumes "m < 16" and "n < 2 ^ 28"
  shows "push_bit 4 (word_of_nat n :: u32) OR word_of_nat m = word_of_nat (16 * n + m)"
proof -
  have "push_bit 4 (word_of_nat n :: u32) AND word_of_nat m = 0"
  proof (rule bit_word_eqI)
    fix i assume "i < LENGTH(32)"
    have "take_bit 4 m = m" using assms(1) by (simp add: take_bit_nat_eq_self_iff)
    then have "\<not> bit m i" if "4 \<le> i" using that by (metis bit_take_bit_iff not_less)
    then have "\<not> bit (word_of_nat m :: u32) i" if "4 \<le> i" using that by (simp add: bit_simps)
    then show "bit (push_bit 4 (word_of_nat n :: u32) AND word_of_nat m) i = bit 0 i"
      by (auto simp: bit_simps)
  qed
  then have "push_bit 4 (word_of_nat n :: u32) OR word_of_nat m = push_bit 4 (word_of_nat n) + word_of_nat m"
    by (simp add: disjunctive_add_eq_or)
  also have "\<dots> = word_of_nat (16 * n + m)" by (simp add: push_bit_eq_mult)
  finally show ?thesis .
qed

lemma unhex_loop_digit:
  "a < 2 ^ 28 \<Longrightarrow> unhex_loop (byte_of (hex_digit (m mod 16)) # s) (Suc len) (word_of_nat a) =
    unhex_loop s len (word_of_nat (16 * a + m mod 16))"
  using or_push4 [of "m mod 16" a] by (simp add: hex_value_digit del: of_nat_add of_nat_mult)

lemma hex4_value:
  assumes "(n :: nat) < 65536"
  shows "16 * (16 * (16 * (n div 4096 mod 16) + n div 256 mod 16) + n div 16 mod 16) + n mod 16 = n"
proof -
  have "16 * (n div 16) + n mod 16 = n" "16 * (n div 16 div 16) + n div 16 mod 16 = n div 16"
    "16 * (n div 16 div 16 div 16) + n div 16 div 16 mod 16 = n div 16 div 16"
    by (rule mult_div_mod_eq)+
  moreover have "n div 16 div 16 = n div 256" "n div 256 div 16 = n div 4096" by (simp_all flip: div_mult2_eq)
  moreover have "n div 4096 mod 16 = n div 4096" using assms by simp
  ultimately show ?thesis by simp
qed

lemma unhex_hex4_from:
  assumes "n < 65536"
  shows "unhex (bytes_of (hex4 n) @ r) 4 = Inr (word_of_nat n)"
proof -
  have four: "(4 :: nat) = Suc (Suc (Suc (Suc 0)))" by simp
  let ?d = "\<lambda>m. byte_of (hex_digit (m mod 16))"
  let ?a = "16 * 0 + n div 4096 mod 16"
  let ?b = "16 * ?a + n div 256 mod 16"
  let ?c = "16 * ?b + n div 16 mod 16"
  have "k mod 16 < (16 :: nat)" for k by simp
  from this [of "n div 4096"] this [of "n div 256"] this [of "n div 16"]
  have bounds: "?a < 2 ^ 28" "?b < 2 ^ 28" "?c < 2 ^ 28" by simp_all
  have "unhex (bytes_of (hex4 n) @ r) 4 =
      unhex_loop (?d (n div 4096) # ?d (n div 256) # ?d (n div 16) # ?d n # r) (Suc (Suc (Suc (Suc 0)))) (word_of_nat 0)"
    by (simp add: unhex_def bytes_of_def hex4_def four del: unhex_loop.simps)
  also have "\<dots> = unhex_loop r 0 (word_of_nat (16 * ?c + n mod 16))"
    using bounds by (simp only: unhex_loop_digit [of 0, simplified] unhex_loop_digit)
  also have "16 * ?c + n mod 16 = n" using hex4_value [OF assms] by (simp only: mult_0_right add_0_left)
  finally show ?thesis by (simp only: unhex_loop.simps(1))
qed

section \<open>Requests in pieces\<close>

text \<open>The packets a client sends one after the other, each through \<open>smart_socket_enqueue\<close>.\<close>

fun smart_run :: "apacket option \<Rightarrow> apacket list \<Rightarrow> smart_request outcome" where
  "smart_run kept [] = Inr NeedMore"
| "smart_run kept (p # ps) = andthen (smart_collect kept p) (\<lambda>c. case c of
       Inl _ \<Rightarrow> Inr BadRequest
     | Inr q \<Rightarrow> andthen (smart_decode q) (\<lambda>(r, q'). if r = NeedMore then smart_run (Some q') ps else Inr r))"

definition payload :: "apacket \<Rightarrow> bytes" where
  "payload p = take (unat (a_len p)) (a_data p)"

definition whole :: "apacket \<Rightarrow> bool" where
  "whole p \<longleftrightarrow> length (a_data p) = MAX_PAYLOAD \<and> unat (a_len p) \<le> MAX_PAYLOAD"

definition collected :: "apacket option \<Rightarrow> bytes" where
  "collected kept = (case kept of None \<Rightarrow> [] | Some q \<Rightarrow> payload q)"

definition request_bytes :: "string \<Rightarrow> bytes" where
  "request_bytes name = bytes_of (hex4 (length name) @ name)"

lemma whole_length: "whole p \<Longrightarrow> length (payload p) = unat (a_len p)"
  by (simp add: whole_def payload_def)

lemma unat_add_le:
  "unat (a :: u32) + unat b \<le> 4096 \<Longrightarrow> unat (a + b) = unat a + unat b"
  by (simp add: unat_word_ariths)

lemma smart_collect_payload:
  assumes "\<forall>q. kept = Some q \<longrightarrow> whole q" and p: "whole p"
    and room: "length (collected kept) + length (payload p) \<le> MAX_PAYLOAD"
  obtains q where "smart_collect kept p = Inr (Inr q)" and "whole q" and "payload q = collected kept @ payload p"
proof (cases kept)
  case None
  then show ?thesis using that p by (simp add: smart_collect_def collected_def)
next
  case (Some k)
  with assms(1) have k: "whole k" by simp
  let ?n = "unat (a_len k)" and ?m = "unat (a_len p)"
  have le: "?n + ?m \<le> 4096" using room whole_length [OF k] whole_length [OF p]
    by (simp add: collected_def Some MAX_PAYLOAD_def)
  note u = unat_add_le [OF le]
  have "\<not> a_len k + a_len p > word_of_nat MAX_PAYLOAD"
    using le u by (simp add: word_less_nat_alt MAX_PAYLOAD_def)
  then have "smart_collect kept p = Inr (Inr (k\<lparr>a_data := take ?n (a_data k) @ take ?m (a_data p) @ drop (?n + ?m) (a_data k),
      a_len := a_len k + a_len p\<rparr>))" (is "_ = Inr (Inr ?q)")
    using k p le by (simp add: smart_collect_def Some Let_def whole_def MAX_PAYLOAD_def)
  moreover have "whole ?q" "payload ?q = collected kept @ payload p"
    using k p le u by (simp_all add: whole_def payload_def collected_def Some MAX_PAYLOAD_def)
  ultimately show ?thesis using that by blast
qed

lemma u32_small: "n \<le> 1024 \<Longrightarrow> unat (word_of_nat n :: u32) = n" "n \<le> 1024 \<Longrightarrow> unat (word_of_nat n + 4 :: u32) = n + 4"
  by (simp_all add: unat_of_nat take_bit_eq_mod unat_word_ariths)

lemma decode_prefix:
  assumes q: "whole q" and n: "1 \<le> length name" "length name \<le> 1024" and nul: "CHR 0x00 \<notin> set name"
    and pre: "request_bytes name = payload q @ rest"
  shows "\<exists>q'. smart_decode q = Inr (if rest = [] then Request name else NeedMore, q') \<and> (rest \<noteq> [] \<longrightarrow> q' = q)"
proof -
  let ?n = "length name"
  have len: "length (request_bytes name) = ?n + 4" by (simp add: request_bytes_def)
  then have l: "unat (a_len q) + length rest = ?n + 4" using arg_cong [OF pre, of length] whole_length [OF q] by simp
  show ?thesis
  proof (cases "a_len q < 4")
    case True
    then have "rest \<noteq> []" using l by (auto simp: word_less_nat_alt)
    with True show ?thesis by (simp add: smart_decode_def)
  next
    case False
    then have four: "4 \<le> unat (a_len q)" by (simp add: word_less_nat_alt)
    have "take 4 (a_data q) = bytes_of (hex4 ?n)"
    proof -
      have "take 4 (a_data q) = take 4 (payload q)" using four by (simp add: payload_def min_absorb1)
      also have "\<dots> = take 4 (request_bytes name)" using four whole_length [OF q] by (simp add: pre)
      finally show ?thesis by (simp add: request_bytes_def bytes_of_def)
    qed
    then have data: "a_data q = bytes_of (hex4 ?n) @ drop 4 (a_data q)" by (metis append_take_drop_id)
    have u: "unhex (a_data q) 4 = Inr (word_of_nat ?n)"
      using n unhex_hex4_from [of ?n "drop 4 (a_data q)"] data by simp
    note w = u32_small [OF n(2)]
    have ok: "\<not> ((word_of_nat ?n :: u32) < 1 \<or> (word_of_nat ?n :: u32) > 1024)"
      using n w(1) by (auto simp: word_less_nat_alt)
    have more: "(word_of_nat ?n + 4 :: u32) > a_len q \<longleftrightarrow> rest \<noteq> []"
      using l w(2) by (cases rest) (auto simp: word_less_nat_alt)
    show ?thesis
    proof (cases "rest = []")
      case False
      then show ?thesis using \<open>\<not> a_len q < 4\<close> u ok more by (simp add: smart_decode_def)
    next
      case True
      have "payload q = bytes_of (hex4 ?n) @ bytes_of name" using pre True by (simp add: request_bytes_def bytes_of_def)
      moreover have "unat (a_len q) = ?n + 4" using l True by simp
      ultimately have "a_data q = bytes_of (hex4 ?n) @ bytes_of name @ drop (?n + 4) (a_data q)"
        unfolding payload_def by (metis append.assoc append_take_drop_id)
      moreover have "?n + 4 < length (a_data q)" using q n by (simp add: whole_def MAX_PAYLOAD_def)
      then have "drop (?n + 4) (a_data q) = (a_data q ! (?n + 4)) # drop (?n + 5) (a_data q)"
        using Cons_nth_drop_Suc [of "?n + 4" "a_data q"] by (simp add: add.commute)
      ultimately have eq: "a_data q = bytes_of (hex4 ?n) @ bytes_of name @ (a_data q ! (?n + 4)) # drop (?n + 5) (a_data q)"
        by metis
      have "(a_data q)[?n + 4 := 0] = bytes_of (hex4 ?n) @ bytes_of name @ 0 # drop (?n + 5) (a_data q)"
        by (subst eq) (simp add: list_update_append)
      then have "drop 4 ((a_data q)[?n + 4 := 0]) = bytes_of name @ 0 # drop (?n + 5) (a_data q)" by simp
      then have "cstr (drop 4 ((a_data q)[?n + 4 := 0])) = Inr name" using cstr_bytes_of [OF nul] by simp
      with True \<open>\<not> a_len q < 4\<close> u ok more w(2) \<open>?n + 4 < length (a_data q)\<close> show ?thesis
        by (auto simp: smart_decode_def Let_def)
    qed
  qed
qed

lemma smart_run_pieces:
  assumes n: "1 \<le> length name" "length name \<le> 1024" and nul: "CHR 0x00 \<notin> set name"
  shows "\<forall>q. kept = Some q \<longrightarrow> whole q \<Longrightarrow> \<forall>p \<in> set ps. whole p \<Longrightarrow> \<forall>p \<in> set ps. payload p \<noteq> [] \<Longrightarrow> ps \<noteq> [] \<Longrightarrow>
    collected kept @ concat (map payload ps) = request_bytes name \<Longrightarrow> smart_run kept ps = Inr (Request name)"
proof (induction ps arbitrary: kept)
  case (Cons p ps)
  have len: "length (request_bytes name) = length name + 4" by (simp add: request_bytes_def)
  have split: "request_bytes name = (collected kept @ payload p) @ concat (map payload ps)"
    using Cons.prems(5) by simp
  have "length (collected kept) + length (payload p) \<le> MAX_PAYLOAD"
    using arg_cong [OF split, of length] len n(2) by (simp add: MAX_PAYLOAD_def)
  with Cons.prems(1,2) obtain q where q: "smart_collect kept p = Inr (Inr q)" "whole q"
    "payload q = collected kept @ payload p"
    by (auto elim: smart_collect_payload)
  from decode_prefix [OF q(2) n nul, of "concat (map payload ps)"] split q(3) obtain q' where
    d: "smart_decode q = Inr (if concat (map payload ps) = [] then Request name else NeedMore, q')"
    "concat (map payload ps) \<noteq> [] \<longrightarrow> q' = q"
    by auto
  show ?case
  proof (cases "ps = []")
    case True
    then show ?thesis using q d by simp
  next
    case False
    with Cons.prems(3) have "concat (map payload ps) \<noteq> []" by (cases ps) auto
    with d have d': "smart_decode q = Inr (NeedMore, q)" by simp
    have "smart_run (Some q) ps = Inr (Request name)"
      by (rule Cons.IH) (use Cons.prems q split False in \<open>auto simp: collected_def\<close>)
    with q(1) d' show ?thesis by simp
  qed
qed simp

section \<open>Properties\<close>

text \<open>The length prefix of the protocol is read back as written: \<open>unhex\<close> inverts \<open>%04x\<close> on every
  length below 65536.\<close>

lemma unhex_hex4:
  assumes "n < 65536"
  shows "unhex (bytes_of (hex4 n) @ rest) 4 = Inr (word_of_nat n)"
  using unhex_hex4_from [OF assms] .

text \<open>C21: a request to the smart socket may arrive in any pieces. However a service name of 1 to 1024
  characters with its length prefix is cut into non-empty packets, every packet but the last leaves
  the socket waiting, and the last one makes it recognise exactly that name; no byte outside the
  payload buffers is touched on the way.\<close>

theorem smart_request_pieces:
  assumes "1 \<le> length name" and "length name \<le> 1024" and "CHR 0x00 \<notin> set name"
    and "\<forall>p \<in> set ps. whole p \<and> payload p \<noteq> []" and "concat (map payload ps) = request_bytes name"
  shows "smart_run None ps = Inr (Request name)"
proof -
  have "ps \<noteq> []" using assms(5) by (auto simp: request_bytes_def bytes_of_def hex4_def)
  then show ?thesis using smart_run_pieces [OF assms(1-3), of None ps] assms(4,5) by (simp add: collected_def)
qed

definition piece :: "string \<Rightarrow> apacket" where
  "piece s = \<lparr>a_len = word_of_nat (length s), a_ptr = 0, a_msg = zero_msg,
     a_data = bytes_of s @ replicate (MAX_PAYLOAD - length s) 0\<rparr>"

lemma piece_whole: "length s \<le> 4096 \<Longrightarrow> whole (piece s) \<and> payload (piece s) = bytes_of s"
  by (simp add: whole_def payload_def piece_def MAX_PAYLOAD_def unat_of_nat take_bit_eq_mod)

lemma request_sync: "request_bytes ''sync:'' = bytes_of ''00'' @ bytes_of ''05sy'' @ bytes_of ''nc:''"
  by (simp add: request_bytes_def hex4_def hex_digit_def bytes_of_def byte_of_def)

theorem smart_request_pieces_witness:
  "smart_run None [piece ''00'', piece ''05sy'', piece ''nc:''] = Inr (Request ''sync:'')"
  by (rule smart_request_pieces) (simp_all add: piece_whole request_sync, simp_all add: bytes_of_def)

end
