(* ===== verification/Sockets.thy ===== *)
theory Sockets
  imports SmartSocket Transports Fdevent
begin

text \<open>
  The sockets of \<open>sockets.c\<close>: local sockets (a descriptor and a queue of packets), remote sockets (the
  other end of a stream, on a transport) and smart sockets (a client of the daemon that has not yet
  said what it wants). The sockets live in a store by address and point to their peers; the function
  pointers of a socket are names. A use of a socket that was freed, or of a null peer, stops the
  program, so a theorem that a call returns says that it touches live memory only.

  The two socket lists are the lists their rings represent (see the theory of the intrusive lists);
  the lock \<open>socket_list_lock\<close> is in the state, and taking it twice blocks. The \<open>fdevent\<close> of a socket
  has the socket's own address. A packet given to \<open>send_packet\<close> is recorded with its transport.
\<close>

section \<open>State\<close>

text \<open>The function pointers: \<open>LocalFn\<close> stands for \<open>local_socket_enqueue\<close>, \<open>local_socket_ready\<close> or
  \<open>local_socket_close\<close>, by the field it is in, and so on.\<close>

datatype sockfn = LocalFn | NotifyFn | RemoteFn | SmartFn

record asocket =
  s_id :: u32
  closing :: bool
  exit_on_close :: bool
  peer :: addr
  s_fd :: int
  pkts :: "apacket list" \<comment> \<open>the chain from \<open>pkt_first\<close> to \<open>pkt_last\<close>\<close>
  enqueue :: sockfn
  ready :: sockfn
  close :: sockfn
  s_transport :: addr

definition zero_socket :: asocket where
  "zero_socket = \<lparr>s_id = 0, closing = False, exit_on_close = False, peer = 0, s_fd = 0, pkts = [],
     enqueue = LocalFn, ready = LocalFn, close = LocalFn, s_transport = 0\<rparr>"

record dstate =
  socks :: "addr \<Rightarrow> asocket option"
  sock_list :: "addr list" \<comment> \<open>\<open>local_socket_list\<close>\<close>
  closing_list :: "addr list" \<comment> \<open>\<open>local_socket_closing_list\<close>\<close>
  next_id :: u32
  sock_lock :: bool
  trans :: "addr \<Rightarrow> atransport option"
  trans_list :: "addr list" \<comment> \<open>\<open>transport_list\<close>\<close>
  evl :: evloop
  wld :: world
  sent :: "(addr \<times> apacket) list"
  fresh :: addr \<comment> \<open>the address the next allocation returns\<close>
  junk :: bytes \<comment> \<open>what a fresh packet holds\<close>

definition get_sock :: "addr \<Rightarrow> dstate \<Rightarrow> asocket outcome" where
  "get_sock a st = (if a = 0 then Inl NullDeref else case socks st a of None \<Rightarrow> Inl Dangling | Some s \<Rightarrow> Inr s)"

text \<open>An assignment to a field through the pointer \<open>a\<close>.\<close>

definition upd_sock :: "addr \<Rightarrow> (asocket \<Rightarrow> asocket) \<Rightarrow> dstate \<Rightarrow> dstate outcome" where
  "upd_sock a f st = andthen (get_sock a st) (\<lambda>s. Inr (st\<lparr>socks := (socks st)(a := Some (f s))\<rparr>))"

definition on_evl :: "(evloop \<Rightarrow> evloop outcome) \<Rightarrow> dstate \<Rightarrow> dstate outcome" where
  "on_evl f st = andthen (f (evl st)) (\<lambda>l. Inr (st\<lparr>evl := l\<rparr>))"

definition on_wld :: "(world \<Rightarrow> ('r \<times> world) outcome) \<Rightarrow> dstate \<Rightarrow> ('r \<times> dstate) outcome" where
  "on_wld f st = andthen (f (wld st)) (\<lambda>(r, w). Inr (r, st\<lparr>wld := w\<rparr>))"

definition new_packet :: "dstate \<Rightarrow> apacket outcome" where
  "new_packet st = get_apacket (Some (junk st))"

text \<open>\<open>send_packet\<close>: the computed fields, then the packet goes to the transport's socket pair.\<close>

definition send_packet :: "apacket \<Rightarrow> addr \<Rightarrow> dstate \<Rightarrow> dstate outcome" where
  "send_packet p t st =
    (if t = 0 then Inr st
     else andthen (seal_packet p) (\<lambda>q.
       if trans st t = None then Inl Dangling else Inr (st\<lparr>sent := sent st @ [(t, q)]\<rparr>)))"

definition with_msg :: "u32 \<Rightarrow> u32 \<Rightarrow> u32 \<Rightarrow> apacket \<Rightarrow> apacket" where
  "with_msg c a0 a1 p = p\<lparr>a_msg := (a_msg p)\<lparr>command := c, arg0 := a0, arg1 := a1\<rparr>\<rparr>"

section \<open>The lists\<close>

definition sock_locked :: "(dstate \<Rightarrow> dstate outcome) \<Rightarrow> dstate \<Rightarrow> dstate outcome" where
  "sock_locked f st = (if sock_lock st then Inl Blocked
     else andthen (f (st\<lparr>sock_lock := True\<rparr>)) (\<lambda>st'. Inr (st'\<lparr>sock_lock := False\<rparr>)))"

fun find_in :: "u32 \<Rightarrow> addr list \<Rightarrow> dstate \<Rightarrow> addr option outcome" where
  "find_in sid [] st = Inr None"
| "find_in sid (a # as) st = andthen (get_sock a st) (\<lambda>s. if s_id s = sid then Inr (Some a) else find_in sid as st)"

definition find_local_socket :: "u32 \<Rightarrow> dstate \<Rightarrow> addr option outcome" where
  "find_local_socket sid st = (if sock_lock st then Inl Blocked else find_in sid (sock_list st) st)"

definition install_local_socket :: "addr \<Rightarrow> dstate \<Rightarrow> dstate outcome" where
  "install_local_socket a st = sock_locked (\<lambda>st1.
     andthen (upd_sock a (\<lambda>s. s\<lparr>s_id := next_id st1\<rparr>) st1) (\<lambda>st2.
       Inr (st2\<lparr>next_id := next_id st1 + 1, sock_list := sock_list st2 @ [a]\<rparr>))) st"

definition remove_socket :: "addr \<Rightarrow> dstate \<Rightarrow> dstate outcome" where
  "remove_socket a st = (if a \<notin> set (sock_list st) \<union> set (closing_list st) then Inr st
     else upd_sock a (\<lambda>s. s\<lparr>s_id := 0\<rparr>)
       (st\<lparr>sock_list := remove1 a (sock_list st), closing_list := remove1 a (closing_list st)\<rparr>))"

section \<open>Closing\<close>

definition free_sock :: "addr \<Rightarrow> dstate \<Rightarrow> dstate" where
  "free_sock a st = st\<lparr>socks := (socks st)(a := None)\<rparr>"

definition local_socket_destroy :: "addr \<Rightarrow> dstate \<Rightarrow> dstate outcome" where
  "local_socket_destroy a st = andthen (get_sock a st) (\<lambda>s.
     andthen (on_evl (fdevent_remove a) st) (\<lambda>st1.
     andthen (remove_socket a st1) (\<lambda>st2.
       if exit_on_close s then Inl (Exit 1) else Inr (free_sock a st2))))"

text \<open>\<open>remove_transport_disconnect(s->transport,...)\<close> for the node of the remote socket \<open>a\<close>.\<close>

definition drop_disconnect :: "addr \<Rightarrow> addr \<Rightarrow> dstate \<Rightarrow> dstate" where
  "drop_disconnect t a st = st\<lparr>trans := (trans st)(t := map_option (\<lambda>x. x\<lparr>disconnects := remove1 a (disconnects x)\<rparr>) (trans st t))\<rparr>"

text \<open>The close functions call each other through the pointers: \<open>rec\<close> is the call \<open>x->close(x)\<close>.\<close>

definition local_socket_close :: "(addr \<Rightarrow> dstate \<Rightarrow> dstate outcome) \<Rightarrow> addr \<Rightarrow> dstate \<Rightarrow> dstate outcome" where
  "local_socket_close close_locked a st = sock_locked (close_locked a) st"

definition local_socket_close_notify :: "(addr \<Rightarrow> dstate \<Rightarrow> dstate outcome) \<Rightarrow> addr \<Rightarrow> dstate \<Rightarrow> dstate outcome" where
  "local_socket_close_notify rec a st = andthen (get_sock a st) (\<lambda>s.
     andthen (upd_sock a (\<lambda>s. s\<lparr>ready := LocalFn, close := LocalFn\<rparr>) st) (\<lambda>st1.
     andthen (on_wld (sendfailmsg (s_fd s) ''closed'') st1) (\<lambda>(_, st2). rec a st2)))"

definition remote_socket_close :: "(addr \<Rightarrow> dstate \<Rightarrow> dstate outcome) \<Rightarrow> addr \<Rightarrow> dstate \<Rightarrow> dstate outcome" where
  "remote_socket_close rec a st = andthen (get_sock a st) (\<lambda>s. andthen (new_packet st) (\<lambda>p.
     andthen
       (if peer s \<noteq> 0 then
          andthen (get_sock (peer s) st) (\<lambda>q.
          andthen (upd_sock (peer s) (\<lambda>x. x\<lparr>peer := 0\<rparr>) st) (\<lambda>st1.
          andthen (rec (peer s) st1) (\<lambda>st2. Inr (s_id q, st2))))
        else Inr (0, st))
       (\<lambda>(sid, st3).
     andthen (get_sock a st3) (\<lambda>s3.
     andthen (send_packet (with_msg A_CLSE sid (s_id s3) p) (s_transport s3) st3) (\<lambda>st4.
       Inr (free_sock a (drop_disconnect (s_transport s3) a st4)))))))"

definition smart_socket_close :: "(addr \<Rightarrow> dstate \<Rightarrow> dstate outcome) \<Rightarrow> addr \<Rightarrow> dstate \<Rightarrow> dstate outcome" where
  "smart_socket_close rec a st = andthen (get_sock a st) (\<lambda>s.
     andthen
       (if peer s \<noteq> 0 then
          andthen (upd_sock (peer s) (\<lambda>x. x\<lparr>peer := 0\<rparr>) st) (\<lambda>st1.
          andthen (rec (peer s) st1) (upd_sock a (\<lambda>x. x\<lparr>peer := 0\<rparr>)))
        else Inr st)
       (\<lambda>st2. Inr (free_sock a st2)))"

lemmas close_fn_simps [simp] =
  local_socket_close_def local_socket_close_notify_def remote_socket_close_def smart_socket_close_def

text \<open>The call through the pointer; the first argument bounds the depth of the nested calls.\<close>

fun sock_close :: "nat \<Rightarrow> addr \<Rightarrow> dstate \<Rightarrow> dstate outcome"
and local_socket_close_locked :: "nat \<Rightarrow> addr \<Rightarrow> dstate \<Rightarrow> dstate outcome" where
  "sock_close 0 a st = Inl NoFuel"
| "sock_close (Suc n) a st = andthen (get_sock a st) (\<lambda>s. case close s of
       LocalFn \<Rightarrow> local_socket_close (\<lambda>b. local_socket_close_locked n b) a st
     | NotifyFn \<Rightarrow> local_socket_close_notify (\<lambda>b. sock_close n b) a st
     | RemoteFn \<Rightarrow> remote_socket_close (\<lambda>b. sock_close n b) a st
     | SmartFn \<Rightarrow> smart_socket_close (\<lambda>b. sock_close n b) a st)"
| "local_socket_close_locked 0 a st = Inl NoFuel"
| "local_socket_close_locked (Suc n) a st = andthen (get_sock a st) (\<lambda>s.
     andthen
       (if peer s \<noteq> 0 then
          andthen (upd_sock (peer s) (\<lambda>x. x\<lparr>peer := 0\<rparr>) st) (\<lambda>st1.
          andthen (get_sock (peer s) st1) (\<lambda>q.
          andthen (if close q = LocalFn then local_socket_close_locked n (peer s) st1 else sock_close n (peer s) st1)
            (upd_sock a (\<lambda>x. x\<lparr>peer := 0\<rparr>))))
        else Inr st)
       (\<lambda>st2. andthen (get_sock a st2) (\<lambda>s2.
          if closing s2 \<or> pkts s2 = [] then local_socket_destroy a st2
          else
            andthen (upd_sock a (\<lambda>x. x\<lparr>closing := True\<rparr>) st2) (\<lambda>st3.
            andthen (on_evl (fdevent_del a FDE_READ) st3) (\<lambda>st4.
            andthen (remove_socket a st4) (\<lambda>st5.
              Inr (st5\<lparr>closing_list := closing_list st5 @ [a]\<rparr>)))))))"

text \<open>\<open>s->close(s)\<close>. A call nests at most four deep (proved below).\<close>

definition close_sock :: "addr \<Rightarrow> dstate \<Rightarrow> dstate outcome" where
  "close_sock a st = sock_close 4 a st"

definition remote_socket_disconnect :: "addr \<Rightarrow> dstate \<Rightarrow> dstate outcome" where
  "remote_socket_disconnect a st = andthen (get_sock a st) (\<lambda>s.
     andthen
       (if peer s \<noteq> 0 then
          andthen (upd_sock (peer s) (\<lambda>x. x\<lparr>peer := 0\<rparr>) st) (close_sock (peer s))
        else Inr st)
       (\<lambda>st1. andthen (get_sock a st1) (\<lambda>s1. Inr (free_sock a (drop_disconnect (s_transport s1) a st1)))))"

text \<open>\<open>close_all_sockets\<close>: the scan starts again after each close.\<close>

fun first_of_transport :: "addr \<Rightarrow> addr list \<Rightarrow> dstate \<Rightarrow> addr option outcome" where
  "first_of_transport t [] st = Inr None"
| "first_of_transport t (a # as) st = andthen (get_sock a st) (\<lambda>s.
     if s_transport s = t then Inr (Some a)
     else if peer s \<noteq> 0 then
       andthen (get_sock (peer s) st) (\<lambda>q. if s_transport q = t then Inr (Some a) else first_of_transport t as st)
     else first_of_transport t as st)"

fun close_all_loop :: "nat \<Rightarrow> addr \<Rightarrow> dstate \<Rightarrow> dstate outcome" where
  "close_all_loop fuel t st = andthen (first_of_transport t (sock_list st) st) (\<lambda>r. case r of
       None \<Rightarrow> Inr st
     | Some a \<Rightarrow> (case fuel of 0 \<Rightarrow> Inl NoFuel
         | Suc n \<Rightarrow> andthen (local_socket_close_locked 3 a st) (close_all_loop n t)))"

definition close_all_sockets :: "addr \<Rightarrow> dstate \<Rightarrow> dstate outcome" where
  "close_all_sockets t st = sock_locked (\<lambda>st1. close_all_loop (length (sock_list st1)) t st1) st"

section \<open>Creation\<close>

definition create_local_socket :: "int \<Rightarrow> dstate \<Rightarrow> (addr \<times> dstate) outcome" where
  "create_local_socket fd st =
    (let a = fresh st;
         st1 = st\<lparr>fresh := a + 1, socks := (socks st)(a := Some (zero_socket\<lparr>s_fd := fd, enqueue := LocalFn,
                 ready := LocalFn, close := LocalFn\<rparr>))\<rparr>
     in andthen (install_local_socket a st1) (\<lambda>st2.
        andthen (on_evl (fdevent_install a fd (Handler 1) a) st2) (\<lambda>st3. Inr (a, st3))))"

definition create_remote_socket :: "u32 \<Rightarrow> addr \<Rightarrow> dstate \<Rightarrow> (addr \<times> dstate) outcome" where
  "create_remote_socket sid t st =
    (let a = fresh st;
         st1 = st\<lparr>fresh := a + 1, socks := (socks st)(a := Some (zero_socket\<lparr>s_id := sid, enqueue := RemoteFn,
                 ready := RemoteFn, close := RemoteFn, s_transport := t\<rparr>))\<rparr>
     in case trans st t of
          None \<Rightarrow> Inl Dangling
        | Some x \<Rightarrow> Inr (a, st1\<lparr>trans := (trans st)(t := Some (x\<lparr>disconnects := disconnects x @ [a]\<rparr>))\<rparr>))"

definition create_smart_socket :: "dstate \<Rightarrow> addr \<times> dstate" where
  "create_smart_socket st =
    (let a = fresh st
     in (a, st\<lparr>fresh := a + 1, socks := (socks st)(a := Some (zero_socket\<lparr>enqueue := SmartFn, ready := SmartFn,
               close := SmartFn\<rparr>))\<rparr>))"

section \<open>Ready\<close>

definition local_socket_ready :: "addr \<Rightarrow> dstate \<Rightarrow> dstate outcome" where
  "local_socket_ready a st = on_evl (fdevent_add a FDE_READ) st"

definition local_socket_ready_notify :: "addr \<Rightarrow> dstate \<Rightarrow> dstate outcome" where
  "local_socket_ready_notify a st = andthen (get_sock a st) (\<lambda>s.
     andthen (upd_sock a (\<lambda>x. x\<lparr>ready := LocalFn, close := LocalFn\<rparr>) st) (\<lambda>st1.
     andthen (on_wld (adb_write (s_fd s) (bytes_of ''OKAY'')) st1) (\<lambda>(_, st2). local_socket_ready a st2)))"

definition remote_socket_ready :: "addr \<Rightarrow> dstate \<Rightarrow> dstate outcome" where
  "remote_socket_ready a st = andthen (get_sock a st) (\<lambda>s. andthen (new_packet st) (\<lambda>p.
     andthen (get_sock (peer s) st) (\<lambda>q.
       send_packet (with_msg A_OKAY (s_id q) (s_id s) p) (s_transport s) st)))"

text \<open>\<open>s->ready(s)\<close>.\<close>

definition sock_ready :: "addr \<Rightarrow> dstate \<Rightarrow> dstate outcome" where
  "sock_ready a st = andthen (get_sock a st) (\<lambda>s. case ready s of
       LocalFn \<Rightarrow> local_socket_ready a st
     | NotifyFn \<Rightarrow> local_socket_ready_notify a st
     | RemoteFn \<Rightarrow> remote_socket_ready a st
     | SmartFn \<Rightarrow> Inr st)"

section \<open>Writing out\<close>

datatype push = PushDone | PushAgain | PushFail

text \<open>The write loop of \<open>local_socket_enqueue\<close> and of \<open>local_socket_event_func\<close>: the packet is written until
  it is empty, the descriptor is full, or a write fails.\<close>

function push_bytes :: "int \<Rightarrow> apacket \<Rightarrow> world \<Rightarrow> (push \<times> apacket \<times> world) outcome" where
  "push_bytes fd p w =
    (if a_len p = 0 then Inr (PushDone, p, w)
     else if a_ptr p + unat (a_len p) > length (a_data p) then Inl OutOfBounds
     else andthen (adb_write fd (take (unat (a_len p)) (drop (a_ptr p) (a_data p))) w) (\<lambda>(r, w1).
       case r of
         Inr k \<Rightarrow>
           if 0 < k then push_bytes fd (p\<lparr>a_len := a_len p - word_of_nat k, a_ptr := a_ptr p + k\<rparr>) w1
           else Inr (PushFail, p, w1)
       | Inl e \<Rightarrow> Inr (if e = EAGAIN then PushAgain else PushFail, p, w1)))"
  by pat_completeness auto
termination
  by (relation "measure (\<lambda>(fd, p, w). length (w_wr w fd))") (auto dest: adb_write_shorter)

declare push_bytes.simps [simp del]

definition local_socket_enqueue :: "addr \<Rightarrow> apacket \<Rightarrow> dstate \<Rightarrow> (int \<times> dstate) outcome" where
  "local_socket_enqueue a p0 st = andthen (get_sock a st) (\<lambda>s.
     let p = p0\<lparr>a_ptr := 0\<rparr>;
         hold = (\<lambda>p st1.
           andthen (upd_sock a (\<lambda>x. x\<lparr>pkts := pkts x @ [p]\<rparr>) st1) (\<lambda>st2.
           andthen (on_evl (fdevent_add a FDE_WRITE) st2) (\<lambda>st3. Inr (1, st3))))
     in if pkts s \<noteq> [] then hold p st
        else andthen (push_bytes (s_fd s) p (wld st)) (\<lambda>(r, p', w).
          let st1 = st\<lparr>wld := w\<rparr> in
          case r of
            PushFail \<Rightarrow> andthen (close_sock a st1) (\<lambda>st2. Inr (1, st2))
          | PushDone \<Rightarrow> Inr (0, st1)
          | PushAgain \<Rightarrow> hold p' st1))"

section \<open>Remote and smart sockets\<close>

definition remote_socket_enqueue :: "addr \<Rightarrow> apacket \<Rightarrow> dstate \<Rightarrow> (int \<times> dstate) outcome" where
  "remote_socket_enqueue a p st = andthen (get_sock a st) (\<lambda>s. andthen (get_sock (peer s) st) (\<lambda>q.
     let p' = with_msg A_WRTE (s_id q) (s_id s) p;
         p'' = p'\<lparr>a_msg := (a_msg p')\<lparr>data_length := a_len p\<rparr>\<rparr>
     in andthen (send_packet p'' (s_transport s) st) (\<lambda>st1. Inr (1, st1))))"

definition connect_to_remote :: "addr \<Rightarrow> string \<Rightarrow> dstate \<Rightarrow> dstate outcome" where
  "connect_to_remote a destination st = andthen (get_sock a st) (\<lambda>s. andthen (new_packet st) (\<lambda>p.
     let len = length destination + 1 in
     if len > MAX_PAYLOAD - 1 then fatal
     else
       send_packet (p\<lparr>a_msg := (a_msg p)\<lparr>command := A_OPEN, arg0 := s_id s, data_length := word_of_nat len\<rparr>,
                      a_data := bytes_of destination @ [0] @ drop len (a_data p)\<rparr>) (s_transport s) st))"

definition transports_now :: "dstate \<Rightarrow> (addr \<times> atransport) list" where
  "transports_now st = List.map_filter (\<lambda>a. map_option (Pair a) (trans st a)) (trans_list st)"

definition smart_fail :: "addr \<Rightarrow> dstate \<Rightarrow> (int \<times> dstate) outcome" where
  "smart_fail a st = andthen (close_sock a st) (\<lambda>st1. Inr (-1, st1))"

text \<open>The part of \<open>smart_socket_enqueue\<close> after the request is complete: \<open>t\<close> is \<open>s->transport\<close>.\<close>

definition smart_connect :: "addr \<Rightarrow> addr \<Rightarrow> string \<Rightarrow> dstate \<Rightarrow> (int \<times> dstate) outcome" where
  "smart_connect a t name st = andthen (get_sock a st) (\<lambda>s. andthen (get_sock (peer s) st) (\<lambda>c.
     case trans st t of
       None \<Rightarrow> Inl Dangling
     | Some x \<Rightarrow>
         if connection_state x = CS_OFFLINE then
           andthen (on_wld (sendfailmsg (s_fd c) ''device offline(x)'') st) (\<lambda>(_, st1). smart_fail a st1)
         else
           andthen (upd_sock (peer s) (\<lambda>q. q\<lparr>ready := NotifyFn, close := NotifyFn, peer := 0, s_transport := t\<rparr>) st) (\<lambda>st1.
           andthen (connect_to_remote (peer s) name st1) (\<lambda>st2.
           andthen (upd_sock a (\<lambda>q. q\<lparr>peer := 0\<rparr>) st2) (\<lambda>st3.
           andthen (close_sock a st3) (\<lambda>st4. Inr (1, st4)))))))"

definition smart_socket_enqueue :: "addr \<Rightarrow> apacket \<Rightarrow> dstate \<Rightarrow> (int \<times> dstate) outcome" where
  "smart_socket_enqueue a p st = andthen (get_sock a st) (\<lambda>s.
     andthen (smart_collect (case pkts s of [] \<Rightarrow> None | q # _ \<Rightarrow> Some q) p) (\<lambda>c. case c of
       Inl _ \<Rightarrow> smart_fail a st
     | Inr q \<Rightarrow> andthen (smart_decode q) (\<lambda>(r, q').
         andthen (upd_sock a (\<lambda>x. x\<lparr>pkts := [q']\<rparr>) st) (\<lambda>st1. case r of
           NeedMore \<Rightarrow> Inr (0, st1)
         | BadRequest \<Rightarrow> smart_fail a st1
         | Request name \<Rightarrow>
             if s_transport s = 0 then
               (case acquire_one_transport CS_ANY kTransportAny None [transports_now st1] of
                  Some (Inr t) \<Rightarrow>
                    andthen (upd_sock a (\<lambda>x. x\<lparr>s_transport := t\<rparr>) st1) (smart_connect a t name)
                | Some (Inl err) \<Rightarrow>
                    andthen (get_sock (peer s) st1) (\<lambda>c.
                    andthen (on_wld (sendfailmsg (s_fd c) err) st1) (\<lambda>(_, st2). smart_fail a st2))
                | None \<Rightarrow> Inl Blocked)
             else smart_connect a (s_transport s) name st1))))"

definition sock_enqueue :: "addr \<Rightarrow> apacket \<Rightarrow> dstate \<Rightarrow> (int \<times> dstate) outcome" where
  "sock_enqueue a p st = andthen (get_sock a st) (\<lambda>s. case enqueue s of
       LocalFn \<Rightarrow> local_socket_enqueue a p st
     | NotifyFn \<Rightarrow> local_socket_enqueue a p st
     | RemoteFn \<Rightarrow> remote_socket_enqueue a p st
     | SmartFn \<Rightarrow> smart_socket_enqueue a p st)"

definition connect_to_smartsocket :: "addr \<Rightarrow> dstate \<Rightarrow> dstate outcome" where
  "connect_to_smartsocket a st =
    (let (ss, st1) = create_smart_socket st in
     andthen (upd_sock a (\<lambda>x. x\<lparr>peer := ss\<rparr>) st1) (\<lambda>st2.
     andthen (upd_sock ss (\<lambda>x. x\<lparr>peer := a\<rparr>) st2) (sock_ready a)))"

section \<open>Events of a local socket\<close>

text \<open>The loop over the queued packets: what is left of them and how it ended.\<close>

fun flush_pkts :: "int \<Rightarrow> apacket list \<Rightarrow> world \<Rightarrow> (push \<times> apacket list \<times> world) outcome" where
  "flush_pkts fd [] w = Inr (PushDone, [], w)"
| "flush_pkts fd (p # ps) w = andthen (push_bytes fd p w) (\<lambda>(r, p', w1).
     if r = PushDone then flush_pkts fd ps w1 else Inr (r, p' # ps, w1))"

definition event_write :: "addr \<Rightarrow> int \<Rightarrow> dstate \<Rightarrow> (bool \<times> dstate) outcome" where
  "event_write a fd st = andthen (get_sock a st) (\<lambda>s.
     andthen (flush_pkts fd (pkts s) (wld st)) (\<lambda>(r, left, w).
     andthen (upd_sock a (\<lambda>x. x\<lparr>pkts := left\<rparr>) (st\<lparr>wld := w\<rparr>)) (\<lambda>st1. case r of
         PushAgain \<Rightarrow> Inr (False, st1)
       | PushFail \<Rightarrow> andthen (close_sock a st1) (\<lambda>st2. Inr (False, st2))
       | PushDone \<Rightarrow>
           if closing s then andthen (close_sock a st1) (\<lambda>st2. Inr (False, st2))
           else
             andthen (on_evl (fdevent_del a FDE_WRITE) st1) (\<lambda>st2.
             andthen (sock_ready (peer s) st2) (\<lambda>st3. Inr (True, st3))))))"

text \<open>The read loop: the bytes read and whether the end of file or an error was met.\<close>

function pull_bytes :: "int \<Rightarrow> nat \<Rightarrow> world \<Rightarrow> (bytes \<times> bool \<times> world) outcome" where
  "pull_bytes fd room w =
    (if room = 0 then Inr ([], False, w)
     else andthen (adb_read fd room w) (\<lambda>(r, w1). case r of
         Inr bs \<Rightarrow>
           if bs \<noteq> [] then andthen (pull_bytes fd (room - length bs) w1) (\<lambda>(more, eof, w2). Inr (bs @ more, eof, w2))
           else Inr ([], True, w1)
       | Inl e \<Rightarrow> Inr ([], e \<noteq> EAGAIN, w1)))"
  by pat_completeness auto
termination
  by (relation "measure (\<lambda>(fd, room, w). room)") auto

declare pull_bytes.simps [simp del]

definition event_read :: "addr \<Rightarrow> int \<Rightarrow> dstate \<Rightarrow> dstate outcome" where
  "event_read a fd st = andthen (new_packet st) (\<lambda>p.
     andthen (pull_bytes fd MAX_PAYLOAD (wld st)) (\<lambda>(bs, is_eof, w).
       let st1 = st\<lparr>wld := w\<rparr>;
           fin = (\<lambda>eof st2. if eof then close_sock a st2 else Inr st2)
       in andthen (get_sock a st1) (\<lambda>s.
          if bs = [] \<or> peer s = 0 then fin is_eof st1
          else
            let p' = p\<lparr>a_len := word_of_nat (length bs), a_data := bs @ drop (length bs) (a_data p)\<rparr> in
            andthen (sock_enqueue (peer s) p' st1) (\<lambda>(r, st2).
              if r < 0 then Inr st2
              else
                andthen (get_sock a st2) (\<lambda>_.
                andthen (if r > 0 then on_evl (fdevent_del a FDE_READ) st2 else Inr st2) (\<lambda>st3.
                  fin ((force_eof (fdes (evl st3) a) \<and> r = 0) \<or> is_eof) st3))))))"

definition local_socket_event_func :: "int \<Rightarrow> u16 \<Rightarrow> addr \<Rightarrow> dstate \<Rightarrow> dstate outcome" where
  "local_socket_event_func fd ev a st =
     andthen (if has ev FDE_WRITE then event_write a fd st else Inr (True, st)) (\<lambda>(go, st1).
       if go \<and> has ev FDE_READ then event_read a fd st1 else Inr st1)"

text \<open>\<open>create_local_service_socket\<close>. The debugger sockets and \<open>service_to_fd\<close> are arguments.\<close>

definition create_local_service_socket ::
  "(dstate \<Rightarrow> (addr \<times> dstate) outcome) \<Rightarrow> (dstate \<Rightarrow> (addr \<times> dstate) outcome) \<Rightarrow>
   (string \<Rightarrow> dstate \<Rightarrow> (int \<times> dstate) outcome) \<Rightarrow> nat \<Rightarrow> string \<Rightarrow> dstate \<Rightarrow> (addr \<times> dstate) outcome" where
  "create_local_service_socket jdwp track service_to_fd uid name st =
    (if name = ''jdwp'' then jdwp st
     else if name = ''track-jdwp'' then track st
     else andthen (service_to_fd name st) (\<lambda>(fd, st1).
       if fd < 0 then Inr (0, st1)
       else andthen (create_local_socket fd st1) (\<lambda>(a, st2).
         if starts_with ''root:'' name \<and> uid \<noteq> 0 \<or> starts_with ''usb:'' name \<or> starts_with ''tcpip:'' name
         then andthen (upd_sock a (\<lambda>x. x\<lparr>exit_on_close := True\<rparr>) st2) (\<lambda>st3. Inr (a, st3))
         else Inr (a, st2))))"

section \<open>The invariant\<close>

definition local_sock :: "asocket \<Rightarrow> bool" where
  "local_sock s \<longleftrightarrow> enqueue s = LocalFn \<and> ready s = close s \<and> (close s = LocalFn \<or> close s = NotifyFn)"

definition remote_sock :: "asocket \<Rightarrow> bool" where
  "remote_sock s \<longleftrightarrow> enqueue s = RemoteFn \<and> ready s = RemoteFn \<and> close s = RemoteFn"

definition smart_sock :: "asocket \<Rightarrow> bool" where
  "smart_sock s \<longleftrightarrow> enqueue s = SmartFn \<and> ready s = SmartFn \<and> close s = SmartFn"

lemmas sock_kinds = local_sock_def remote_sock_def smart_sock_def

text \<open>A socket and its peer point to each other, and one of the two is local; a local socket has
  an active descriptor and is in the list its state says; a remote socket is on a live transport.\<close>

definition peer_ok :: "dstate \<Rightarrow> addr \<Rightarrow> asocket \<Rightarrow> bool" where
  "peer_ok st a s \<longleftrightarrow> (peer s \<noteq> 0 \<longrightarrow>
     (\<exists>q. socks st (peer s) = Some q \<and> peer q = a \<and> (local_sock q \<longleftrightarrow> \<not> local_sock s)))"

definition local_ok :: "dstate \<Rightarrow> addr \<Rightarrow> asocket \<Rightarrow> bool" where
  "local_ok st a s \<longleftrightarrow> active (fde_state (fdes (evl st) a)) \<and> pollable (evl st) (fde_fd (fdes (evl st) a)) \<and>
     (if closing s then peer s = 0 \<and> a \<in> set (closing_list st) else a \<in> set (sock_list st)) \<and>
     (close s = NotifyFn \<longrightarrow> peer s = 0)"

definition sock_ok :: "dstate \<Rightarrow> addr \<Rightarrow> asocket \<Rightarrow> bool" where
  "sock_ok st a s \<longleftrightarrow> a \<noteq> 0 \<and> peer_ok st a s \<and> (local_sock s \<or> remote_sock s \<or> smart_sock s) \<and>
     (local_sock s \<longrightarrow> local_ok st a s) \<and>
     (remote_sock s \<longrightarrow> s_transport s \<noteq> 0 \<and> trans st (s_transport s) \<noteq> None)"

definition lists_ok :: "dstate \<Rightarrow> bool" where
  "lists_ok st \<longleftrightarrow> distinct (sock_list st @ closing_list st) \<and>
     (\<forall>a \<in> set (sock_list st @ closing_list st). \<exists>s. socks st a = Some s \<and> local_sock s)"

definition sock_inv :: "dstate \<Rightarrow> bool" where
  "sock_inv st \<longleftrightarrow> (\<forall>a s. socks st a = Some s \<longrightarrow> sock_ok st a s) \<and> lists_ok st \<and>
     (\<exists>pend. loop_inv (evl st) pend) \<and> length (junk st) = MAX_PAYLOAD"

lemma sock_invD: "sock_inv st \<Longrightarrow> socks st a = Some s \<Longrightarrow> sock_ok st a s"
  by (simp add: sock_inv_def)

lemma get_sock_live: "sock_inv st \<Longrightarrow> socks st a = Some s \<Longrightarrow> get_sock a st = Inr s"
  using sock_invD [of st a s] by (simp add: get_sock_def sock_ok_def)

lemma listed_local:
  assumes "sock_inv st" and "a \<in> set (sock_list st @ closing_list st)"
  obtains s where "socks st a = Some s" and "local_sock s"
  using assms unfolding sock_inv_def lists_ok_def by blast

lemma kinds_disjoint: "local_sock s \<Longrightarrow> \<not> remote_sock s" "local_sock s \<Longrightarrow> \<not> smart_sock s"
  "remote_sock s \<Longrightarrow> \<not> smart_sock s"
  by (auto simp: sock_kinds)

section \<open>Packets without a payload\<close>

definition sealed_msg :: "bytes \<Rightarrow> u32 \<Rightarrow> u32 \<Rightarrow> u32 \<Rightarrow> apacket" where
  "sealed_msg mem c a0 a1 = \<lparr>a_len = 0, a_ptr = 0, a_msg = \<lparr>command = c, arg0 = a0, arg1 = a1, data_length = 0,
     data_check = 0, magic = c XOR 0xffffffff\<rparr>, a_data = mem\<rparr>"

lemma send_msg:
  assumes "t \<noteq> 0" and "trans st t \<noteq> None"
  shows "andthen (new_packet st) (\<lambda>p. send_packet (with_msg c a0 a1 p) t st) =
    Inr (st\<lparr>sent := sent st @ [(t, sealed_msg (junk st) c a0 a1)]\<rparr>)"
  using assms by (simp add: new_packet_def get_apacket_def send_packet_def with_msg_def seal_packet_def zero_msg_def
      sealed_msg_def)

section \<open>Closing the other end\<close>

text \<open>A remote or smart socket that has lost its peer: what its close function does.\<close>

definition closed_far :: "addr \<Rightarrow> asocket \<Rightarrow> dstate \<Rightarrow> dstate" where
  "closed_far a s st = (if remote_sock s
     then free_sock a (drop_disconnect (s_transport s) a (st\<lparr>sent := sent st @
       [(s_transport s, sealed_msg (junk st) A_CLSE 0 (s_id s))]\<rparr>))
     else free_sock a st)"

lemma sock_close_far:
  assumes s: "socks st a = Some s" "a \<noteq> 0" "peer s = 0" and k: "remote_sock s \<or> smart_sock s"
    and t: "remote_sock s \<longrightarrow> s_transport s \<noteq> 0 \<and> trans st (s_transport s) \<noteq> None"
  shows "sock_close (Suc n) a st = Inr (closed_far a s st)"
proof -
  have g: "get_sock a st = Inr s" using s by (simp add: get_sock_def)
  show ?thesis
  proof (cases "remote_sock s")
    case True
    with t have t': "s_transport s \<noteq> 0" "trans st (s_transport s) \<noteq> None" by auto
    have "andthen (new_packet st) (\<lambda>p. andthen (send_packet (with_msg A_CLSE 0 (s_id s) p) (s_transport s) st)
        (\<lambda>st4. Inr (free_sock a (drop_disconnect (s_transport s) a st4)))) = Inr (closed_far a s st)"
      using True unfolding andthen_assoc [symmetric] send_msg [OF t'] by (simp add: closed_far_def)
    with True g s(3) show ?thesis by (simp add: remote_sock_def)
  next
    case False
    with k g s(3) show ?thesis by (simp add: smart_sock_def closed_far_def)
  qed
qed

text \<open>The first half of \<open>local_socket_close_locked\<close>: the peer is cut off and closed.\<close>

definition detached :: "addr \<Rightarrow> asocket \<Rightarrow> dstate \<Rightarrow> dstate" where
  "detached a s st = (case socks st (peer s) of
       None \<Rightarrow> st
     | Some q \<Rightarrow> if peer s = 0 then st
         else let st1 = closed_far (peer s) q (st\<lparr>socks := (socks st)(peer s := Some (q\<lparr>peer := 0\<rparr>))\<rparr>)
              in st1\<lparr>socks := (socks st1)(a := Some (s\<lparr>peer := 0\<rparr>))\<rparr>)"

lemma closed_far_fields:
  "socks (closed_far a s st) = (socks st)(a := None)" "evl (closed_far a s st) = evl st"
  "wld (closed_far a s st) = wld st" "sock_list (closed_far a s st) = sock_list st"
  "closing_list (closed_far a s st) = closing_list st" "junk (closed_far a s st) = junk st"
  "sock_lock (closed_far a s st) = sock_lock st"
  "sent (closed_far a s st) = sent st @ (if remote_sock s then [(s_transport s, sealed_msg (junk st) A_CLSE 0 (s_id s))] else [])"
  "trans (closed_far a s st) t = None \<longleftrightarrow> trans st t = None" "trans_list (closed_far a s st) = trans_list st"
  "fresh (closed_far a s st) = fresh st" "next_id (closed_far a s st) = next_id st"
  by (simp_all add: closed_far_def free_sock_def drop_disconnect_def)

lemma sock_inv_cut:
  assumes inv: "sock_inv st" and s: "socks st a = Some s" "local_sock s" "peer s \<noteq> 0"
    and st': "socks st' = (socks st)(peer s := None, a := Some (s\<lparr>peer := 0\<rparr>))" "evl st' = evl st"
      "sock_list st' = sock_list st" "closing_list st' = closing_list st" "junk st' = junk st"
      "\<And>t. trans st' t = None \<longleftrightarrow> trans st t = None"
  shows "sock_inv st'"
proof -
  have ok: "sock_ok st a s" using sock_invD [OF inv s(1)] .
  then obtain q where q: "socks st (peer s) = Some q" "peer q = a" "\<not> local_sock q"
    using s by (auto simp: sock_ok_def peer_ok_def)
  have pa: "peer s \<noteq> a" using q s by auto
  have cut: "local_sock (s\<lparr>peer := 0\<rparr>)" using s(2) by (simp add: local_sock_def)
  have "sock_ok st' b x" if b: "socks st' b = Some x" for b x
  proof (cases "b = a")
    case True
    with b st'(1) have "x = s\<lparr>peer := 0\<rparr>" by simp
    with True ok s(2,3) st' kinds_disjoint(1) [OF cut] cut show ?thesis
      by (auto simp: sock_ok_def peer_ok_def local_ok_def)
  next
    case False
    with b st'(1) have x: "socks st b = Some x" "b \<noteq> peer s" by (auto split: if_splits)
    have xok: "sock_ok st b x" using sock_invD [OF inv x(1)] .
    have "peer_ok st' b x" unfolding peer_ok_def
    proof
      assume p: "peer x \<noteq> 0"
      with xok obtain y where y: "socks st (peer x) = Some y" "peer y = b" "local_sock y \<longleftrightarrow> \<not> local_sock x"
        by (auto simp: sock_ok_def peer_ok_def)
      have "peer x \<noteq> peer s" using y q False by auto
      moreover have "peer x \<noteq> a" using y s x(2) by auto
      ultimately show "\<exists>q. socks st' (peer x) = Some q \<and> peer q = b \<and> local_sock q = (\<not> local_sock x)"
        using y st'(1) by auto
    qed
    with xok st' show ?thesis by (auto simp: sock_ok_def local_ok_def)
  qed
  moreover have "lists_ok st'"
    unfolding lists_ok_def
  proof
    show "distinct (sock_list st' @ closing_list st')" using inv st' by (simp add: sock_inv_def lists_ok_def)
    show "\<forall>b \<in> set (sock_list st' @ closing_list st'). \<exists>s. socks st' b = Some s \<and> local_sock s"
    proof
      fix b assume "b \<in> set (sock_list st' @ closing_list st')"
      then have "b \<in> set (sock_list st @ closing_list st)" using st' by simp
      with inv obtain x where "socks st b = Some x" "local_sock x" by (rule listed_local)
      with q cut st'(1) pa show "\<exists>s. socks st' b = Some s \<and> local_sock s" by (cases "b = a") auto
    qed
  qed
  ultimately show ?thesis using inv st' by (simp add: sock_inv_def)
qed

definition local_finish :: "addr \<Rightarrow> dstate \<Rightarrow> dstate outcome" where
  "local_finish a st2 = andthen (get_sock a st2) (\<lambda>s2.
     if closing s2 \<or> pkts s2 = [] then local_socket_destroy a st2
     else
       andthen (upd_sock a (\<lambda>x. x\<lparr>closing := True\<rparr>) st2) (\<lambda>st3.
       andthen (on_evl (fdevent_del a FDE_READ) st3) (\<lambda>st4.
       andthen (remove_socket a st4) (\<lambda>st5.
         Inr (st5\<lparr>closing_list := closing_list st5 @ [a]\<rparr>)))))"

lemma close_locked_eq:
  assumes inv: "sock_inv st" and s: "socks st a = Some s" "local_sock s"
  shows "local_socket_close_locked (Suc (Suc n)) a st = local_finish a (detached a s st)"
proof (cases "peer s = 0")
  case True
  then have "detached a s st = st" by (simp add: detached_def split: option.split)
  with True get_sock_live [OF inv s(1)] show ?thesis by (simp add: local_finish_def)
next
  case False
  have ok: "sock_ok st a s" using sock_invD [OF inv s(1)] .
  with False s(2) obtain q where q: "socks st (peer s) = Some q" "peer q = a" "\<not> local_sock q"
    by (auto simp: sock_ok_def peer_ok_def)
  have qok: "sock_ok st (peer s) q" using sock_invD [OF inv q(1)] .
  let ?q = "q\<lparr>peer := 0\<rparr>"
  let ?st = "st\<lparr>socks := (socks st)(peer s := Some ?q)\<rparr>"
  have k: "remote_sock ?q \<or> smart_sock ?q" "remote_sock ?q = remote_sock q" "close ?q \<noteq> LocalFn"
    using qok q(3) by (auto simp: sock_ok_def sock_kinds)
  have "sock_close (Suc n) (peer s) ?st = Inr (closed_far (peer s) ?q ?st)"
    by (rule sock_close_far) (use False k qok in \<open>auto simp: sock_ok_def\<close>)
  moreover have "closed_far (peer s) ?q ?st = closed_far (peer s) q ?st" using k(2) by (simp add: closed_far_def)
  moreover have "upd_sock (peer s) (\<lambda>x. x\<lparr>peer := 0\<rparr>) st = Inr ?st" "get_sock (peer s) ?st = Inr ?q"
    using q(1) False by (simp_all add: upd_sock_def get_sock_def)
  moreover have "peer s \<noteq> a" using q s by auto
  then have "upd_sock a (\<lambda>x. x\<lparr>peer := 0\<rparr>) (closed_far (peer s) q ?st) = Inr (detached a s st)"
    using q(1) s(1) False ok by (simp add: upd_sock_def get_sock_def closed_far_fields detached_def Let_def sock_ok_def)
  ultimately show ?thesis using False k(3) get_sock_live [OF inv s(1)] by (simp add: local_finish_def)
qed

lemma detached_inv:
  assumes inv: "sock_inv st" and s: "socks st a = Some s" "local_sock s"
  shows "sock_inv (detached a s st)" and "socks (detached a s st) a = Some (s\<lparr>peer := 0\<rparr>)"
    and "evl (detached a s st) = evl st" and "sock_list (detached a s st) = sock_list st"
    and "closing_list (detached a s st) = closing_list st" and "sock_lock (detached a s st) = sock_lock st"
    and "\<And>b. b \<noteq> a \<Longrightarrow> socks (detached a s st) b = (if peer s \<noteq> 0 \<and> b = peer s then None else socks st b)"
proof -
  have "sock_inv (detached a s st) \<and> socks (detached a s st) a = Some (s\<lparr>peer := 0\<rparr>) \<and>
    evl (detached a s st) = evl st \<and> sock_list (detached a s st) = sock_list st \<and>
    closing_list (detached a s st) = closing_list st \<and> sock_lock (detached a s st) = sock_lock st \<and>
    (\<forall>b. b \<noteq> a \<longrightarrow> socks (detached a s st) b = (if peer s \<noteq> 0 \<and> b = peer s then None else socks st b))"
  proof (cases "peer s = 0")
    case True
    then have "detached a s st = st" by (simp add: detached_def split: option.split)
    moreover have "s\<lparr>peer := 0\<rparr> = s" using True by (cases s) simp
    ultimately show ?thesis using inv s True by simp
  next
    case False
    with sock_invD [OF inv s(1)] s(2) obtain q where q: "socks st (peer s) = Some q" "peer q = a"
      by (auto simp: sock_ok_def peer_ok_def)
    let ?st = "st\<lparr>socks := (socks st)(peer s := Some (q\<lparr>peer := 0\<rparr>))\<rparr>"
    have d: "detached a s st = (closed_far (peer s) q ?st)\<lparr>socks := (socks st)(peer s := None, a := Some (s\<lparr>peer := 0\<rparr>))\<rparr>"
      using q False by (simp add: detached_def Let_def closed_far_fields)
    have "sock_inv (detached a s st)"
      by (rule sock_inv_cut [OF inv s False]) (simp_all add: d closed_far_fields)
    with False show ?thesis by (simp add: d closed_far_fields)
  qed
  then show "sock_inv (detached a s st)" "socks (detached a s st) a = Some (s\<lparr>peer := 0\<rparr>)"
    "evl (detached a s st) = evl st" "sock_list (detached a s st) = sock_list st"
    "closing_list (detached a s st) = closing_list st" "sock_lock (detached a s st) = sock_lock st"
    "\<And>b. b \<noteq> a \<Longrightarrow> socks (detached a s st) b = (if peer s \<noteq> 0 \<and> b = peer s then None else socks st b)"
    by blast+
qed

lemma detached_sent:
  assumes "socks st (peer s) = Some q" and "peer s \<noteq> 0"
  shows "sent (detached a s st) = sent st @
    (if remote_sock q then [(s_transport q, sealed_msg (junk st) A_CLSE 0 (s_id q))] else [])"
  using assms by (simp add: detached_def Let_def closed_far_fields)

section \<open>The second half: destroy or wait for the queue\<close>

text \<open>Replacing one local socket without a peer, or taking it away.\<close>

lemma sock_inv_replace:
  assumes inv: "sock_inv st" and s: "socks st a = Some s" "local_sock s" "peer s = 0"
    and x: "\<And>y. r = Some y \<Longrightarrow> local_sock y \<and> peer y = 0 \<and> local_ok st' a y"
    and st': "socks st' = (socks st)(a := r)" "trans st' = trans st" "junk st' = junk st"
    and l: "loop_inv (evl st') pend" "loop_frame a (evl st) (evl st')"
    and lists: "distinct (sock_list st' @ closing_list st')"
      "\<And>b. b \<noteq> a \<Longrightarrow> b \<in> set (sock_list st') \<longleftrightarrow> b \<in> set (sock_list st)"
      "\<And>b. b \<noteq> a \<Longrightarrow> b \<in> set (closing_list st') \<longleftrightarrow> b \<in> set (closing_list st)"
      "r = None \<Longrightarrow> a \<notin> set (sock_list st' @ closing_list st')"
  shows "sock_inv st'"
proof -
  have "sock_ok st' b y" if y: "socks st' b = Some y" for b y
  proof (cases "b = a")
    case True
    with y st'(1) x have "local_sock y" "peer y = 0" "local_ok st' a y" by auto
    with True sock_invD [OF inv s(1)] show ?thesis
      by (simp add: sock_ok_def peer_ok_def kinds_disjoint)
  next
    case False
    with y st'(1) have b: "socks st b = Some y" by simp
    have ok: "sock_ok st b y" using sock_invD [OF inv b] .
    have "peer_ok st' b y" unfolding peer_ok_def
    proof
      assume p: "peer y \<noteq> 0"
      with ok obtain q where q: "socks st (peer y) = Some q" "peer q = b" "local_sock q \<longleftrightarrow> \<not> local_sock y"
        by (auto simp: sock_ok_def peer_ok_def)
      then have "peer y \<noteq> a" using s ok by (auto simp: sock_ok_def)
      with q st'(1) show "\<exists>q. socks st' (peer y) = Some q \<and> peer q = b \<and> local_sock q = (\<not> local_sock y)" by auto
    qed
    moreover have "local_sock y \<longrightarrow> local_ok st' b y"
      using ok False l(2) lists(2,3) [OF False] by (auto simp: sock_ok_def local_ok_def loop_frame_def)
    ultimately show ?thesis using ok st' by (simp add: sock_ok_def)
  qed
  moreover have "lists_ok st'" unfolding lists_ok_def
  proof (intro conjI lists(1) ballI)
    fix b assume b: "b \<in> set (sock_list st' @ closing_list st')"
    show "\<exists>s. socks st' b = Some s \<and> local_sock s"
    proof (cases "b = a")
      case True
      with b lists(4) x st'(1) show ?thesis by (cases r) auto
    next
      case False
      with b lists(2,3) have "b \<in> set (sock_list st @ closing_list st)" by auto
      with inv obtain y where "socks st b = Some y" "local_sock y" by (rule listed_local)
      with False st'(1) show ?thesis by simp
    qed
  qed
  ultimately show ?thesis using inv st' l(1) by (auto simp: sock_inv_def)
qed

lemma remove_socket_listed:
  assumes inv: "sock_inv st" and a: "socks st' a = Some s" "a \<noteq> 0" and loc: "a \<in> set (sock_list st' @ closing_list st')"
  shows "remove_socket a st' = Inr (st'\<lparr>sock_list := remove1 a (sock_list st'), closing_list := remove1 a (closing_list st'),
    socks := (socks st')(a := Some (s\<lparr>s_id := 0\<rparr>))\<rparr>)"
  using a loc by (auto simp: remove_socket_def upd_sock_def get_sock_def)

lemma lists_remove1:
  assumes "distinct (xs @ ys)"
  shows "distinct (remove1 a xs @ remove1 a ys)" and "a \<notin> set (remove1 a xs @ remove1 a ys)"
    and "b \<noteq> a \<Longrightarrow> b \<in> set (remove1 a xs) \<longleftrightarrow> b \<in> set xs" and "b \<noteq> a \<Longrightarrow> b \<in> set (remove1 a ys) \<longleftrightarrow> b \<in> set ys"
  using assms by auto

lemma local_listed:
  assumes "sock_inv st" and "socks st a = Some s" and "local_sock s"
  shows "a \<in> set (sock_list st @ closing_list st)" and "a \<noteq> 0"
    and "active (fde_state (fdes (evl st) a))" and "pollable (evl st) (fde_fd (fdes (evl st) a))"
  using sock_invD [OF assms(1,2)] assms(3) by (auto simp: sock_ok_def local_ok_def split: if_splits)

lemma local_finish_destroy:
  assumes inv: "sock_inv st" and s: "socks st a = Some s" "local_sock s" "peer s = 0"
    and e: "closing s \<or> pkts s = []" "\<not> exit_on_close s"
  shows "\<exists>st'. local_finish a st = Inr st' \<and> sock_inv st' \<and> socks st' = (socks st)(a := None) \<and>
    sock_list st' = remove1 a (sock_list st) \<and> sent st' = sent st \<and> sock_lock st' = sock_lock st \<and>
    trans st' = trans st \<and> closed (evl st') = closed (evl st) @ [fde_fd (fdes (evl st) a)]"
proof -
  note loc = local_listed [OF inv s(1,2)]
  obtain pend where "loop_inv (evl st) pend" using inv by (auto simp: sock_inv_def)
  from fdevent_remove_promise [OF this loc(3)] obtain l pend' where
    l: "fdevent_remove a (evl st) = Inr l" "loop_inv l pend'" "loop_frame a (evl st) l"
      "closed l = closed (evl st) @ [fde_fd (fdes (evl st) a)]"
    by blast
  have "remove_socket a (st\<lparr>evl := l\<rparr>) = Inr (st\<lparr>evl := l, sock_list := remove1 a (sock_list st),
      closing_list := remove1 a (closing_list st), socks := (socks st)(a := Some (s\<lparr>s_id := 0\<rparr>))\<rparr>)"
    using remove_socket_listed [OF inv, of "st\<lparr>evl := l\<rparr>" a s] s(1) loc(1,2) by simp
  then have eq: "local_finish a st = Inr (st\<lparr>evl := l, sock_list := remove1 a (sock_list st),
      closing_list := remove1 a (closing_list st), socks := (socks st)(a := None)\<rparr>)" (is "_ = Inr ?st")
    using e l(1) get_sock_live [OF inv s(1)]
    by (simp add: local_finish_def local_socket_destroy_def on_evl_def free_sock_def)
  have d: "distinct (sock_list st @ closing_list st)" using inv by (simp add: sock_inv_def lists_ok_def)
  have "sock_inv ?st"
    by (rule sock_inv_replace [OF inv s, of None ?st pend']) (use l lists_remove1 [OF d] in auto)
  with eq l(4) show ?thesis by simp
qed

lemma local_finish_wait:
  assumes inv: "sock_inv st" and s: "socks st a = Some s" "local_sock s" "peer s = 0"
    and e: "\<not> closing s" "pkts s \<noteq> []"
  shows "\<exists>st'. local_finish a st = Inr st' \<and> sock_inv st' \<and> socks st' = (socks st)(a := Some (s\<lparr>closing := True, s_id := 0\<rparr>)) \<and>
    sock_list st' = remove1 a (sock_list st) \<and> sent st' = sent st \<and> sock_lock st' = sock_lock st \<and> trans st' = trans st"
proof -
  note loc = local_listed [OF inv s(1,2)]
  obtain pend where "loop_inv (evl st) pend" using inv by (auto simp: sock_inv_def)
  from fdevent_del_promise [OF this loc(3,4), of FDE_READ] obtain l pend' where
    l: "fdevent_del a FDE_READ (evl st) = Inr l" "loop_inv l pend'" "loop_frame a (evl st) l"
      "active (fde_state (fdes l a))" "target (fdes l a) = target (fdes (evl st) a)"
    by blast
  let ?s = "s\<lparr>closing := True, s_id := 0\<rparr>"
  have "remove_socket a (st\<lparr>socks := (socks st)(a := Some (s\<lparr>closing := True\<rparr>)), evl := l\<rparr>) =
      Inr (st\<lparr>evl := l, sock_list := remove1 a (sock_list st), closing_list := remove1 a (closing_list st),
        socks := (socks st)(a := Some ?s)\<rparr>)"
    using loc(1,2) by (subst remove_socket_listed [OF inv]) auto
  then have eq: "local_finish a st = Inr (st\<lparr>evl := l, sock_list := remove1 a (sock_list st),
      closing_list := remove1 a (closing_list st) @ [a], socks := (socks st)(a := Some ?s)\<rparr>)" (is "_ = Inr ?st")
    using e l(1) get_sock_live [OF inv s(1)] by (simp add: local_finish_def on_evl_def upd_sock_def)
  have d: "distinct (sock_list st @ closing_list st)" using inv by (simp add: sock_inv_def lists_ok_def)
  have "local_sock ?s" using s(2) by (simp add: local_sock_def)
  moreover have "local_ok ?st a ?s"
    using l(3-5) loc(4) s(3) by (simp add: local_ok_def loop_frame_def target_def)
  ultimately have "sock_inv ?st"
    by (intro sock_inv_replace [OF inv s, of "Some ?s" ?st pend'])
      (use l(2,3) s(3) lists_remove1 [OF d] in auto)
  with eq show ?thesis by simp
qed

section \<open>Closing a local socket\<close>

text \<open>The sockets after a local socket has been closed.\<close>

definition socks_closed :: "addr \<Rightarrow> asocket \<Rightarrow> (addr \<Rightarrow> asocket option) \<Rightarrow> addr \<Rightarrow> asocket option" where
  "socks_closed a s f = (\<lambda>b.
     if b = a then if closing s \<or> pkts s = [] then None else Some (s\<lparr>peer := 0, closing := True, s_id := 0\<rparr>)
     else if peer s \<noteq> 0 \<and> b = peer s then None else f b)"

definition close_notice :: "asocket \<Rightarrow> dstate \<Rightarrow> (addr \<times> apacket) list" where
  "close_notice s st = (if peer s = 0 then [] else case socks st (peer s) of
       None \<Rightarrow> []
     | Some q \<Rightarrow> if remote_sock q then [(s_transport q, sealed_msg (junk st) A_CLSE 0 (s_id q))] else [])"

lemma local_close_locked:
  assumes inv: "sock_inv st" and s: "socks st a = Some s" "local_sock s" "\<not> exit_on_close s"
  shows "\<exists>st'. local_socket_close_locked (Suc (Suc n)) a st = Inr st' \<and> sock_inv st' \<and> sock_lock st' = sock_lock st \<and>
    socks st' = socks_closed a s (socks st) \<and> sock_list st' = remove1 a (sock_list st) \<and>
    sent st' = sent st @ close_notice s st"
proof -
  let ?d = "detached a s st" and ?s = "s\<lparr>peer := 0\<rparr>"
  note d = detached_inv [OF inv s(1,2)]
  have l: "local_sock ?s" "peer ?s = 0" "\<not> exit_on_close ?s" using s by (simp_all add: local_sock_def)
  have sent: "sent ?d = sent st @ close_notice s st"
  proof (cases "peer s = 0")
    case True
    then have "?d = st" by (simp add: detached_def split: option.split)
    with True show ?thesis by (simp add: close_notice_def)
  next
    case False
    with sock_invD [OF inv s(1)] obtain q where q: "socks st (peer s) = Some q" by (auto simp: sock_ok_def peer_ok_def)
    with False show ?thesis by (simp add: detached_sent close_notice_def)
  qed
  show ?thesis
  proof (cases "closing s \<or> pkts s = []")
    case True
    then have c: "closing ?s \<or> pkts ?s = []" by simp
    obtain st' where st': "local_finish a ?d = Inr st'" "sock_inv st'" "socks st' = (socks ?d)(a := None)"
      "sock_list st' = remove1 a (sock_list ?d)" "sent st' = sent ?d" "sock_lock st' = sock_lock ?d"
      using local_finish_destroy [OF d(1,2) l(1,2) c l(3)] by blast
    moreover have "socks st' = socks_closed a s (socks st)"
      using True d(7) by (auto simp: st'(3) socks_closed_def)
    ultimately show ?thesis using sent
      by (simp add: close_locked_eq [OF inv s(1,2)] d(4,6) del: local_socket_close_locked.simps)
  next
    case False
    then have c: "\<not> closing ?s" "pkts ?s \<noteq> []" by auto
    obtain st' where st': "local_finish a ?d = Inr st'" "sock_inv st'"
      "socks st' = (socks ?d)(a := Some (?s\<lparr>closing := True, s_id := 0\<rparr>))"
      "sock_list st' = remove1 a (sock_list ?d)" "sent st' = sent ?d" "sock_lock st' = sock_lock ?d"
      using local_finish_wait [OF d(1,2) l(1,2) c] by blast
    moreover have "socks st' = socks_closed a s (socks st)"
      using False d(7) by (auto simp: st'(3) socks_closed_def)
    ultimately show ?thesis using sent
      by (simp add: close_locked_eq [OF inv s(1,2)] d(4,6) del: local_socket_close_locked.simps)
  qed
qed

lemma sock_inv_lock [simp]: "sock_inv (st\<lparr>sock_lock := b\<rparr>) = sock_inv st"
  by (simp add: sock_inv_def sock_ok_def peer_ok_def local_ok_def lists_ok_def)

lemma close_notice_lock [simp]: "close_notice s (st\<lparr>sock_lock := b\<rparr>) = close_notice s st"
  by (simp add: close_notice_def split: option.split)

lemma close_sock_local:
  assumes "sock_inv st" and "socks st a = Some s" and "local_sock s" and "close s = LocalFn"
    and "\<not> exit_on_close s" and "\<not> sock_lock st"
  shows "\<exists>st'. close_sock a st = Inr st' \<and> sock_inv st' \<and> \<not> sock_lock st' \<and>
    socks st' = socks_closed a s (socks st) \<and> sent st' = sent st @ close_notice s st"
proof -
  let ?st = "st\<lparr>sock_lock := True\<rparr>"
  have three: "(3 :: nat) = Suc (Suc 1)" "(4 :: nat) = Suc 3" by simp_all
  from local_close_locked [of ?st a s 1] assms obtain st' where
    st': "local_socket_close_locked 3 a ?st = Inr st'" "sock_inv st'" "socks st' = socks_closed a s (socks st)"
      "sent st' = sent st @ close_notice s st"
    by (auto simp: three)
  have "sock_close (Suc 3) a st = Inr (st'\<lparr>sock_lock := False\<rparr>)"
    using assms(4,6) get_sock_live [OF assms(1,2)] st'(1)
    by (subst sock_close.simps(2)) (simp add: sock_locked_def)
  then have "close_sock a st = Inr (st'\<lparr>sock_lock := False\<rparr>)" by (simp add: close_sock_def)
  with st' show ?thesis by simp
qed


section \<open>Closing all the sockets of a transport\<close>

definition of_transport :: "addr \<Rightarrow> dstate \<Rightarrow> asocket \<Rightarrow> bool" where
  "of_transport t st s \<longleftrightarrow> s_transport s = t \<or>
     (peer s \<noteq> 0 \<and> (\<exists>q. socks st (peer s) = Some q \<and> s_transport q = t))"

lemma first_of_transport_ok:
  assumes "sock_inv st" and "\<forall>a \<in> set as. socks st a \<noteq> None"
  obtains (found) a s where "first_of_transport t as st = Inr (Some a)" and "a \<in> set as" and "socks st a = Some s"
  | (none) "first_of_transport t as st = Inr None" and "\<forall>a \<in> set as. \<forall>s. socks st a = Some s \<longrightarrow> \<not> of_transport t st s"
  using assms
proof (induction as arbitrary: thesis)
  case Nil
  then show ?case by simp
next
  case (Cons a as)
  then obtain s where s: "socks st a = Some s" by auto
  note g = get_sock_live [OF Cons.prems(3) s]
  show ?case
  proof (cases "of_transport t st s")
    case True
    then have "first_of_transport t (a # as) st = Inr (Some a)"
      using g sock_invD [OF Cons.prems(3) s]
      by (auto simp: of_transport_def sock_ok_def peer_ok_def get_sock_def)
    with Cons.prems(1) s show ?thesis by auto
  next
    case False
    then have "first_of_transport t (a # as) st = first_of_transport t as st"
      using g sock_invD [OF Cons.prems(3) s]
      by (auto simp: of_transport_def sock_ok_def peer_ok_def get_sock_def)
    with Cons False s show ?thesis by (metis list.set_intros(2) option.inject set_ConsD)
  qed
qed

declare close_all_loop.simps [simp del]

definition no_exit :: "dstate \<Rightarrow> bool" where
  "no_exit st \<longleftrightarrow> (\<forall>a s. socks st a = Some s \<longrightarrow> \<not> exit_on_close s)"

lemma no_exit_closed:
  assumes "no_exit st" and "socks st a = Some s" and "socks st' = socks_closed a s (socks st)"
  shows "no_exit st'"
  using assms by (auto simp: no_exit_def socks_closed_def split: if_splits)

lemma close_all_loop_ok:
  assumes "sock_inv st" and "no_exit st" and "length (sock_list st) \<le> fuel"
  shows "\<exists>st'. close_all_loop fuel t st = Inr st' \<and> sock_inv st' \<and>
    (\<forall>a \<in> set (sock_list st'). \<forall>s. socks st' a = Some s \<longrightarrow> \<not> of_transport t st' s) \<and>
    sock_lock st' = sock_lock st"
  using assms
proof (induction fuel arbitrary: st)
  case 0
  then show ?case by (simp add: close_all_loop.simps)
next
  case (Suc fuel)
  have live: "\<forall>a \<in> set (sock_list st). socks st a \<noteq> None"
    using Suc.prems(1) by (auto simp: sock_inv_def lists_ok_def)
  have three: "(3 :: nat) = Suc (Suc 1)" by simp
  from Suc.prems(1) live show ?case
  proof (cases rule: first_of_transport_ok [where t = t])
    case none
    then show ?thesis using Suc.prems(1) by (subst close_all_loop.simps) simp
  next
    case (found a s)
    then have a: "a \<in> set (sock_list st @ closing_list st)" by simp
    with Suc.prems(1) found(3) have loc: "local_sock s" by (auto elim: listed_local)
    have "\<not> exit_on_close s" using Suc.prems(2) found(3) by (simp add: no_exit_def)
    from local_close_locked [OF Suc.prems(1) found(3) loc this, of 1] obtain st1 where
      st1: "local_socket_close_locked 3 a st = Inr st1" "sock_inv st1" "sock_lock st1 = sock_lock st"
        "socks st1 = socks_closed a s (socks st)" "sock_list st1 = remove1 a (sock_list st)"
      by (auto simp: three)
    have "length (sock_list st1) \<le> fuel"
      using Suc.prems(3) found(2) by (auto simp: st1(5) length_remove1)
    from Suc.IH [OF st1(2) no_exit_closed [OF Suc.prems(2) found(3) st1(4)] this] st1(3) show ?thesis
      by (subst close_all_loop.simps) (simp add: found(1) st1(1))
  qed
qed


section \<open>New sockets and new pairs\<close>

text \<open>A fresh address: nothing is there yet.\<close>

definition room_ok :: "dstate \<Rightarrow> bool" where
  "room_ok st \<longleftrightarrow> list_pending < fresh st \<and> (\<forall>a \<ge> fresh st. socks st a = None \<and> \<not> active (fde_state (fdes (evl st) a)))"

text \<open>A descriptor the kernel has just returned: not registered, acceptable to epoll, below the limit.\<close>

definition new_fd :: "nat \<Rightarrow> dstate \<Rightarrow> bool" where
  "new_fd fd st \<longleftrightarrow> fd \<le> 32000 \<and> epoll_ok (evl st) \<and> pollable (evl st) (int fd) \<and>
     (\<forall>b. active (fde_state (fdes (evl st) b)) \<longrightarrow> fde_fd (fdes (evl st) b) \<noteq> int fd)"

lemma sock_inv_new:
  assumes inv: "sock_inv st" and a: "socks st a = None" "a \<noteq> 0" and s: "peer s = 0" "local_sock s \<or> remote_sock s \<or> smart_sock s"
    and st': "socks st' = (socks st)(a := Some s)" "junk st' = junk st"
      "\<And>t. trans st t \<noteq> None \<Longrightarrow> trans st' t \<noteq> None" "closing_list st' = closing_list st"
      "sock_list st' = (if local_sock s then sock_list st @ [a] else sock_list st)"
    and l: "loop_inv (evl st') pend" "loop_frame a (evl st) (evl st')"
    and ok: "local_sock s \<Longrightarrow> local_ok st' a s"
      "remote_sock s \<Longrightarrow> s_transport s \<noteq> 0 \<and> trans st' (s_transport s) \<noteq> None"
  shows "sock_inv st'"
proof -
  have "sock_ok st' b y" if y: "socks st' b = Some y" for b y
  proof (cases "b = a")
    case True
    with y st'(1) have "y = s" by simp
    with True a s ok show ?thesis by (simp add: sock_ok_def peer_ok_def)
  next
    case False
    with y st'(1) have b: "socks st b = Some y" by simp
    have old: "sock_ok st b y" using sock_invD [OF inv b] .
    then have "peer_ok st' b y" using a st'(1) unfolding sock_ok_def peer_ok_def by (metis fun_upd_other option.distinct(1))
    moreover have "local_sock y \<longrightarrow> local_ok st' b y"
      using old False l(2) st'(4,5) by (auto simp: sock_ok_def local_ok_def loop_frame_def)
    ultimately show ?thesis using old st'(3) by (simp add: sock_ok_def)
  qed
  moreover have "a \<notin> set (sock_list st @ closing_list st)"
  proof
    assume "a \<in> set (sock_list st @ closing_list st)"
    with inv obtain x where "socks st a = Some x" by (rule listed_local)
    with a(1) show False by simp
  qed
  then have "lists_ok st'" using inv st' a by (auto simp: sock_inv_def lists_ok_def)
  ultimately show ?thesis using inv st' l(1) by (auto simp: sock_inv_def)
qed

lemma create_local_inv:
  assumes inv: "sock_inv st" and room: "room_ok st" and fd: "new_fd fd st" and lock: "\<not> sock_lock st"
  shows "\<exists>st'. create_local_socket (int fd) st = Inr (fresh st, st') \<and> sock_inv st' \<and> room_ok st' \<and> \<not> sock_lock st' \<and>
    socks st' = (socks st)(fresh st := Some (zero_socket\<lparr>s_fd := int fd, s_id := next_id st\<rparr>)) \<and>
    sock_list st' = sock_list st @ [fresh st] \<and> next_id st' = next_id st + 1 \<and> fresh st' = fresh st + 1 \<and>
    trans st' = trans st \<and> sent st' = sent st \<and> wld st' = wld st \<and> junk st' = junk st \<and>
    fde_state (fdes (evl st') (fresh st)) = FDE_ACTIVE"
proof -
  let ?a = "fresh st"
  let ?s = "zero_socket\<lparr>s_fd := int fd, s_id := next_id st\<rparr>"
  obtain pend where pend: "loop_inv (evl st) pend" using inv by (auto simp: sock_inv_def)
  have a: "socks st ?a = None" "?a \<noteq> 0" "?a \<noteq> list_pending" "\<not> active (fde_state (fdes (evl st) ?a))"
    using room by (auto simp: room_ok_def)
  obtain l where l: "fdevent_install ?a (int fd) (Handler 1) ?a (evl st) = Inr l" "loop_inv l pend"
    "fdes l = (fdes (evl st))(?a := \<lparr>fde_fd = int fd, force_eof = False, fde_state = FDE_ACTIVE, fde_events = 0,
      fde_func = Handler 1, fde_arg = ?a\<rparr>)" "pollable l = pollable (evl st)" "epoll_ok l = epoll_ok (evl st)"
    using fdevent_install_inv [OF pend a(4,2,3), of fd "Handler 1" ?a] fd by (auto simp: new_fd_def)
  define st' where "st' = st\<lparr>fresh := ?a + 1, socks := (socks st)(?a := Some ?s), next_id := next_id st + 1,
    sock_list := sock_list st @ [?a], evl := l\<rparr>"
  have "zero_socket\<lparr>s_fd := int fd, enqueue := LocalFn, ready := LocalFn, close := LocalFn\<rparr> = zero_socket\<lparr>s_fd := int fd\<rparr>"
    by (simp add: zero_socket_def)
  then have eq: "create_local_socket (int fd) st = Inr (?a, st')"
    using a(2) lock l(1) by (simp add: create_local_socket_def Let_def install_local_socket_def sock_locked_def
        upd_sock_def get_sock_def on_evl_def st'_def)
  have kind: "local_sock ?s" "peer ?s = 0" by (simp_all add: local_sock_def zero_socket_def)
  have "local_ok st' ?a ?s" using l fd by (simp add: local_ok_def st'_def zero_socket_def new_fd_def)
  moreover have fr: "loop_frame ?a (evl st) l" using l(3-5) by (simp add: loop_frame_def)
  ultimately have "sock_inv st'"
    by (intro sock_inv_new [OF inv a(1,2), of ?s st' pend])
      (use kind kinds_disjoint(1) [OF kind(1)] l(2) in \<open>simp_all add: st'_def\<close>)
  moreover have "room_ok st'" using room l(3) by (auto simp: room_ok_def st'_def)
  ultimately show ?thesis using eq lock l(3) by (simp add: st'_def)
qed

lemma create_remote_inv:
  assumes inv: "sock_inv st" and room: "room_ok st" and t: "t \<noteq> 0" "trans st t = Some x"
  shows "\<exists>st'. create_remote_socket sid t st = Inr (fresh st, st') \<and> sock_inv st' \<and> room_ok st' \<and>
    socks st' = (socks st)(fresh st := Some (zero_socket\<lparr>s_id := sid, enqueue := RemoteFn, ready := RemoteFn,
      close := RemoteFn, s_transport := t\<rparr>)) \<and> fresh st' = fresh st + 1 \<and>
    trans st' = (trans st)(t := Some (x\<lparr>disconnects := disconnects x @ [fresh st]\<rparr>)) \<and>
    sock_list st' = sock_list st \<and> sent st' = sent st \<and> sock_lock st' = sock_lock st \<and> evl st' = evl st \<and>
    junk st' = junk st \<and> wld st' = wld st"
proof -
  let ?a = "fresh st"
  let ?s = "zero_socket\<lparr>s_id := sid, enqueue := RemoteFn, ready := RemoteFn, close := RemoteFn, s_transport := t\<rparr>"
  obtain pend where pend: "loop_inv (evl st) pend" using inv by (auto simp: sock_inv_def)
  have a: "socks st ?a = None" "?a \<noteq> 0" using room by (auto simp: room_ok_def)
  define st' where "st' = st\<lparr>fresh := ?a + 1, socks := (socks st)(?a := Some ?s),
    trans := (trans st)(t := Some (x\<lparr>disconnects := disconnects x @ [?a]\<rparr>))\<rparr>"
  have kind: "remote_sock ?s" "\<not> local_sock ?s" "peer ?s = 0" by (simp_all add: sock_kinds zero_socket_def)
  have "sock_inv st'"
    by (rule sock_inv_new [OF inv a, of ?s st' pend])
      (use kind pend t in \<open>auto simp: st'_def loop_frame_def\<close>)
  moreover have "create_remote_socket sid t st = Inr (?a, st')"
    using t by (simp add: create_remote_socket_def Let_def st'_def)
  moreover have "room_ok st'" using room by (auto simp: room_ok_def st'_def)
  ultimately show ?thesis by (simp add: st'_def)
qed

text \<open>Connecting a local socket without a peer and a new remote socket: the two assignments.\<close>

lemma sock_inv_pair:
  assumes inv: "sock_inv st" and a: "socks st a = Some s" "local_sock s" "peer s = 0" "close s = LocalFn" "\<not> closing s"
    and b: "socks st b = Some q" "\<not> local_sock q" "peer q = 0"
    and st': "st' = st\<lparr>socks := (socks st)(a := Some (s\<lparr>peer := b\<rparr>), b := Some (q\<lparr>peer := a\<rparr>))\<rparr>"
  shows "sock_inv st'"
proof -
  have ab: "a \<noteq> b" "a \<noteq> 0" "b \<noteq> 0" using a b sock_invD [OF inv a(1)] sock_invD [OF inv b(1)]
    by (auto simp: sock_ok_def)
  have k: "local_sock (s\<lparr>peer := b\<rparr>)" "\<not> local_sock (q\<lparr>peer := a\<rparr>)"
    "remote_sock (q\<lparr>peer := a\<rparr>) = remote_sock q" "smart_sock (q\<lparr>peer := a\<rparr>) = smart_sock q"
    using a b by (simp_all add: sock_kinds)
  have "sock_ok st' c y" if y: "socks st' c = Some y" for c y
  proof -
    consider "c = a" "y = s\<lparr>peer := b\<rparr>" | "c = b" "y = q\<lparr>peer := a\<rparr>" | "c \<noteq> a" "c \<noteq> b" "socks st c = Some y"
      using y st' by (auto split: if_splits)
    then show ?thesis
    proof cases
      case 1
      with sock_invD [OF inv a(1)] a b ab k kinds_disjoint(1) [OF k(1)] st' show ?thesis
        by (auto simp: sock_ok_def peer_ok_def local_ok_def)
    next
      case 2
      with sock_invD [OF inv b(1)] a b ab k st' show ?thesis by (auto simp: sock_ok_def peer_ok_def)
    next
      case 3
      have old: "sock_ok st c y" using sock_invD [OF inv 3(3)] .
      then have "peer y \<noteq> a" "peer y \<noteq> b" using a b ab 3 by (auto simp: sock_ok_def peer_ok_def)
      with old st' show ?thesis by (auto simp: sock_ok_def peer_ok_def local_ok_def)
    qed
  qed
  moreover have "lists_ok st'" unfolding lists_ok_def
  proof (intro conjI ballI)
    show "distinct (sock_list st' @ closing_list st')" using inv st' by (simp add: sock_inv_def lists_ok_def)
    fix c assume "c \<in> set (sock_list st' @ closing_list st')"
    then have "c \<in> set (sock_list st @ closing_list st)" using st' by simp
    with inv obtain y where "socks st c = Some y" "local_sock y" by (rule listed_local)
    with b k st' show "\<exists>s. socks st' c = Some s \<and> local_sock s" by auto
  qed
  ultimately show ?thesis using inv st' by (simp add: sock_inv_def)
qed

section \<open>The byte stream of a local socket\<close>

text \<open>What is still to be written of a packet, and of a queue.\<close>

definition unsent :: "apacket \<Rightarrow> bytes" where
  "unsent p = take (unat (a_len p)) (drop (a_ptr p) (a_data p))"

definition inside :: "apacket \<Rightarrow> bool" where
  "inside p \<longleftrightarrow> a_ptr p + unat (a_len p) \<le> length (a_data p)"

definition queued :: "apacket list \<Rightarrow> bytes" where
  "queued ps = concat (map unsent ps)"

lemma length_unsent: "inside p \<Longrightarrow> length (unsent p) = unat (a_len p)"
  by (simp add: inside_def unsent_def)

lemma unsent_advance:
  assumes p: "inside p" and k: "k \<le> length (unsent p)"
  shows "unsent (p\<lparr>a_len := a_len p - word_of_nat k, a_ptr := a_ptr p + k\<rparr>) = drop k (unsent p)"
    and "inside (p\<lparr>a_len := a_len p - word_of_nat k, a_ptr := a_ptr p + k\<rparr>)"
proof -
  have kl: "k \<le> unat (a_len p)" using k length_unsent [OF p] by simp
  then have "unat (word_of_nat k :: u32) = k"
    using unsigned_less [of "a_len p", where ?'a = nat] unfolding unat_of_nat by (simp add: take_bit_eq_mod)
  then have "unat (a_len p - word_of_nat k) = unat (a_len p) - k"
    using kl by (simp add: unat_sub word_le_nat_alt)
  with kl p show "unsent (p\<lparr>a_len := a_len p - word_of_nat k, a_ptr := a_ptr p + k\<rparr>) = drop k (unsent p)"
    "inside (p\<lparr>a_len := a_len p - word_of_nat k, a_ptr := a_ptr p + k\<rparr>)"
    by (simp_all add: unsent_def inside_def drop_take add.commute)
qed

lemma push_bytes_stream:
  assumes "inside p" and "push_bytes fd p w = Inr (r, p', w')"
  shows "w_out w' fd @ unsent p' = w_out w fd @ unsent p \<and> inside p' \<and> wr_only fd w w' \<and>
    (r = PushDone \<longrightarrow> unsent p' = [])"
  using assms
proof (induction "length (w_wr w fd)" arbitrary: p w rule: less_induct)
  case less
  show ?case
  proof (cases "a_len p = 0")
    case True
    with less.prems show ?thesis by (subst (asm) push_bytes.simps) (auto simp: unsent_def wr_only_def)
  next
    case False
    from less.prems False obtain q w1 where a: "adb_write fd (unsent p) w = Inr (q, w1)"
      and k: "(case q of Inr k \<Rightarrow> if 0 < k then push_bytes fd (p\<lparr>a_len := a_len p - word_of_nat k, a_ptr := a_ptr p + k\<rparr>) w1
           else Inr (PushFail, p, w1)
         | Inl e \<Rightarrow> Inr (if e = EAGAIN then PushAgain else PushFail, p, w1)) = Inr (r, p', w')"
      by (subst (asm) (2) push_bytes.simps) (auto simp: andthen_Inr_iff unsent_def inside_def split: if_splits)
    note spec = adb_write_spec [OF a]
    show ?thesis
    proof (cases "\<exists>n. q = Inr n \<and> 0 < n")
      case True
      then obtain n where n: "q = Inr n" "0 < n" by blast
      from spec n have le: "n \<le> length (unsent p)" by simp
      note adv = unsent_advance [OF less.prems(1) le]
      from k n have "push_bytes fd (p\<lparr>a_len := a_len p - word_of_nat n, a_ptr := a_ptr p + n\<rparr>) w1 = Inr (r, p', w')" by simp
      from less.hyps [OF adb_write_shorter [OF a] adv(2) this] spec n adv(1) show ?thesis
        by (auto intro: wr_only_trans)
    next
      case stop: False
      then have "w' = w1" "p' = p" "r \<noteq> PushDone" using k by (auto split: sum.splits if_splits)
      moreover have "w_out w1 fd = w_out w fd" using spec stop by (auto split: sum.splits)
      ultimately show ?thesis using spec less.prems(1) by simp
    qed
  qed
qed

lemma flush_pkts_stream:
  assumes "\<forall>p \<in> set ps. inside p" and "flush_pkts fd ps w = Inr (r, left, w')"
  shows "w_out w' fd @ queued left = w_out w fd @ queued ps \<and> (\<forall>p \<in> set left. inside p) \<and>
    (r = PushDone \<longrightarrow> left = [])"
  using assms
proof (induction ps arbitrary: w)
  case Nil
  then show ?case by simp
next
  case (Cons p ps)
  from Cons.prems(2) obtain r1 p1 w1 where push: "push_bytes fd p w = Inr (r1, p1, w1)"
    and rest: "(if r1 = PushDone then flush_pkts fd ps w1 else Inr (r1, p1 # ps, w1)) = Inr (r, left, w')"
    by (auto simp: andthen_Inr_iff)
  have "inside p" using Cons.prems(1) by simp
  note one = push_bytes_stream [OF this push]
  show ?case
  proof (cases "r1 = PushDone")
    case True
    with rest have "flush_pkts fd ps w1 = Inr (r, left, w')" by simp
    from Cons.IH [OF _ this] Cons.prems(1) have "w_out w' fd @ queued left = w_out w1 fd @ queued ps"
      "\<forall>p \<in> set left. inside p" "r = PushDone \<longrightarrow> left = []"
      by auto
    moreover have "w_out w1 fd = w_out w fd @ unsent p" using one True by auto
    ultimately show ?thesis by (simp add: queued_def)
  next
    case False
    with rest have "left = p1 # ps" "w' = w1" "r = r1" by auto
    with one False Cons.prems(1) show ?thesis by (simp add: queued_def)
  qed
qed

lemma sock_inv_wld [simp]: "sock_inv (st\<lparr>wld := w\<rparr>) = sock_inv st"
  by (simp add: sock_inv_def sock_ok_def peer_ok_def local_ok_def lists_ok_def)

lemma sock_inv_sent [simp]: "sock_inv (st\<lparr>sent := x\<rparr>) = sock_inv st"
  by (simp add: sock_inv_def sock_ok_def peer_ok_def local_ok_def lists_ok_def)

text \<open>Changes that touch neither the peers nor the kinds.\<close>

lemma sock_inv_fields:
  assumes inv: "sock_inv st" and s: "socks st a = Some s"
    and same: "peer s' = peer s" "enqueue s' = enqueue s" "ready s' = ready s" "close s' = close s"
      "closing s' = closing s" "s_transport s' = s_transport s"
  shows "sock_inv (st\<lparr>socks := (socks st)(a := Some s')\<rparr>)"
proof -
  let ?s = "s'"
  let ?st = "st\<lparr>socks := (socks st)(a := Some ?s)\<rparr>"
  have k: "local_sock ?s = local_sock s" "remote_sock ?s = remote_sock s" "smart_sock ?s = smart_sock s"
    by (simp_all add: sock_kinds same)
  have po: "peer_ok ?st b y" if "peer_ok st b y" for b y
    using that s k(1) same unfolding peer_ok_def by (cases "peer y = a") auto
  have "sock_ok ?st b y" if y: "socks ?st b = Some y" for b y
  proof (cases "b = a")
    case True
    with y have [simp]: "y = ?s" by simp
    have "peer_ok st a ?s" using sock_invD [OF inv s] k(1) same by (simp add: sock_ok_def peer_ok_def)
    with True po [of a ?s] sock_invD [OF inv s] k same show ?thesis by (simp add: sock_ok_def local_ok_def)
  next
    case False
    with y have "socks st b = Some y" by simp
    from sock_invD [OF inv this] po [of b y] show ?thesis by (simp add: sock_ok_def local_ok_def)
  qed
  moreover have "lists_ok ?st" unfolding lists_ok_def
  proof (intro conjI ballI)
    show "distinct (sock_list ?st @ closing_list ?st)" using inv by (simp add: sock_inv_def lists_ok_def)
    fix b assume "b \<in> set (sock_list ?st @ closing_list ?st)"
    then have "b \<in> set (sock_list st @ closing_list st)" by simp
    with inv obtain y where "socks st b = Some y" "local_sock y" by (rule listed_local)
    with s k(1) show "\<exists>s. socks ?st b = Some s \<and> local_sock s" by (cases "b = a") auto
  qed
  ultimately show ?thesis using inv by (simp add: sock_inv_def)
qed

lemma sock_inv_pkts:
  assumes "sock_inv st" and "socks st a = Some s"
  shows "sock_inv (st\<lparr>socks := (socks st)(a := Some (s\<lparr>pkts := ps\<rparr>))\<rparr>)"
  by (rule sock_inv_fields [OF assms]) simp_all

lemma sock_inv_evl:
  assumes inv: "sock_inv st" and l: "loop_inv l pend" "loop_frame a (evl st) l" "active (fde_state (fdes l a))"
    and t: "target (fdes l a) = target (fdes (evl st) a)"
  shows "sock_inv (st\<lparr>evl := l\<rparr>)"
proof -
  have "fde_fd (fdes l b) = fde_fd (fdes (evl st) b)" "pollable l = pollable (evl st)" for b
    using l(2) t by (cases "b = a"; simp add: loop_frame_def target_def)+
  moreover have "active (fde_state (fdes (evl st) b)) \<Longrightarrow> active (fde_state (fdes l b))" for b
    using l(2,3) by (cases "b = a") (auto simp: loop_frame_def)
  ultimately show ?thesis using inv l(1)
    by (auto simp: sock_inv_def sock_ok_def peer_ok_def local_ok_def lists_ok_def)
qed

text \<open>The branch \<open>enqueue\<close>: the packet joins the queue and the socket asks to be told when it can write.\<close>

lemma hold_packet:
  assumes inv: "sock_inv st" and s: "socks st a = Some s" "local_sock s"
  obtains st' where "andthen (upd_sock a (\<lambda>x. x\<lparr>pkts := pkts x @ [p]\<rparr>) st) (\<lambda>st2.
      andthen (on_evl (fdevent_add a FDE_WRITE) st2) (\<lambda>st3. Inr (1 :: int, st3))) = Inr (1, st')"
    and "sock_inv st'" and "socks st' = (socks st)(a := Some (s\<lparr>pkts := pkts s @ [p]\<rparr>))" and "wld st' = wld st"
    and "sock_list st' = sock_list st" and "has (want (fde_state (fdes (evl st') a))) FDE_WRITE"
proof -
  note loc = local_listed [OF inv s]
  let ?st = "st\<lparr>socks := (socks st)(a := Some (s\<lparr>pkts := pkts s @ [p]\<rparr>))\<rparr>"
  have i: "sock_inv ?st" by (rule sock_inv_pkts [OF inv s(1)])
  obtain pend where pend: "loop_inv (evl st) pend" using inv by (auto simp: sock_inv_def)
  obtain l pend' where l: "fdevent_add a FDE_WRITE (evl st) = Inr l" "loop_inv l pend'" "loop_frame a (evl st) l"
    "active (fde_state (fdes l a))" "want (fde_state (fdes l a)) = want (fde_state (fdes (evl st) a)) OR FDE_WRITE"
    "target (fdes l a) = target (fdes (evl st) a)"
    using fdevent_add_promise [OF pend loc(3) io_events_simps(3) loc(4)] by blast
  have "sock_inv (?st\<lparr>evl := l\<rparr>)" using l by (intro sock_inv_evl [OF i, of l pend' a]) simp_all
  moreover have "bit (want (fde_state (fdes l a))) 1" by (simp add: l(5) bit_simps bit_io)
  ultimately show ?thesis using l(1) get_sock_live [OF inv s(1)] that [of "?st\<lparr>evl := l\<rparr>"]
    by (simp add: upd_sock_def on_evl_def has_io)
qed


section \<open>A concrete daemon\<close>

text \<open>One transport that is online, and a local socket on descriptor 3 connected to the remote socket 7.\<close>

definition sample_daemon :: dstate where
  "sample_daemon = \<lparr>socks = (\<lambda>_. None), sock_list = [], closing_list = [], next_id = 1, sock_lock = False,
     trans = (\<lambda>_. None)(100 := Some (zero_transport\<lparr>online := True, connection_state := CS_HOST\<rparr>)), trans_list = [100],
     evl = fdevent_start, wld = idle_world\<lparr>w_wr := (\<lambda>_. [WrAcc 2])\<rparr>, sent = [], fresh = 200, junk = replicate 4096 0\<rparr>"

lemma sample_daemon_inv: "sock_inv sample_daemon" "room_ok sample_daemon" "new_fd 3 sample_daemon" "\<not> sock_lock sample_daemon"
  "trans sample_daemon 100 = Some (zero_transport\<lparr>online := True, connection_state := CS_HOST\<rparr>)"
proof -
  show "sock_inv sample_daemon" using loop_inv_start
    by (auto simp: sock_inv_def lists_ok_def sample_daemon_def MAX_PAYLOAD_def)
  show "room_ok sample_daemon" "new_fd 3 sample_daemon" "\<not> sock_lock sample_daemon"
    "trans sample_daemon 100 = Some (zero_transport\<lparr>online := True, connection_state := CS_HOST\<rparr>)"
    by (simp_all add: room_ok_def new_fd_def sample_daemon_def fdevent_start_def zero_fde_def list_pending_def)
qed

definition sample_pair :: dstate where
  "sample_pair = (case andthen (create_local_socket 3 sample_daemon) (\<lambda>(a, st1).
       andthen (create_remote_socket 7 100 st1) (\<lambda>(b, st2).
       andthen (upd_sock a (\<lambda>x. x\<lparr>peer := b\<rparr>) st2) (upd_sock b (\<lambda>x. x\<lparr>peer := a\<rparr>)))) of
     Inr st \<Rightarrow> st | Inl _ \<Rightarrow> sample_daemon)"

lemma sample_pair_inv: "sock_inv sample_pair" "\<not> sock_lock sample_pair" "no_exit sample_pair"
  "socks sample_pair 200 = Some (zero_socket\<lparr>s_fd := 3, s_id := 1, peer := 201\<rparr>)"
  "socks sample_pair 201 = Some (zero_socket\<lparr>s_id := 7, enqueue := RemoteFn, ready := RemoteFn, close := RemoteFn,
      s_transport := 100, peer := 200\<rparr>)" "wld sample_pair = wld sample_daemon" "sent sample_pair = []"
proof -
  let ?l = "zero_socket\<lparr>s_fd := int 3, s_id := next_id sample_daemon\<rparr>"
  let ?r = "zero_socket\<lparr>s_id := 7, enqueue := RemoteFn, ready := RemoteFn, close := RemoteFn, s_transport := 100\<rparr>"
  have f: "fresh sample_daemon = 200" "next_id sample_daemon = 1" "socks sample_daemon = (\<lambda>_. None)" "sent sample_daemon = []"
    by (simp_all add: sample_daemon_def)
  obtain st1 where st1: "create_local_socket (int 3) sample_daemon = Inr (200, st1)" "sock_inv st1" "room_ok st1"
    "\<not> sock_lock st1" "socks st1 = (\<lambda>_. None)(200 := Some ?l)" "fresh st1 = 201" "trans st1 = trans sample_daemon"
    "wld st1 = wld sample_daemon" "sent st1 = []"
    using create_local_inv [OF sample_daemon_inv(1-4)] f by auto
  obtain st2 where st2: "create_remote_socket 7 100 st1 = Inr (201, st2)" "sock_inv st2"
    "socks st2 = (socks st1)(201 := Some ?r)" "sock_lock st2 = sock_lock st1" "wld st2 = wld st1" "sent st2 = sent st1"
    using create_remote_inv [OF st1(2,3), of 100] sample_daemon_inv(5) st1(6,7) by fastforce
  let ?st = "st2\<lparr>socks := (socks st2)(200 := Some (?l\<lparr>peer := 201\<rparr>), 201 := Some (?r\<lparr>peer := 200\<rparr>))\<rparr>"
  have "sock_inv ?st"
    by (rule sock_inv_pair [OF st2(2), of 200 ?l 201 ?r])
      (simp_all add: st1(5) st2(3) sock_kinds zero_socket_def)
  moreover have eq: "sample_pair = ?st"
    using st1(1,5) st2(1,3) by (simp add: sample_pair_def upd_sock_def get_sock_def)
  ultimately show "sock_inv sample_pair" "\<not> sock_lock sample_pair" "no_exit sample_pair"
    "socks sample_pair 200 = Some (zero_socket\<lparr>s_fd := 3, s_id := 1, peer := 201\<rparr>)"
    "socks sample_pair 201 = Some (?r\<lparr>peer := 200\<rparr>)" "wld sample_pair = wld sample_daemon" "sent sample_pair = []"
    unfolding eq using st1(4,5,8,9) st2(3-6) f(2) by (auto simp: no_exit_def zero_socket_def)
qed

abbreviation sample_local :: asocket where
  "sample_local \<equiv> zero_socket\<lparr>s_fd := 3, s_id := 1, peer := 201\<rparr>"



lemma sample_enqueue: "\<exists>st'. local_socket_enqueue 200 (piece ''hi'') sample_pair = Inr (0, st')"
proof -
  have w: "w_wr (wld sample_pair) 3 = [WrAcc 2]" using sample_pair_inv(6) by (simp add: sample_daemon_def)
  have "\<exists>p w. push_bytes 3 (piece ''hi''\<lparr>a_ptr := 0\<rparr>) (wld sample_pair) = Inr (PushDone, p, w)"
    by (simp add: push_bytes.simps adb_write.simps sys_write_def w piece_def MAX_PAYLOAD_def bytes_of_def)
  then show ?thesis using get_sock_live [OF sample_pair_inv(1,4)]
    by (auto simp: local_socket_enqueue_def zero_socket_def Let_def)
qed


end
