(* ===== verification/Adb.thy ===== *)
theory Adb
  imports Sockets
begin

text \<open>
  The protocol handler of \<open>adb.c\<close>: what a packet from a transport does (\<open>handle_packet\<close>), with the
  connection handshake and the authentication of \<open>adb_auth_client.c\<close> and \<open>adb_auth.h\<close>. The sockets are
  those of the socket store; opening a service is an argument, the function that
  \<open>create_local_service_socket\<close> is for the service name.
\<close>

unbundle bit_operations_syntax

section \<open>State\<close>

definition ADB_AUTH_TOKEN :: u32 where "ADB_AUTH_TOKEN = 1"
definition ADB_AUTH_SIGNATURE :: u32 where "ADB_AUTH_SIGNATURE = 2"
definition ADB_AUTH_RSAPUBLICKEY :: u32 where "ADB_AUTH_RSAPUBLICKEY = 3"

record daemon =
  ds :: dstate
  HOST :: bool
  auth_enabled :: bool
  banner :: string \<comment> \<open>\<open>adb_device_banner\<close>\<close>
  banner_values :: "string list"
  framework_fd :: int
  urandom :: "bytes option" \<comment> \<open>what a read of \<open>/dev/urandom\<close> gives; \<open>None\<close> when it fails\<close>

definition get_trans :: "addr \<Rightarrow> daemon \<Rightarrow> atransport outcome" where
  "get_trans t d = (if t = 0 then Inl NullDeref else case trans (ds d) t of None \<Rightarrow> Inl Dangling | Some x \<Rightarrow> Inr x)"

definition upd_trans :: "addr \<Rightarrow> (atransport \<Rightarrow> atransport) \<Rightarrow> daemon \<Rightarrow> daemon outcome" where
  "upd_trans t f d = andthen (get_trans t d) (\<lambda>x. Inr (d\<lparr>ds := (ds d)\<lparr>trans := (trans (ds d))(t := Some (f x))\<rparr>\<rparr>))"

definition on_ds :: "(dstate \<Rightarrow> dstate outcome) \<Rightarrow> daemon \<Rightarrow> daemon outcome" where
  "on_ds f d = andthen (f (ds d)) (\<lambda>s. Inr (d\<lparr>ds := s\<rparr>))"

text \<open>The address of the field \<open>auth_fde\<close> of a transport.\<close>

definition auth_fde :: "addr \<Rightarrow> addr" where "auth_fde t = t + 1"

section \<open>Going online and offline\<close>

definition handle_online :: "addr \<Rightarrow> daemon \<Rightarrow> daemon outcome" where
  "handle_online t d = upd_trans t (\<lambda>x. x\<lparr>online := True\<rparr>) d"

text \<open>The nodes of the disconnect list are those of the remote sockets of the transport.\<close>

fun run_disconnects :: "addr list \<Rightarrow> dstate \<Rightarrow> dstate outcome" where
  "run_disconnects [] st = Inr st"
| "run_disconnects (a # as) st = andthen (remote_socket_disconnect a st) (run_disconnects as)"

definition run_transport_disconnects :: "addr \<Rightarrow> daemon \<Rightarrow> daemon outcome" where
  "run_transport_disconnects t d = andthen (get_trans t d) (\<lambda>x. on_ds (run_disconnects (disconnects x)) d)"

definition handle_offline :: "addr \<Rightarrow> daemon \<Rightarrow> daemon outcome" where
  "handle_offline t d = andthen (upd_trans t (\<lambda>x. x\<lparr>online := False\<rparr>) d) (run_transport_disconnects t)"

section \<open>Packets the daemon sends\<close>

definition send_ready :: "u32 \<Rightarrow> u32 \<Rightarrow> addr \<Rightarrow> dstate \<Rightarrow> dstate outcome" where
  "send_ready local remote t st = andthen (new_packet st) (\<lambda>p. send_packet (with_msg A_OKAY local remote p) t st)"

definition send_close :: "u32 \<Rightarrow> u32 \<Rightarrow> addr \<Rightarrow> dstate \<Rightarrow> dstate outcome" where
  "send_close local remote t st = andthen (new_packet st) (\<lambda>p. send_packet (with_msg A_CLSE local remote p) t st)"

definition send_connect :: "addr \<Rightarrow> daemon \<Rightarrow> daemon outcome" where
  "send_connect t d = andthen (new_packet (ds d)) (\<lambda>cp.
     andthen (fill_connect_data (banner d) (banner_values d) (a_data cp)) (\<lambda>(len, data).
       on_ds (send_packet (cp\<lparr>a_msg := (a_msg cp)\<lparr>command := A_CNXN, arg0 := A_VERSION, arg1 := word_of_nat MAX_PAYLOAD,
           data_length := ucast len\<rparr>, a_data := data\<rparr>) t) d))"

text \<open>\<open>adb_auth_generate_token\<close>: the token, or nothing when it could not be read.\<close>

definition adb_auth_generate_token :: "daemon \<Rightarrow> bytes option" where
  "adb_auth_generate_token d = (case urandom d of
     Some bs \<Rightarrow> if length bs = TOKEN_SIZE then Some bs else None | None \<Rightarrow> None)"

definition send_auth_request :: "addr \<Rightarrow> daemon \<Rightarrow> daemon outcome" where
  "send_auth_request t d = (case adb_auth_generate_token d of
       None \<Rightarrow> Inr d
     | Some tok \<Rightarrow>
         andthen (upd_trans t (\<lambda>x. x\<lparr>token := tok\<rparr>) d) (\<lambda>d1.
         andthen (new_packet (ds d1)) (\<lambda>p.
           on_ds (send_packet (p\<lparr>a_msg := (a_msg p)\<lparr>command := A_AUTH, arg0 := ADB_AUTH_TOKEN,
             data_length := word_of_nat (length tok)\<rparr>, a_data := tok @ drop (length tok) (a_data p)\<rparr>) t) d1)))"

definition adb_auth_verified :: "addr \<Rightarrow> daemon \<Rightarrow> daemon outcome" where
  "adb_auth_verified t d = andthen (handle_online t d) (send_connect t)"

section \<open>Authentication\<close>

text \<open>The stubs of \<open>adb_auth.h\<close> and the verification, whose body is commented out in the source.\<close>

definition adb_auth_sign :: "addr \<Rightarrow> bytes \<Rightarrow> nat" where "adb_auth_sign key tok = 0"
definition adb_auth_nextkey :: "addr \<Rightarrow> addr" where "adb_auth_nextkey current = 0"
definition adb_auth_get_userkey :: "bytes \<Rightarrow> nat" where "adb_auth_get_userkey data = 0"
definition adb_auth_verify :: "bytes \<Rightarrow> bytes \<Rightarrow> u32 \<Rightarrow> int" where "adb_auth_verify tok sig siglen = 0"

definition send_auth_response :: "bytes \<Rightarrow> addr \<Rightarrow> daemon \<Rightarrow> daemon outcome" where
  "send_auth_response tok t d = andthen (get_trans t d) (\<lambda>x. andthen (new_packet (ds d)) (\<lambda>p.
     let ret = adb_auth_sign (t_key x) tok in
     if ret = 0 then Inr d
     else on_ds (send_packet (p\<lparr>a_msg := (a_msg p)\<lparr>command := A_AUTH, arg0 := ADB_AUTH_SIGNATURE,
       data_length := word_of_nat ret\<rparr>\<rparr>) t) d))"

definition send_auth_publickey :: "addr \<Rightarrow> daemon \<Rightarrow> daemon outcome" where
  "send_auth_publickey t d = andthen (new_packet (ds d)) (\<lambda>p.
     let ret = adb_auth_get_userkey (a_data p) in
     if ret = 0 then Inr d
     else on_ds (send_packet (p\<lparr>a_msg := (a_msg p)\<lparr>command := A_AUTH, arg0 := ADB_AUTH_RSAPUBLICKEY,
       data_length := word_of_nat ret\<rparr>\<rparr>) t) d)"

text \<open>\<open>adb_auth_confirm_key\<close>: the key goes to the framework, and its answer is waited for. A length of 0
  makes the test of the last byte read before the buffer.\<close>

definition adb_auth_confirm_key :: "bytes \<Rightarrow> u32 \<Rightarrow> addr \<Rightarrow> daemon \<Rightarrow> daemon outcome" where
  "adb_auth_confirm_key key len t d =
    (if framework_fd d < 0 then Inr d
     else if len = 0 \<or> unat len > length key then Inl OutOfBounds
     else if key ! (unat len - 1) \<noteq> 0 then Inr d
     else andthen (cstr key) (\<lambda>s.
       if length s + 2 \<ge> MAX_PAYLOAD then Inr d
       else andthen (adb_write (framework_fd d) (bytes_of (''PK'' @ s)) (wld (ds d))) (\<lambda>(r, w).
         let d1 = d\<lparr>ds := (ds d)\<lparr>wld := w\<rparr>\<rparr> in
         case r of
           Inl _ \<Rightarrow> Inr d1
         | Inr _ \<Rightarrow>
             andthen (on_ds (on_evl (fdevent_install (auth_fde t) (framework_fd d) (Handler 2) t)) d1)
               (on_ds (on_evl (fdevent_add (auth_fde t) FDE_READ))))))"

section \<open>The handler\<close>

definition handle_sync :: "apacket \<Rightarrow> addr \<Rightarrow> daemon \<Rightarrow> daemon outcome" where
  "handle_sync p t d =
    (if arg0 (a_msg p) \<noteq> 0 then
       andthen (on_ds (send_packet p t) d) (\<lambda>d1. if HOST d1 then send_connect t d1 else Inr d1)
     else
       andthen (upd_trans t (\<lambda>x. x\<lparr>connection_state := CS_OFFLINE\<rparr>) d) (\<lambda>d1.
       andthen (handle_offline t d1) (on_ds (send_packet p t))))"

definition handle_cnxn :: "apacket \<Rightarrow> addr \<Rightarrow> daemon \<Rightarrow> daemon outcome" where
  "handle_cnxn p t d = andthen (get_trans t d) (\<lambda>x.
     andthen
       (if connection_state x \<noteq> CS_OFFLINE then
          andthen (upd_trans t (\<lambda>x. x\<lparr>connection_state := CS_OFFLINE\<rparr>) d) (handle_offline t)
        else Inr d)
       (\<lambda>d1. andthen (get_trans t d1) (\<lambda>x1. andthen (parse_banner (a_data p) x1) (\<lambda>x2.
         andthen (upd_trans t (\<lambda>_. x2) d1) (\<lambda>d2.
           if HOST d2 \<or> \<not> auth_enabled d2 then
             andthen (handle_online t d2) (\<lambda>d3. if \<not> HOST d3 then send_connect t d3 else Inr d3)
           else send_auth_request t d2)))))"

definition handle_auth :: "apacket \<Rightarrow> addr \<Rightarrow> daemon \<Rightarrow> daemon outcome" where
  "handle_auth p t d =
    (let m = a_msg p in
     if arg0 m = ADB_AUTH_TOKEN then
       andthen (upd_trans t (\<lambda>x. x\<lparr>t_key := adb_auth_nextkey (t_key x)\<rparr>) d) (\<lambda>d1.
       andthen (get_trans t d1) (\<lambda>x.
         if t_key x \<noteq> 0 then send_auth_response (a_data p) t d1 else send_auth_publickey t d1))
     else if arg0 m = ADB_AUTH_SIGNATURE then
       andthen (get_trans t d) (\<lambda>x.
         if adb_auth_verify (token x) (a_data p) (data_length m) \<noteq> 0 then
           andthen (adb_auth_verified t d) (upd_trans t (\<lambda>x. x\<lparr>failed_auth_attempts := 0\<rparr>))
         else
           andthen (upd_trans t (\<lambda>x. x\<lparr>failed_auth_attempts := failed_auth_attempts x + 1\<rparr>) d) (send_auth_request t))
     else if arg0 m = ADB_AUTH_RSAPUBLICKEY then adb_auth_confirm_key (a_data p) (data_length m) t d
     else Inr d)"

text \<open>\<open>A_OPEN\<close>: the service name, terminated in place, and the pair of sockets.\<close>

definition handle_open ::
  "(string \<Rightarrow> dstate \<Rightarrow> (addr \<times> dstate) outcome) \<Rightarrow> apacket \<Rightarrow> addr \<Rightarrow> dstate \<Rightarrow> dstate outcome" where
  "handle_open open_service p t st =
    (let n = unat (data_length (a_msg p)); i = (if n > 0 then n - 1 else 0) in
     if i \<ge> length (a_data p) then Inl OutOfBounds
     else andthen (cstr ((a_data p)[i := 0])) (\<lambda>name.
       andthen (open_service name st) (\<lambda>(s, st1).
         if s = 0 then send_close 0 (arg0 (a_msg p)) t st1
         else
           andthen (create_remote_socket (arg0 (a_msg p)) t st1) (\<lambda>(r, st2).
           andthen (upd_sock s (\<lambda>x. x\<lparr>peer := r\<rparr>) st2) (\<lambda>st3.
           andthen (upd_sock r (\<lambda>x. x\<lparr>peer := s\<rparr>) st3) (\<lambda>st4.
           andthen (get_sock s st4) (\<lambda>x. andthen (get_sock r st4) (\<lambda>y.
           andthen (send_ready (s_id x) (s_id y) t st4) (sock_ready s)))))))))"

definition handle_okay :: "apacket \<Rightarrow> addr \<Rightarrow> dstate \<Rightarrow> dstate outcome" where
  "handle_okay p t st = andthen (find_local_socket (arg1 (a_msg p)) st) (\<lambda>r. case r of
       None \<Rightarrow> Inr st
     | Some s \<Rightarrow> andthen (get_sock s st) (\<lambda>x.
         andthen
           (if peer x = 0 then
              andthen (create_remote_socket (arg0 (a_msg p)) t st) (\<lambda>(r, st1).
              andthen (upd_sock s (\<lambda>x. x\<lparr>peer := r\<rparr>) st1) (upd_sock r (\<lambda>x. x\<lparr>peer := s\<rparr>)))
            else Inr st)
           (sock_ready s)))"

definition handle_clse :: "apacket \<Rightarrow> dstate \<Rightarrow> dstate outcome" where
  "handle_clse p st = andthen (find_local_socket (arg1 (a_msg p)) st) (\<lambda>r. case r of
     None \<Rightarrow> Inr st | Some s \<Rightarrow> close_sock s st)"

definition handle_wrte :: "apacket \<Rightarrow> addr \<Rightarrow> dstate \<Rightarrow> dstate outcome" where
  "handle_wrte p t st = andthen (find_local_socket (arg1 (a_msg p)) st) (\<lambda>r. case r of
     None \<Rightarrow> Inr st
   | Some s \<Rightarrow>
       andthen (sock_enqueue s (p\<lparr>a_len := data_length (a_msg p)\<rparr>) st) (\<lambda>(q, st1).
         if q = 0 then andthen (get_sock s st1) (\<lambda>x. send_ready (s_id x) (arg0 (a_msg p)) t st1) else Inr st1))"

definition handle_packet ::
  "(string \<Rightarrow> dstate \<Rightarrow> (addr \<times> dstate) outcome) \<Rightarrow> apacket \<Rightarrow> addr \<Rightarrow> daemon \<Rightarrow> daemon outcome" where
  "handle_packet open_service p t d =
    (let c = command (a_msg p) in
     if c = A_SYNC then handle_sync p t d
     else if c = A_CNXN then handle_cnxn p t d
     else if c = A_AUTH then handle_auth p t d
     else if c \<in> {A_OPEN, A_OKAY, A_CLSE, A_WRTE} then
       andthen (get_trans t d) (\<lambda>x.
         if \<not> online x then Inr d
         else on_ds
           (if c = A_OPEN then handle_open open_service p t
            else if c = A_OKAY then handle_okay p t
            else if c = A_CLSE then handle_clse p
            else handle_wrte p t) d)
     else Inr d)"

section \<open>Before authentication\<close>

text \<open>A sequence of packets from one transport.\<close>

fun handle_packets ::
  "(string \<Rightarrow> dstate \<Rightarrow> (addr \<times> dstate) outcome) \<Rightarrow> apacket list \<Rightarrow> addr \<Rightarrow> daemon \<Rightarrow> daemon outcome" where
  "handle_packets open_service [] t d = Inr d"
| "handle_packets open_service (p # ps) t d = andthen (handle_packet open_service p t d) (handle_packets open_service ps t)"

text \<open>The transport waits for authentication: it is not online and no remote socket hangs on it.\<close>

definition locked_out :: "addr \<Rightarrow> daemon \<Rightarrow> bool" where
  "locked_out t d \<longleftrightarrow> auth_enabled d \<and> \<not> HOST d \<and>
     (\<exists>x. trans (ds d) t = Some x \<and> \<not> online x \<and> disconnects x = [])"

text \<open>No socket was opened, closed or written, no other transport changed, and only handshake packets
  were sent, all of them to \<open>t\<close>.\<close>

definition only_handshake :: "addr \<Rightarrow> daemon \<Rightarrow> daemon \<Rightarrow> bool" where
  "only_handshake t d d' \<longleftrightarrow> socks (ds d') = socks (ds d) \<and> sock_list (ds d') = sock_list (ds d) \<and>
     closing_list (ds d') = closing_list (ds d) \<and> next_id (ds d') = next_id (ds d) \<and>
     (\<forall>u. u \<noteq> t \<longrightarrow> trans (ds d') u = trans (ds d) u) \<and>
     (\<exists>ps. sent (ds d') = sent (ds d) @ ps \<and> (\<forall>q \<in> set ps. fst q = t \<and> command (a_msg (snd q)) \<in> {A_SYNC, A_AUTH}))"

lemma only_handshake_refl [simp]: "only_handshake t d d"
  by (auto simp: only_handshake_def)

lemma only_handshake_trans [trans]:
  assumes "only_handshake t d e" and "only_handshake t e f"
  shows "only_handshake t d f"
proof -
  let ?ok = "\<lambda>qs. \<forall>q \<in> set qs. fst q = t \<and> command (a_msg (snd q)) \<in> {A_SYNC, A_AUTH}"
  obtain ps qs where "sent (ds e) = sent (ds d) @ ps" "?ok ps" "sent (ds f) = sent (ds e) @ qs" "?ok qs"
    using assms unfolding only_handshake_def by blast
  then have "sent (ds f) = sent (ds d) @ (ps @ qs) \<and> ?ok (ps @ qs)" by auto
  then have "\<exists>ps. sent (ds f) = sent (ds d) @ ps \<and> ?ok ps" by blast
  moreover from assms have "socks (ds f) = socks (ds d)" "sock_list (ds f) = sock_list (ds d)"
    "closing_list (ds f) = closing_list (ds d)" "next_id (ds f) = next_id (ds d)"
    "\<forall>u. u \<noteq> t \<longrightarrow> trans (ds f) u = trans (ds d) u"
    by (simp_all add: only_handshake_def)
  ultimately show ?thesis unfolding only_handshake_def by blast
qed

definition kept_out :: "addr \<Rightarrow> daemon \<Rightarrow> daemon \<Rightarrow> bool" where
  "kept_out t d d' \<longleftrightarrow> locked_out t d' \<and> only_handshake t d d'"

lemma kept_out_step:
  assumes "safely m (kept_out t d)" and "\<And>e. locked_out t e \<Longrightarrow> safely (f e) (kept_out t e)"
  shows "safely (andthen m f) (kept_out t d)"
  unfolding safely_def
proof (intro allI impI)
  fix d' assume "andthen m f = Inr d'"
  then obtain e where e: "m = Inr e" "f e = Inr d'" by (auto simp: andthen_Inr_iff)
  then have "kept_out t d e" "kept_out t e d'" using assms by (auto simp: safely_def kept_out_def)
  then show "kept_out t d d'" using only_handshake_trans by (auto simp: kept_out_def)
qed

lemma upd_trans_out:
  assumes "locked_out t d" and "\<And>x. \<not> online x \<Longrightarrow> disconnects x = [] \<Longrightarrow> \<not> online (f x) \<and> disconnects (f x) = []"
  shows "safely (upd_trans t f d) (kept_out t d)"
  unfolding safely_def
proof (intro allI impI)
  fix d' assume u: "upd_trans t f d = Inr d'"
  obtain x where x: "trans (ds d) t = Some x" "\<not> online x" "disconnects x = []" "auth_enabled d" "\<not> HOST d"
    using assms(1) by (auto simp: locked_out_def)
  with u have "d' = d\<lparr>ds := (ds d)\<lparr>trans := (trans (ds d))(t := Some (f x))\<rparr>\<rparr>"
    by (auto simp: upd_trans_def get_trans_def split: if_splits)
  with x assms(2) [OF x(2,3)] show "kept_out t d d'" by (simp add: kept_out_def locked_out_def only_handshake_def)
qed

lemma seal_packet_command: "seal_packet p = Inr q \<Longrightarrow> command (a_msg q) = command (a_msg p)"
  by (auto simp: seal_packet_def andthen_Inr_iff split: if_splits)

lemma send_packet_out:
  assumes "locked_out t d" and "command (a_msg p) \<in> {A_SYNC, A_AUTH}"
  shows "safely (on_ds (send_packet p t) d) (kept_out t d)"
proof (cases "t = 0")
  case True
  with assms show ?thesis by (simp add: on_ds_def send_packet_def kept_out_def)
next
  case False
  have "kept_out t d d'" if q: "seal_packet p = Inr q" and d': "d' = d\<lparr>ds := (ds d)\<lparr>sent := sent (ds d) @ [(t, q)]\<rparr>\<rparr>" for q d'
  proof -
    have "command (a_msg q) \<in> {A_SYNC, A_AUTH}" using assms(2) seal_packet_command [OF q] by simp
    then have "only_handshake t d d'" unfolding only_handshake_def d' by auto
    moreover have "locked_out t d'" using assms(1) d' by (simp add: locked_out_def)
    ultimately show ?thesis by (simp add: kept_out_def)
  qed
  with False show ?thesis
    by (auto simp: safely_def on_ds_def send_packet_def andthen_Inr_iff split: if_splits)
qed

lemma handle_offline_out:
  assumes "locked_out t d"
  shows "safely (handle_offline t d) (kept_out t d)"
  unfolding handle_offline_def
proof (rule kept_out_step [OF upd_trans_out [OF assms]])
  fix e assume "locked_out t e"
  then show "safely (run_transport_disconnects t e) (kept_out t e)"
    by (auto simp: safely_def run_transport_disconnects_def get_trans_def on_ds_def andthen_Inr_iff locked_out_def
        kept_out_def split: if_splits)
qed simp_all

lemma send_auth_request_out:
  assumes "locked_out t d"
  shows "safely (send_auth_request t d) (kept_out t d)"
proof (cases "adb_auth_generate_token d")
  case None
  with assms show ?thesis by (simp add: send_auth_request_def kept_out_def)
next
  case (Some tok)
  have "safely (andthen (new_packet (ds e)) (\<lambda>p. on_ds (send_packet (p\<lparr>a_msg := (a_msg p)\<lparr>command := A_AUTH,
      arg0 := ADB_AUTH_TOKEN, data_length := word_of_nat (length tok)\<rparr>, a_data := tok @ drop (length tok) (a_data p)\<rparr>) t) e))
      (kept_out t e)" if "locked_out t e" for e
    by (intro safely_andthen_any send_packet_out that) simp
  with Some show ?thesis unfolding send_auth_request_def
    by (auto intro!: kept_out_step upd_trans_out [OF assms])
qed

lemma fold_banner_token: "online (fold banner_token ts x) = online x \<and> disconnects (fold banner_token ts x) = disconnects x"
proof (induction ts arbitrary: x)
  case (Cons tok ts)
  have "online (banner_token tok x) = online x" "disconnects (banner_token tok x) = disconnects x"
    by (simp_all add: banner_token_def Let_def split: option.split)
  with Cons.IH [of "banner_token tok x"] show ?case by simp
qed simp

lemma parse_banner_keeps:
  assumes "parse_banner data x = Inr y"
  shows "online y = online x \<and> disconnects y = disconnects x"
proof -
  obtain s where "cstr data = Inr s" using assms by (auto simp: parse_banner_def andthen_Inr_iff)
  with assms show ?thesis
    by (cases "strchr s (CHR '':'')"; cases "strchr (tl (the (strchr s (CHR '':'')))) (CHR '':'')")
      (auto simp: parse_banner_def Let_def fold_banner_token)
qed

lemma on_evl_out: "locked_out t d \<Longrightarrow> safely (on_ds (on_evl f) d) (kept_out t d)"
  by (auto simp: safely_def on_ds_def on_evl_def andthen_Inr_iff kept_out_def locked_out_def only_handshake_def)

lemma confirm_key_out:
  assumes out: "locked_out t d"
  shows "safely (adb_auth_confirm_key key len t d) (kept_out t d)"
proof -
  have w: "kept_out t d (d\<lparr>ds := (ds d)\<lparr>wld := w\<rparr>\<rparr>)" for w
    using out by (simp add: kept_out_def locked_out_def only_handshake_def)
  have inst: "safely (andthen (on_ds (on_evl f) d1) (on_ds (on_evl g))) (kept_out t d1)" if "locked_out t d1" for d1 f g
    using that by (intro kept_out_step on_evl_out)
  have inst': "safely (andthen (on_ds (on_evl f) (d\<lparr>ds := (ds d)\<lparr>wld := w\<rparr>\<rparr>)) (on_ds (on_evl g))) (kept_out t d)" for w f g
    using kept_out_step [of "Inr (d\<lparr>ds := (ds d)\<lparr>wld := w\<rparr>\<rparr>)" t d "\<lambda>e. andthen (on_ds (on_evl f) e) (on_ds (on_evl g))"] w inst by simp
  have ans: "safely (case q of (r, w) \<Rightarrow> let d1 = d\<lparr>ds := (ds d)\<lparr>wld := w\<rparr>\<rparr> in case r of Inl _ \<Rightarrow> Inr d1
      | Inr (_ :: nat) \<Rightarrow> andthen (on_ds (on_evl (fdevent_install (auth_fde t) (framework_fd d) (Handler 2) t)) d1)
          (on_ds (on_evl (fdevent_add (auth_fde t) FDE_READ)))) (kept_out t d)" for q :: "(errno + nat) \<times> world"
    using w inst' by (cases q; cases "fst q") (simp_all add: Let_def)
  have wr: "safely (andthen m (\<lambda>q. case q of (r, w) \<Rightarrow> let d1 = d\<lparr>ds := (ds d)\<lparr>wld := w\<rparr>\<rparr> in case r of Inl _ \<Rightarrow> Inr d1
      | Inr (_ :: nat) \<Rightarrow> andthen (on_ds (on_evl (fdevent_install (auth_fde t) (framework_fd d) (Handler 2) t)) d1)
          (on_ds (on_evl (fdevent_add (auth_fde t) FDE_READ))))) (kept_out t d)" for m :: "((errno + nat) \<times> world) outcome"
    by (intro safely_andthen_any ans)
  have "kept_out t d d" using out by (simp add: kept_out_def)
  then show ?thesis unfolding adb_auth_confirm_key_def
    by (auto intro!: safely_andthen_any wr)
qed

lemma handle_sync_out:
  assumes "locked_out t d" and "command (a_msg p) = A_SYNC"
  shows "safely (handle_sync p t d) (kept_out t d)"
proof (cases "arg0 (a_msg p) \<noteq> 0")
  case True
  have "safely (if HOST e then send_connect t e else Inr e) (kept_out t e)" if "locked_out t e" for e
    using that by (simp add: kept_out_def locked_out_def)
  with True assms show ?thesis by (auto simp: handle_sync_def intro!: kept_out_step send_packet_out)
next
  case False
  with assms show ?thesis
    by (auto simp: handle_sync_def intro!: kept_out_step send_packet_out handle_offline_out upd_trans_out)
qed

lemma handle_cnxn_out:
  assumes out: "locked_out t d"
  shows "safely (handle_cnxn p t d) (kept_out t d)"
proof -
  let ?drop = "\<lambda>x. if connection_state x \<noteq> CS_OFFLINE then
      andthen (upd_trans t (\<lambda>x. x\<lparr>connection_state := CS_OFFLINE\<rparr>) d) (handle_offline t) else Inr d"
  have drop: "safely (?drop x) (kept_out t d)" for x
  proof (cases "connection_state x \<noteq> CS_OFFLINE")
    case True
    then show ?thesis using out by (auto intro!: kept_out_step handle_offline_out upd_trans_out)
  next
    case False
    then show ?thesis using out by (simp add: kept_out_def)
  qed
  have rest: "safely (andthen (get_trans t e) (\<lambda>x1. andthen (parse_banner (a_data p) x1) (\<lambda>x2.
      andthen (upd_trans t (\<lambda>_. x2) e) (\<lambda>d2. if HOST d2 \<or> \<not> auth_enabled d2 then
        andthen (handle_online t d2) (\<lambda>d3. if \<not> HOST d3 then send_connect t d3 else Inr d3)
        else send_auth_request t d2)))) (kept_out t e)" if e: "locked_out t e" for e
  proof (rule safely_andthen [where P = "\<lambda>x1. \<not> online x1 \<and> disconnects x1 = []"])
    show "safely (get_trans t e) (\<lambda>x1. \<not> online x1 \<and> disconnects x1 = [])"
      using e by (auto simp: get_trans_def locked_out_def)
    fix x1 :: atransport assume x1: "\<not> online x1 \<and> disconnects x1 = []"
    show "safely (andthen (parse_banner (a_data p) x1) (\<lambda>x2.
      andthen (upd_trans t (\<lambda>_. x2) e) (\<lambda>d2. if HOST d2 \<or> \<not> auth_enabled d2 then
        andthen (handle_online t d2) (\<lambda>d3. if \<not> HOST d3 then send_connect t d3 else Inr d3)
        else send_auth_request t d2))) (kept_out t e)"
    proof (rule safely_andthen [where P = "\<lambda>x2. \<not> online x2 \<and> disconnects x2 = []"])
      show "safely (parse_banner (a_data p) x1) (\<lambda>x2. \<not> online x2 \<and> disconnects x2 = [])"
        using parse_banner_keeps [of "a_data p" x1] x1 by (auto simp: safely_def)
    next
      fix x2 :: atransport assume "\<not> online x2 \<and> disconnects x2 = []"
      then show "safely (andthen (upd_trans t (\<lambda>_. x2) e) (\<lambda>d2. if HOST d2 \<or> \<not> auth_enabled d2 then
        andthen (handle_online t d2) (\<lambda>d3. if \<not> HOST d3 then send_connect t d3 else Inr d3)
        else send_auth_request t d2)) (kept_out t e)"
        by (intro kept_out_step upd_trans_out [OF e])
          (auto simp: locked_out_def [of t] intro!: send_auth_request_out [unfolded locked_out_def])
    qed
  qed
  show ?thesis unfolding handle_cnxn_def
    by (intro safely_andthen_any kept_out_step [OF drop rest])
qed

lemma handle_auth_out:
  assumes out: "locked_out t d"
  shows "safely (handle_auth p t d) (kept_out t d)"
proof -
  have key: "safely (andthen (get_trans t e) (\<lambda>x.
      if t_key x \<noteq> 0 then send_auth_response (a_data p) t e else send_auth_publickey t e)) (kept_out t e)"
    if "locked_out t e" for e
    using that by (auto simp: safely_def send_auth_response_def send_auth_publickey_def adb_auth_sign_def
        adb_auth_get_userkey_def andthen_Inr_iff kept_out_def Let_def split: if_splits)
  have sig: "safely (andthen (get_trans t d) (\<lambda>x.
      if adb_auth_verify (token x) (a_data p) (data_length (a_msg p)) \<noteq> 0
      then andthen (adb_auth_verified t d) (upd_trans t (\<lambda>x. x\<lparr>failed_auth_attempts := 0\<rparr>))
      else andthen (upd_trans t (\<lambda>x. x\<lparr>failed_auth_attempts := failed_auth_attempts x + 1\<rparr>) d) (send_auth_request t)))
      (kept_out t d)"
    by (rule safely_andthen_any)
      (simp add: adb_auth_verify_def kept_out_step upd_trans_out [OF out] send_auth_request_out)
  have "safely (andthen (upd_trans t (\<lambda>x. x\<lparr>t_key := adb_auth_nextkey (t_key x)\<rparr>) d) (\<lambda>d1. andthen (get_trans t d1) (\<lambda>x.
      if t_key x \<noteq> 0 then send_auth_response (a_data p) t d1 else send_auth_publickey t d1))) (kept_out t d)"
    by (rule kept_out_step [OF upd_trans_out [OF out] key]) simp_all
  with sig confirm_key_out [OF out] out show ?thesis by (simp add: handle_auth_def Let_def kept_out_def)
qed

lemma handle_packet_out:
  assumes out: "locked_out t d"
  shows "safely (handle_packet open_service p t d) (kept_out t d)"
proof -
  have "safely (andthen (get_trans t d) (\<lambda>x. if \<not> online x then Inr d else g x)) (kept_out t d)" for g
    using out by (auto simp: safely_def get_trans_def locked_out_def kept_out_def)
  then show ?thesis
    using handle_sync_out [OF out, of p] handle_cnxn_out [OF out, of p] handle_auth_out [OF out, of p] out
    by (simp add: handle_packet_def Let_def kept_out_def)
qed

text \<open>C1: the authentication gate. While authentication is required, no sequence of packets whatever
  makes a transport that is not online do more than the handshake: it stays offline, no socket is
  opened, closed or changed, no other transport is affected, and everything the daemon sends in
  return is a SYNC or an AUTH packet on the same transport.\<close>

theorem auth_gate:
  assumes "locked_out t d" and "handle_packets open_service ps t d = Inr d'"
  shows "locked_out t d' \<and> only_handshake t d d'"
proof -
  have "safely (handle_packets open_service ps t d) (kept_out t d)" if "locked_out t d" for d
    using that
  proof (induction ps arbitrary: d)
    case Nil
    then show ?case by (simp add: kept_out_def)
  next
    case (Cons p ps)
    then show ?case unfolding handle_packets.simps by (intro kept_out_step handle_packet_out)
  qed
  with assms show ?thesis by (auto simp: safely_def kept_out_def)
qed

section \<open>Opening a stream\<close>

text \<open>A local socket without a peer gets a new remote socket as its peer: the three calls of
  \<open>A_OPEN\<close> and of the first \<open>A_OKAY\<close>, before the continuation \<open>k\<close>.\<close>

lemma connect_pair:
  assumes inv: "sock_inv st" and room: "room_ok st" and t: "t \<noteq> 0" "trans st t = Some x"
    and s: "socks st a = Some s" "local_sock s" "peer s = 0" "close s = LocalFn" "\<not> closing s"
  obtains st' where "\<And>k. andthen (create_remote_socket rid t st) (\<lambda>(r, st2).
      andthen (upd_sock a (\<lambda>x. x\<lparr>peer := r\<rparr>) st2) (\<lambda>st3.
      andthen (upd_sock r (\<lambda>x. x\<lparr>peer := a\<rparr>) st3) (\<lambda>st4. k r st4))) = (k (fresh st) st' :: 'a outcome)"
    and "sock_inv st'" and "sent st' = sent st" and "junk st' = junk st" and "evl st' = evl st"
    and "trans st' = (trans st)(t \<mapsto> x\<lparr>disconnects := disconnects x @ [fresh st]\<rparr>)"
    and "sock_list st' = sock_list st" and "sock_lock st' = sock_lock st" and "wld st' = wld st"
    and "socks st' = (socks st)(a := Some (s\<lparr>peer := fresh st\<rparr>), fresh st := Some (zero_socket\<lparr>s_id := rid,
      enqueue := RemoteFn, ready := RemoteFn, close := RemoteFn, s_transport := t, peer := a\<rparr>))"
proof -
  let ?r = "zero_socket\<lparr>s_id := rid, enqueue := RemoteFn, ready := RemoteFn, close := RemoteFn, s_transport := t\<rparr>"
  let ?b = "fresh st"
  obtain st2 where st2: "create_remote_socket rid t st = Inr (?b, st2)" "sock_inv st2"
    "socks st2 = (socks st)(?b := Some ?r)" "trans st2 = (trans st)(t := Some (x\<lparr>disconnects := disconnects x @ [?b]\<rparr>))"
    "sent st2 = sent st" "evl st2 = evl st" "junk st2 = junk st" "sock_list st2 = sock_list st" "sock_lock st2 = sock_lock st" "wld st2 = wld st"
    using create_remote_inv [OF inv room t] by blast
  have "socks st ?b = None" "?b \<noteq> 0" using room by (auto simp: room_ok_def)
  with s(1) have ab: "a \<noteq> ?b" "?b \<noteq> 0" "a \<noteq> 0" using sock_invD [OF inv s(1)] by (auto simp: sock_ok_def)
  let ?st = "st2\<lparr>socks := (socks st2)(a := Some (s\<lparr>peer := ?b\<rparr>), ?b := Some (?r\<lparr>peer := a\<rparr>))\<rparr>"
  have "sock_inv ?st"
    by (rule sock_inv_pair [OF st2(2), of a s ?b ?r]) (use s ab st2(3) in \<open>simp_all add: sock_kinds zero_socket_def\<close>)
  moreover have "andthen (create_remote_socket rid t st) (\<lambda>(r, st2).
      andthen (upd_sock a (\<lambda>x. x\<lparr>peer := r\<rparr>) st2) (\<lambda>st3.
      andthen (upd_sock r (\<lambda>x. x\<lparr>peer := a\<rparr>) st3) (\<lambda>st4. k r st4))) = (k ?b ?st :: 'a outcome)" for k
    using st2(1,3) s(1) ab by (simp add: upd_sock_def get_sock_def)
  ultimately show ?thesis using st2 ab by (intro that [of ?st]) (simp_all add: fun_upd_twist)
qed

lemma local_ready:
  assumes inv: "sock_inv st" and s: "socks st a = Some s" "local_sock s" "ready s = LocalFn"
  obtains l where "sock_ready a st = Inr (st\<lparr>evl := l\<rparr>)" and "sock_inv (st\<lparr>evl := l\<rparr>)"
    and "want (fde_state (fdes l a)) = want (fde_state (fdes (evl st) a)) OR FDE_READ"
proof -
  note loc = local_listed [OF inv s(1,2)]
  obtain pend where pend: "loop_inv (evl st) pend" using inv by (auto simp: sock_inv_def)
  obtain l pend' where l: "fdevent_add a FDE_READ (evl st) = Inr l" "loop_inv l pend'" "loop_frame a (evl st) l"
    "active (fde_state (fdes l a))" "want (fde_state (fdes l a)) = want (fde_state (fdes (evl st) a)) OR FDE_READ"
    "target (fdes l a) = target (fdes (evl st) a)"
    using fdevent_add_promise [OF pend loc(3) io_events_simps(2) loc(4)] by blast
  have "sock_inv (st\<lparr>evl := l\<rparr>)" using l by (intro sock_inv_evl [OF inv, of l pend' a]) simp_all
  then show ?thesis using l(1,5) get_sock_live [OF inv s(1)] s(3) that [of l]
    by (simp add: sock_ready_def local_socket_ready_def on_evl_def)
qed

text \<open>Which services make the daemon exit when their socket is closed.\<close>

definition exits :: "nat \<Rightarrow> string \<Rightarrow> bool" where
  "exits uid name \<longleftrightarrow> starts_with ''root:'' name \<and> uid \<noteq> 0 \<or> starts_with ''usb:'' name \<or> starts_with ''tcpip:'' name"

lemma service_socket:
  assumes name: "name \<noteq> ''jdwp''" "name \<noteq> ''track-jdwp''" and fd: "service_to_fd name st = Inr (int fd, st1)"
    and st1: "sock_inv st1" "room_ok st1" "new_fd fd st1" "\<not> sock_lock st1"
  obtains st2 where "create_local_service_socket jdwp track service_to_fd uid name st = Inr (fresh st1, st2)"
    and "sock_inv st2" and "room_ok st2"
    and "socks st2 = (socks st1)(fresh st1 := Some (zero_socket\<lparr>s_fd := int fd, s_id := next_id st1, exit_on_close := exits uid name\<rparr>))"
    and "trans st2 = trans st1" and "sent st2 = sent st1" and "junk st2 = junk st1" and "fresh st2 = fresh st1 + 1"
    and "sock_list st2 = sock_list st1 @ [fresh st1]" and "\<not> sock_lock st2" and "wld st2 = wld st1"
    and "fde_state (fdes (evl st2) (fresh st1)) = FDE_ACTIVE"
proof -
  let ?s = "zero_socket\<lparr>s_fd := int fd, s_id := next_id st1\<rparr>"
  obtain st2 where st2: "create_local_socket (int fd) st1 = Inr (fresh st1, st2)" "sock_inv st2" "room_ok st2"
    "socks st2 = (socks st1)(fresh st1 := Some ?s)" "trans st2 = trans st1" "sent st2 = sent st1" "junk st2 = junk st1"
    "fresh st2 = fresh st1 + 1" "sock_list st2 = sock_list st1 @ [fresh st1]" "\<not> sock_lock st2" "wld st2 = wld st1"
    "fde_state (fdes (evl st2) (fresh st1)) = FDE_ACTIVE"
    using create_local_inv [OF st1] by blast
  have nz: "fresh st1 \<noteq> 0" using st1(2) by (auto simp: room_ok_def)
  let ?st = "st2\<lparr>socks := (socks st2)(fresh st1 := Some (?s\<lparr>exit_on_close := True\<rparr>))\<rparr>"
  show ?thesis
  proof (cases "exits uid name")
    case False
    then have eq: "create_local_service_socket jdwp track service_to_fd uid name st = Inr (fresh st1, st2)"
      using name fd st2(1) by (auto simp: create_local_service_socket_def exits_def)
    show ?thesis by (rule that [OF eq st2(2,3) _ st2(5-12)]) (simp add: st2(4) False zero_socket_def)
  next
    case True
    have "sock_inv ?st" by (rule sock_inv_fields [OF st2(2), of "fresh st1" ?s]) (simp_all add: st2(4))
    moreover have "create_local_service_socket jdwp track service_to_fd uid name st = Inr (fresh st1, ?st)"
      using True name fd st2(1,4) nz by (auto simp: create_local_service_socket_def exits_def upd_sock_def get_sock_def)
    moreover have "room_ok ?st" using st2(3,8) by (simp add: room_ok_def)
    ultimately show ?thesis using st2 True by (intro that [of ?st]) simp_all
  qed
qed

definition open_name :: "apacket \<Rightarrow> string \<Rightarrow> bool" where
  "open_name p name \<longleftrightarrow> unat (data_length (a_msg p)) \<le> length (a_data p) \<and> a_data p \<noteq> [] \<and>
     cstr ((a_data p)[unat (data_length (a_msg p)) - 1 := 0]) = Inr name"

lemma open_pair:
  assumes t: "t \<noteq> 0" "trans st1 t = Some x" and p: "open_name p name" "name \<noteq> ''jdwp''" "name \<noteq> ''track-jdwp''"
    and fd: "service_to_fd name st = Inr (int fd, st1)"
    and st1: "sock_inv st1" "room_ok st1" "new_fd fd st1" "\<not> sock_lock st1"
  shows "\<exists>st'. handle_open (create_local_service_socket jdwp track service_to_fd uid) p t st = Inr st' \<and> sock_inv st' \<and>
    socks st' = (socks st1)(
      fresh st1 := Some (zero_socket\<lparr>s_fd := int fd, s_id := next_id st1, exit_on_close := exits uid name, peer := fresh st1 + 1\<rparr>),
      fresh st1 + 1 := Some (zero_socket\<lparr>s_id := arg0 (a_msg p), enqueue := RemoteFn, ready := RemoteFn, close := RemoteFn,
        s_transport := t, peer := fresh st1\<rparr>)) \<and>
    sent st' = sent st1 @ [(t, sealed_msg (junk st1) A_OKAY (next_id st1) (arg0 (a_msg p)))] \<and>
    want (fde_state (fdes (evl st') (fresh st1))) = FDE_READ \<and> sock_list st' = sock_list st1 @ [fresh st1] \<and> \<not> sock_lock st' \<and>
    wld st' = wld st1 \<and> (\<exists>ns. trans st' = (trans st1)(t \<mapsto> x\<lparr>disconnects := ns\<rparr>))"
proof -
  let ?a = "fresh st1" and ?b = "fresh st1 + 1" and ?sid = "next_id st1" and ?rid = "arg0 (a_msg p)"
  let ?s = "zero_socket\<lparr>s_fd := int fd, s_id := ?sid, exit_on_close := exits uid name\<rparr>"
  let ?r = "zero_socket\<lparr>s_id := ?rid, enqueue := RemoteFn, ready := RemoteFn, close := RemoteFn, s_transport := t, peer := ?a\<rparr>"
  obtain st2 where st2: "create_local_service_socket jdwp track service_to_fd uid name st = Inr (?a, st2)"
    "sock_inv st2" "room_ok st2" "socks st2 = (socks st1)(?a := Some ?s)" "trans st2 = trans st1"
    "sent st2 = sent st1" "junk st2 = junk st1" "fresh st2 = ?b" "sock_list st2 = sock_list st1 @ [?a]" "\<not> sock_lock st2"
    "wld st2 = wld st1" "fde_state (fdes (evl st2) ?a) = FDE_ACTIVE"
    using service_socket [where service_to_fd = service_to_fd, OF p(2,3) fd st1] by blast
  have a0: "?a \<noteq> 0" using st1(2) by (auto simp: room_ok_def)
  have s: "socks st2 ?a = Some ?s" "local_sock ?s" "peer ?s = 0" "close ?s = LocalFn" "\<not> closing ?s"
    using st2(4) by (simp_all add: local_sock_def zero_socket_def)
  have t2: "trans st2 t = Some x" using t(2) st2(5) by simp
  let ?k = "\<lambda>r st4. andthen (get_sock ?a st4) (\<lambda>x. andthen (get_sock r st4) (\<lambda>y.
     andthen (send_ready (s_id x) (s_id y) t st4) (sock_ready ?a)))"
  obtain st4 where st4: "andthen (create_remote_socket ?rid t st2) (\<lambda>(r, st2). andthen (upd_sock ?a (\<lambda>x. x\<lparr>peer := r\<rparr>) st2)
      (\<lambda>st3. andthen (upd_sock r (\<lambda>x. x\<lparr>peer := ?a\<rparr>) st3) (\<lambda>st4. ?k r st4))) = ?k ?b st4"
    "sock_inv st4" "sent st4 = sent st1" "junk st4 = junk st1" "trans st4 = (trans st2)(t \<mapsto> x\<lparr>disconnects := disconnects x @ [?b]\<rparr>)"
    "socks st4 = (socks st2)(?a := Some (?s\<lparr>peer := ?b\<rparr>), ?b := Some ?r)"
    "evl st4 = evl st2" "sock_list st4 = sock_list st2" "sock_lock st4 = sock_lock st2" "wld st4 = wld st2"
    using connect_pair [OF st2(2,3) t(1) t2 s, of ?rid] st2(6-8) by metis
  let ?st5 = "st4\<lparr>sent := sent st4 @ [(t, sealed_msg (junk st4) A_OKAY ?sid ?rid)]\<rparr>"
  have ids: "get_sock ?a st4 = Inr (?s\<lparr>peer := ?b\<rparr>)" "get_sock ?b st4 = Inr ?r" using a0 st4(6) by (simp_all add: get_sock_def)
  have "send_ready ?sid ?rid t st4 = Inr ?st5" unfolding send_ready_def by (rule send_msg [OF t(1)]) (simp add: st4(5))
  with ids have k: "?k ?b st4 = sock_ready ?a ?st5" by (simp add: zero_socket_def)
  have "handle_open (create_local_service_socket jdwp track service_to_fd uid) p t st = sock_ready ?a ?st5"
    using p(1) a0 st2(1) st4(1) unfolding k by (auto simp: handle_open_def open_name_def Let_def)
  moreover have s5: "sock_inv ?st5" "socks ?st5 ?a = Some (?s\<lparr>peer := ?b\<rparr>)" using st4(2,6) by simp_all
  have "local_sock (?s\<lparr>peer := ?b\<rparr>)" "ready (?s\<lparr>peer := ?b\<rparr>) = LocalFn" by (simp_all add: local_sock_def zero_socket_def)
  from local_ready [OF s5 this] obtain l where "sock_ready ?a ?st5 = Inr (?st5\<lparr>evl := l\<rparr>)" "sock_inv (?st5\<lparr>evl := l\<rparr>)"
    "want (fde_state (fdes l ?a)) = want (fde_state (fdes (evl ?st5) ?a)) OR FDE_READ" .
  moreover have "want FDE_ACTIVE OR FDE_READ = FDE_READ" by (simp add: want_def fde_consts)
  ultimately show ?thesis using st4(3-10) st2(4,5,9-12) by auto
qed


section \<open>Keys for the framework\<close>

text \<open>Installing an \<open>fdevent\<close> again while its descriptor is watched, and asking for input.\<close>

lemma install_watched_exits:
  assumes "interest l (int fd) \<noteq> None" and "fd \<le> 32000" and "epoll_ok l"
  shows "andthen (fdevent_install a (int fd) func x l) (fdevent_add a FDE_READ) = Inl (Exit 1)"
proof -
  let ?f = "zero_fde\<lparr>fde_state := FDE_ACTIVE, fde_fd := int fd, force_eof := False, fde_func := func, fde_arg := x\<rparr>"
  let ?l = "l\<lparr>fdes := (fdes l)(a := ?f), plinks := set_prev a 0 (set_next a 0 (plinks l))\<rparr>"
  obtain up where "fdevent_register a ?l = Inr (?l\<lparr>fd_table := (roomy fd (fd_table l))[fd := Fde a], epoll_up := up\<rparr>)"
    using fdevent_register_eq [of ?l a fd] assms by auto
  then have "fdevent_install a (int fd) func x l = Inr (?l\<lparr>fd_table := (roomy fd (fd_table l))[fd := Fde a], epoll_up := up\<rparr>)"
    by (simp add: fdevent_install_def zero_fde_def fdevent_connect_def fun_upd_idem)
  then show ?thesis using assms(1)
    by (simp add: fdevent_add_def fdevent_set_def fdevent_update_def epoll_ctl_def Let_def zero_fde_def fde_consts
        epoll_mask_def epoll_consts)
qed

text \<open>The payload carries the key as a C string that ends at its last byte.\<close>

definition key_packet :: "string \<Rightarrow> apacket \<Rightarrow> bool" where
  "key_packet key p \<longleftrightarrow> command (a_msg p) = A_AUTH \<and> arg0 (a_msg p) = ADB_AUTH_RSAPUBLICKEY \<and>
     0 < unat (data_length (a_msg p)) \<and> unat (data_length (a_msg p)) \<le> length (a_data p) \<and>
     a_data p ! (unat (data_length (a_msg p)) - 1) = 0 \<and> cstr (a_data p) = Inr key \<and> length key + 2 < MAX_PAYLOAD"

lemma key_packet_step:
  assumes p: "key_packet key p" and fd: "framework_fd d = int fd"
    and w: "adb_write (int fd) (bytes_of (''PK'' @ key)) (wld (ds d)) = Inr (Inr k, w)"
  shows "handle_packet open_service p t d =
    andthen (andthen (fdevent_install (auth_fde t) (int fd) (Handler 2) t (evl (ds d))) (fdevent_add (auth_fde t) FDE_READ))
      (\<lambda>l. Inr (d\<lparr>ds := (ds d)\<lparr>wld := w, evl := l\<rparr>\<rparr>))"
proof -
  have c: "A_AUTH \<noteq> A_SYNC" "A_AUTH \<noteq> A_CNXN" "ADB_AUTH_RSAPUBLICKEY \<noteq> ADB_AUTH_TOKEN"
    "ADB_AUTH_RSAPUBLICKEY \<noteq> ADB_AUTH_SIGNATURE"
    by (simp_all add: ADB_AUTH_RSAPUBLICKEY_def ADB_AUTH_TOKEN_def ADB_AUTH_SIGNATURE_def A_AUTH_def A_SYNC_def A_CNXN_def)
  have l: "data_length (a_msg p) \<noteq> 0" using p by (auto simp: key_packet_def)
  have "handle_packet open_service p t d = adb_auth_confirm_key (a_data p) (data_length (a_msg p)) t d"
    using p c by (simp add: handle_packet_def handle_auth_def key_packet_def Let_def)
  also have "\<dots> = andthen (on_ds (on_evl (fdevent_install (auth_fde t) (int fd) (Handler 2) t)) (d\<lparr>ds := (ds d)\<lparr>wld := w\<rparr>\<rparr>))
      (on_ds (on_evl (fdevent_add (auth_fde t) FDE_READ)))"
    using p l fd w by (simp add: adb_auth_confirm_key_def key_packet_def Let_def)
  also have "\<dots> = andthen (andthen (fdevent_install (auth_fde t) (int fd) (Handler 2) t (evl (ds d))) (fdevent_add (auth_fde t) FDE_READ))
      (\<lambda>l. Inr (d\<lparr>ds := (ds d)\<lparr>wld := w, evl := l\<rparr>\<rparr>))"
    by (simp add: on_ds_def on_evl_def andthen_assoc)
  finally show ?thesis .
qed

text \<open>C37: a client that offers two public keys stops the daemon. The first key is sent to the framework and
  its answer is waited for; at the second, \<open>adb_auth_confirm_key\<close> installs the same \<open>fdevent\<close> once more,
  which forgets that the descriptor is already in the epoll set, and the failure to add it again is
  fatal. This needs no authentication.\<close>

theorem second_key_exits:
  assumes inv: "loop_inv (evl (ds d)) pend" and fd: "framework_fd d = int fd" "new_fd fd (ds d)"
    and a: "\<not> active (fde_state (fdes (evl (ds d)) (auth_fde t)))" "auth_fde t \<noteq> list_pending"
    and p: "key_packet key p" "key_packet key' q"
    and w: "adb_write (int fd) (bytes_of (''PK'' @ key)) (wld (ds d)) = Inr (Inr k, w1)"
      "adb_write (int fd) (bytes_of (''PK'' @ key')) w1 = Inr (Inr k', w2)"
  shows "handle_packets open_service [p, q] t d = Inl (Exit 1)"
proof -
  let ?a = "auth_fde t" and ?e = "evl (ds d)"
  obtain l1 where l1: "fdevent_install ?a (int fd) (Handler 2) t ?e = Inr l1" "loop_inv l1 pend"
    "fdes l1 ?a = \<lparr>fde_fd = int fd, force_eof = False, fde_state = FDE_ACTIVE, fde_events = 0, fde_func = Handler 2, fde_arg = t\<rparr>"
    "pollable l1 = pollable ?e" "epoll_ok l1 = epoll_ok ?e"
    using fdevent_install_inv [OF inv a(1) _ a(2), of fd "Handler 2" t] fd(2) by (auto simp: new_fd_def auth_fde_def)
  have "active (fde_state (fdes l1 ?a))" "pollable l1 (fde_fd (fdes l1 ?a))"
    using l1(3,4) fd(2) by (simp_all add: new_fd_def active_def fde_consts bit_simps)
  then obtain l2 pend2 where l2: "fdevent_add ?a FDE_READ l1 = Inr l2" "loop_inv l2 pend2" "loop_frame ?a l1 l2"
    "active (fde_state (fdes l2 ?a))" "want (fde_state (fdes l2 ?a)) = want (fde_state (fdes l1 ?a)) OR FDE_READ"
    "target (fdes l2 ?a) = target (fdes l1 ?a)"
    using fdevent_add_promise [OF l1(2) _ io_events_simps(2)] by blast
  let ?d = "d\<lparr>ds := (ds d)\<lparr>wld := w1, evl := l2\<rparr>\<rparr>"
  have one: "handle_packet open_service p t d = Inr ?d"
    unfolding key_packet_step [OF p(1) fd(1) w(1)] using l1(1) l2(1) by simp
  have fdl2: "fde_fd (fdes l2 ?a) = int fd" using l2(6) l1(3) by (simp add: target_def)
  have "bit (want (fde_state (fdes l2 ?a))) 0" by (simp only: l2(5) bit_or_iff bit_io) simp
  then have "want (fde_state (fdes l2 ?a)) \<noteq> 0" by auto
  moreover have "interest_ok l2" using l2(2) by (simp add: loop_inv_def)
  ultimately have watched: "interest l2 (int fd) \<noteq> None" using l2(4) fdl2 unfolding interest_ok_def by blast
  have "epoll_ok l2" using l2(3) l1(5) fd(2) by (simp add: loop_frame_def new_fd_def)
  from install_watched_exits [OF watched _ this, of ?a "Handler 2" t] fd(2)
  have "handle_packet open_service q t ?d = Inl (Exit 1)"
    using key_packet_step [OF p(2), of ?d fd k' w2 open_service t] fd(1) w(2) by (simp add: new_fd_def)
  with one show ?thesis by simp
qed

section \<open>Concrete runs\<close>

text \<open>A daemon that requires authentication, with one transport that has connected.\<close>

definition sample_auth :: daemon where
  "sample_auth = \<lparr>ds = sample_daemon\<lparr>trans := (\<lambda>_. None)(100 := Some zero_transport),
       wld := idle_world\<lparr>w_wr := (\<lambda>_. [WrAcc 100, WrAcc 100])\<rparr>\<rparr>,
     HOST = False, auth_enabled = True, banner = ''device'', banner_values = [''Linux'', ''Systemd'', ''GNU''],
     framework_fd = 9, urandom = Some (replicate TOKEN_SIZE 7)\<rparr>"

definition text_packet :: "u32 \<Rightarrow> u32 \<Rightarrow> string \<Rightarrow> apacket" where
  "text_packet c a0 s = \<lparr>a_len = 0, a_ptr = 0, a_msg = \<lparr>command = c, arg0 = a0, arg1 = 0,
     data_length = word_of_nat (length s + 1), data_check = 0, magic = c XOR 0xffffffff\<rparr>, a_data = bytes_of s @ [0]\<rparr>"

lemmas commands = A_SYNC_def A_CNXN_def A_AUTH_def A_OPEN_def A_OKAY_def A_CLSE_def A_WRTE_def

theorem auth_gate_witness:
  "\<exists>d'. handle_packets (\<lambda>name st. Inr (0, st)) [text_packet A_OPEN 1 ''shell:'', text_packet A_SYNC 1 ''x''] 100 sample_auth = Inr d' \<and>
    locked_out 100 d' \<and> only_handshake 100 sample_auth d'"
proof -
  have out: "locked_out 100 sample_auth" by (simp add: locked_out_def sample_auth_def zero_transport_def)
  obtain q where "seal_packet (text_packet A_SYNC 1 ''x'') = Inr q"
    by (subst (asm) seal_packet_eq) (simp_all add: text_packet_def)
  then have "\<exists>d'. handle_packets (\<lambda>name st. Inr (0, st)) [text_packet A_OPEN 1 ''shell:'', text_packet A_SYNC 1 ''x''] 100 sample_auth = Inr d'"
    by (auto simp: handle_packet_def handle_sync_def text_packet_def commands get_trans_def sample_auth_def zero_transport_def
        on_ds_def send_packet_def)
  then show ?thesis using auth_gate [OF out] by blast
qed


theorem second_key_exits_witness:
  "handle_packets (\<lambda>name st. Inr (0, st)) [text_packet A_AUTH ADB_AUTH_RSAPUBLICKEY ''k'', text_packet A_AUTH ADB_AUTH_RSAPUBLICKEY ''m'']
    100 sample_auth = Inl (Exit 1)"
proof -
  have l: "loop_inv (evl (ds sample_auth)) []" "evl (ds sample_auth) = fdevent_start"
    using loop_inv_start by (simp_all add: sample_auth_def sample_daemon_def)
  have k: "key_packet [c] (text_packet A_AUTH ADB_AUTH_RSAPUBLICKEY [c])" if "byte_of c \<noteq> 0" for c
    using that by (simp add: key_packet_def text_packet_def cstr_def bytes_of_def MAX_PAYLOAD_def)
  have w: "\<exists>j w2. adb_write 9 bs (idle_world\<lparr>w_wr := (\<lambda>_. [WrAcc 100, WrAcc 100])\<rparr>) = Inr (Inr j, w2) \<and> w_wr w2 9 = [WrAcc 100]" for bs
    by (simp add: adb_write.simps sys_write_def)
  have w': "\<exists>j w2. adb_write 9 bs v = Inr (Inr j, w2)" if "w_wr v 9 = [WrAcc 100]" for bs v
    using that by (simp add: adb_write.simps sys_write_def)
  obtain j w1 where w1: "adb_write 9 (bytes_of (''PK'' @ ''k'')) (wld (ds sample_auth)) = Inr (Inr j, w1)" "w_wr w1 9 = [WrAcc 100]"
    using w [of "bytes_of (''PK'' @ ''k'')"] by (auto simp: sample_auth_def)
  obtain j2 w2 where w2: "adb_write 9 (bytes_of (''PK'' @ ''m'')) w1 = Inr (Inr j2, w2)"
    using w' [OF w1(2)] by blast
  have "new_fd 9 (ds sample_auth)" by (simp add: new_fd_def l(2) fdevent_start_def zero_fde_def active_def)
  moreover have "key_packet ''k'' (text_packet A_AUTH ADB_AUTH_RSAPUBLICKEY ''k'')" "key_packet ''m'' (text_packet A_AUTH ADB_AUTH_RSAPUBLICKEY ''m'')"
    by (rule k; simp add: byte_of_def)+
  ultimately show ?thesis
    by (intro second_key_exits [OF l(1), of 9 100 "''k''" _ "''m''" _ j w1 j2 w2])
      (use w1(1) w2 in \<open>simp_all add: l(2) fdevent_start_def zero_fde_def active_def auth_fde_def list_pending_def sample_auth_def sample_daemon_def\<close>)
qed

end
