(* ===== verification/Streams.thy ===== *)
theory Streams
  imports Adb
begin

text \<open>
  A stream over its whole life: the host writes with \<open>A_WRTE\<close> and acknowledges with \<open>A_OKAY\<close>, the event loop calls
  the socket when its descriptor can be read or written, and anything else may happen to the daemon in between. The
  step relation \<open>runs\<close> has the handlers of \<open>adb.c\<close> and \<open>sockets.c\<close> as its steps and counts beside them what the host
  has done. The theorem is the contract of the protocol in both directions: no byte is lost, duplicated or reordered,
  and each side has at most one packet that is not acknowledged.
\<close>

unbundle bit_operations_syntax

section \<open>Calls of the kernel that do not return\<close>

text \<open>A handler may wait for ever in a system call; it stops in no other way.\<close>

definition only_blocks :: "'a outcome \<Rightarrow> bool" where
  "only_blocks m \<longleftrightarrow> (\<forall>e. m = Inl e \<longrightarrow> e = Blocked)"

lemma only_blocks_Inr [simp]: "only_blocks (Inr x)"
  by (simp add: only_blocks_def)

lemma only_blocks_Blocked [simp]: "only_blocks (Inl Blocked)"
  by (simp add: only_blocks_def)

lemma only_blocks_cases:
  assumes "only_blocks m"
  obtains "m = Inl Blocked" | x where "m = Inr x"
  using assms by (cases m) (auto simp: only_blocks_def)

lemma only_blocks_andthen:
  "only_blocks m \<Longrightarrow> (\<And>x. m = Inr x \<Longrightarrow> only_blocks (f x)) \<Longrightarrow> only_blocks (andthen m f)"
  by (cases m) (auto simp: only_blocks_def)

lemma adb_write_blocks: "only_blocks (adb_write fd bs w)"
proof (induction fd bs w rule: adb_write.induct)
  case (1 fd bs w)
  have "only_blocks (sys_write fd bs w)" by (auto simp: sys_write_def only_blocks_def split: list.splits wr_ans.splits)
  then show ?case using 1 by (subst adb_write.simps) (auto intro!: only_blocks_andthen)
qed

lemma adb_read_blocks: "only_blocks (adb_read fd n w)"
  by (auto simp: only_blocks_def dest: adb_read_stops)

lemma push_bytes_blocks: "inside p \<Longrightarrow> only_blocks (push_bytes fd p w)"
proof (induction fd p w rule: push_bytes.induct)
  case (1 fd p w)
  have i: "a_ptr p + unat (a_len p) \<le> length (a_data p)" using "1.prems" by (simp add: inside_def)
  have "only_blocks (case r of Inr k \<Rightarrow> if 0 < k then push_bytes fd (p\<lparr>a_len := a_len p - word_of_nat k, a_ptr := a_ptr p + k\<rparr>) w1
      else Inr (PushFail, p, w1) | Inl e \<Rightarrow> Inr (if e = EAGAIN then PushAgain else PushFail, p, w1))"
    if "a_len p \<noteq> 0" and a: "adb_write fd (take (unat (a_len p)) (drop (a_ptr p) (a_data p))) w = Inr (r, w1)" for r w1
  proof (cases r)
    case (Inr k)
    have "k \<le> length (unsent p)" using adb_write_spec [OF a] Inr by (simp add: unsent_def)
    from unsent_advance(2) [OF "1.prems" this] 1(1) [OF that(1) _ a refl Inr] i show ?thesis by (simp add: Inr not_less)
  qed simp
  then show ?case using adb_write_blocks i by (subst push_bytes.simps) (auto intro!: only_blocks_andthen)
qed

lemma flush_pkts_blocks: "\<forall>p \<in> set ps. inside p \<Longrightarrow> only_blocks (flush_pkts fd ps w)"
proof (induction ps arbitrary: w)
  case (Cons p ps)
  then show ?case using push_bytes_blocks [of p fd w] by (auto intro!: only_blocks_andthen)
qed simp

lemma pull_bytes_blocks: "only_blocks (pull_bytes fd n w)"
proof (induction fd n w rule: pull_bytes.induct)
  case (1 fd n w)
  then show ?case using adb_read_blocks
    by (subst pull_bytes.simps) (auto intro!: only_blocks_andthen split: sum.split)
qed

text \<open>All the data a descriptor will ever deliver, beyond errors and ends of file.\<close>

definition incoming :: "int \<Rightarrow> world \<Rightarrow> bytes" where
  "incoming fd w = concat (map (\<lambda>a. case a of RdData bs \<Rightarrow> bs | RdErr e \<Rightarrow> []) (w_rd w fd))"

lemma adb_read_incoming:
  "adb_read fd n w = Inr (r, w') \<Longrightarrow> incoming fd w = (case r of Inr bs \<Rightarrow> bs | Inl e \<Rightarrow> []) @ incoming fd w'"
  by (induction rule: adb_read_induct) (auto simp: sys_read_def incoming_def split: list.splits rd_ans.splits)

lemma adb_read_short: "adb_read fd n w = Inr (Inr bs, w') \<Longrightarrow> length bs \<le> n"
  by (induction w "Inr bs :: errno + bytes" w' rule: adb_read_induct) (auto simp: sys_read_def split: list.splits rd_ans.splits)

lemma pull_bytes_incoming:
  "pull_bytes fd n w = Inr (bs, eof, w') \<Longrightarrow> incoming fd w = bs @ incoming fd w' \<and> w_out w' = w_out w \<and> length bs \<le> n"
proof (induction fd n w arbitrary: bs rule: pull_bytes.induct)
  case (1 fd n w)
  show ?case
  proof (cases "n = 0")
    case True
    with "1.prems" show ?thesis by (subst (asm) pull_bytes.simps) auto
  next
    case False
    with "1.prems" obtain r w1 where r: "adb_read fd n w = Inr (r, w1)"
      by (subst (asm) pull_bytes.simps) (auto simp: andthen_Inr_iff)
    then have o: "w_out w1 = w_out w" using adb_read_rd_only [OF r] by (simp add: rd_only_def)
    show ?thesis
    proof (cases "\<exists>x. r = Inr x \<and> x \<noteq> []")
      case True
      then obtain x where x: "r = Inr x" "x \<noteq> []" by blast
      with False r "1.prems" obtain more where m: "pull_bytes fd (n - length x) w1 = Inr (more, eof, w')" "bs = x @ more"
        by (subst (asm) pull_bytes.simps) (auto simp: andthen_Inr_iff)
      with 1(1) [OF False r refl x] adb_read_incoming [OF r] adb_read_short r x o show ?thesis by fastforce
    next
      case stop: False
      with False r "1.prems" have "bs = []" "w' = w1" by (subst (asm) pull_bytes.simps, auto split: sum.splits if_splits)+
      with adb_read_incoming [OF r] stop o show ?thesis by (auto split: sum.splits)
    qed
  qed
qed

section \<open>An open stream\<close>

record stream_id =
  lsock :: addr \<comment> \<open>the local socket\<close>
  rsock :: addr \<comment> \<open>its peer, the remote socket\<close>
  trn :: addr
  lid :: u32
  rid :: u32
  dfd :: int \<comment> \<open>the descriptor of the service\<close>

definition stream_up :: "stream_id \<Rightarrow> dstate \<Rightarrow> bool" where
  "stream_up i st \<longleftrightarrow>
     (\<exists>s q x. socks st (lsock i) = Some s \<and> local_sock s \<and> close s = LocalFn \<and> \<not> closing s \<and> \<not> exit_on_close s \<and>
       peer s = rsock i \<and> rsock i \<noteq> 0 \<and> s_id s = lid i \<and> s_fd s = dfd i \<and>
       socks st (rsock i) = Some q \<and> remote_sock q \<and> peer q = lsock i \<and> s_transport q = trn i \<and> s_id q = rid i \<and>
       trans st (trn i) = Some x \<and> online x) \<and>
     trn i \<noteq> 0 \<and> find_local_socket (lid i) st = Inr (Some (lsock i))"

definition queue_of :: "stream_id \<Rightarrow> dstate \<Rightarrow> apacket list" where
  "queue_of i st = (case socks st (lsock i) of Some s \<Rightarrow> pkts s | None \<Rightarrow> [])"

definition wants :: "stream_id \<Rightarrow> dstate \<Rightarrow> u16 \<Rightarrow> bool" where
  "wants i st e \<longleftrightarrow> has (want (fde_state (fdes (evl st) (lsock i)))) e"

text \<open>The packets of this stream that the daemon has sent, and the data of its writes.\<close>

definition of_stream :: "stream_id \<Rightarrow> u32 \<Rightarrow> addr \<times> apacket \<Rightarrow> bool" where
  "of_stream i c = (\<lambda>(u, p). u = trn i \<and> command (a_msg p) = c \<and> arg0 (a_msg p) = lid i \<and> arg1 (a_msg p) = rid i)"

definition packets_of :: "stream_id \<Rightarrow> u32 \<Rightarrow> dstate \<Rightarrow> apacket list" where
  "packets_of i c st = map snd (filter (of_stream i c) (sent st))"

definition wire_data :: "apacket \<Rightarrow> bytes" where
  "wire_data p = take (unat (data_length (a_msg p))) (a_data p)"

definition data_out :: "stream_id \<Rightarrow> dstate \<Rightarrow> bytes" where
  "data_out i st = concat (map wire_data (packets_of i A_WRTE st))"

lemma stream_up_frame [simp]:
  "stream_up i (st\<lparr>wld := w\<rparr>) = stream_up i st" "stream_up i (st\<lparr>evl := l\<rparr>) = stream_up i st"
  "stream_up i (st\<lparr>sent := m\<rparr>) = stream_up i st"
proof -
  have "find_in k as (st\<lparr>wld := w\<rparr>) = find_in k as st" "find_in k as (st\<lparr>evl := l\<rparr>) = find_in k as st"
    "find_in k as (st\<lparr>sent := m\<rparr>) = find_in k as st" for k as
    by (induction as) (auto simp: get_sock_def split: option.split)
  then show "stream_up i (st\<lparr>wld := w\<rparr>) = stream_up i st" "stream_up i (st\<lparr>evl := l\<rparr>) = stream_up i st"
    "stream_up i (st\<lparr>sent := m\<rparr>) = stream_up i st"
    by (simp_all add: stream_up_def find_local_socket_def)
qed

lemma find_in_fields:
  assumes "socks st a = Some s" and "s_id s' = s_id s"
  shows "find_in k as (st\<lparr>socks := (socks st)(a \<mapsto> s')\<rparr>) = find_in k as st"
  using assms by (induction as) (auto simp: get_sock_def split: option.split)

lemma stream_up_pkts:
  assumes "socks st (lsock i) = Some s"
  shows "stream_up i (st\<lparr>socks := (socks st)(lsock i \<mapsto> s\<lparr>pkts := ps\<rparr>)\<rparr>) = stream_up i st"
proof -
  have "find_local_socket k (st\<lparr>socks := (socks st)(lsock i \<mapsto> s\<lparr>pkts := ps\<rparr>)\<rparr>) = find_local_socket k st" for k
    using find_in_fields [OF assms, of "s\<lparr>pkts := ps\<rparr>"] by (simp add: find_local_socket_def)
  moreover have "lsock i \<noteq> rsock i" if "stream_up i st"
    using that assms kinds_disjoint by (auto simp: stream_up_def)
  moreover have "lsock i \<noteq> rsock i" if "stream_up i (st\<lparr>socks := (socks st)(lsock i \<mapsto> s\<lparr>pkts := ps\<rparr>)\<rparr>)"
    using that assms kinds_disjoint by (auto simp: stream_up_def)
  ultimately show ?thesis using assms
    by (auto simp: stream_up_def local_sock_def)
qed

lemma queue_of_frame [simp]:
  "queue_of i (st\<lparr>wld := w\<rparr>) = queue_of i st" "queue_of i (st\<lparr>evl := l\<rparr>) = queue_of i st" "queue_of i (st\<lparr>sent := m\<rparr>) = queue_of i st"
  by (simp_all add: queue_of_def)

lemma packets_of_frame [simp]:
  "packets_of i c (st\<lparr>wld := w\<rparr>) = packets_of i c st" "packets_of i c (st\<lparr>evl := l\<rparr>) = packets_of i c st"
  "packets_of i c (st\<lparr>socks := f\<rparr>) = packets_of i c st"
  "packets_of i c (st\<lparr>sent := sent st @ [m]\<rparr>) = packets_of i c st @ (if of_stream i c m then [snd m] else [])"
  by (simp_all add: packets_of_def)

text \<open>Asking for events and no longer asking for them.\<close>

lemma add_events:
  assumes inv: "sock_inv st" and s: "socks st a = Some s" "local_sock s" and e: "io_events e"
  obtains l where "on_evl (fdevent_add a e) st = Inr (st\<lparr>evl := l\<rparr>)" and "sock_inv (st\<lparr>evl := l\<rparr>)"
    and "want (fde_state (fdes l a)) = want (fde_state (fdes (evl st) a)) OR e"
proof -
  note loc = local_listed [OF inv s]
  obtain pend where pend: "loop_inv (evl st) pend" using inv by (auto simp: sock_inv_def)
  obtain l pend' where l: "fdevent_add a e (evl st) = Inr l" "loop_inv l pend'" "loop_frame a (evl st) l"
    "active (fde_state (fdes l a))" "want (fde_state (fdes l a)) = want (fde_state (fdes (evl st) a)) OR e"
    "target (fdes l a) = target (fdes (evl st) a)"
    using fdevent_add_promise [OF pend loc(3) e loc(4)] by blast
  have "sock_inv (st\<lparr>evl := l\<rparr>)" using l by (intro sock_inv_evl [OF inv, of l pend' a]) simp_all
  with l that show ?thesis by (simp add: on_evl_def)
qed

lemma del_events:
  assumes inv: "sock_inv st" and s: "socks st a = Some s" "local_sock s"
  obtains l where "on_evl (fdevent_del a e) st = Inr (st\<lparr>evl := l\<rparr>)" and "sock_inv (st\<lparr>evl := l\<rparr>)"
    and "want (fde_state (fdes l a)) = want (fde_state (fdes (evl st) a)) AND NOT (want e)"
proof -
  note loc = local_listed [OF inv s]
  obtain pend where pend: "loop_inv (evl st) pend" using inv by (auto simp: sock_inv_def)
  obtain l pend' where l: "fdevent_del a e (evl st) = Inr l" "loop_inv l pend'" "loop_frame a (evl st) l"
    "active (fde_state (fdes l a))" "want (fde_state (fdes l a)) = want (fde_state (fdes (evl st) a)) AND NOT (want e)"
    "target (fdes l a) = target (fdes (evl st) a)"
    using fdevent_del_promise [OF pend loc(3) loc(4)] by blast
  have "sock_inv (st\<lparr>evl := l\<rparr>)" using l by (intro sock_inv_evl [OF inv, of l pend' a]) simp_all
  with l that show ?thesis by (simp add: on_evl_def)
qed

section \<open>Closing ends the stream\<close>

lemma local_finish_wld: "local_finish a st = Inr st' \<Longrightarrow> wld st' = wld st"
  by (auto simp: local_finish_def local_socket_destroy_def remove_socket_def on_evl_def upd_sock_def free_sock_def andthen_Inr_iff split: if_splits)

lemma detached_wld: "wld (detached a s st) = wld st"
  by (simp add: detached_def closed_far_fields Let_def split: option.split)

lemma close_sock_wld:
  assumes "sock_inv st" and "socks st a = Some s" and "local_sock s" and "close s = LocalFn" and "close_sock a st = Inr st'"
  shows "wld st' = wld st"
proof -
  let ?st = "st\<lparr>sock_lock := True\<rparr>"
  have four: "(4 :: nat) = Suc 3" and three: "(3 :: nat) = Suc (Suc 1)" by simp_all
  have "close_sock a st = sock_locked (\<lambda>x. local_socket_close_locked 3 a x) st"
    unfolding close_sock_def four using assms(4) get_sock_live [OF assms(1,2)] by (subst sock_close.simps(2)) simp
  with assms(5) obtain st1 where st1: "local_socket_close_locked 3 a ?st = Inr st1" "st' = st1\<lparr>sock_lock := False\<rparr>"
    by (auto simp: sock_locked_def andthen_Inr_iff split: if_splits)
  have "local_socket_close_locked 3 a ?st = local_finish a (detached a s ?st)"
    unfolding three by (rule close_locked_eq) (use assms in simp_all)
  with st1 local_finish_wld [of a "detached a s ?st" st1] show ?thesis by (simp add: detached_wld)
qed

lemma stream_up_local:
  assumes "stream_up i st"
  obtains s where "socks st (lsock i) = Some s" and "local_sock s" and "close s = LocalFn" and "ready s = LocalFn" and "enqueue s = LocalFn"
    and "\<not> closing s" and "\<not> exit_on_close s" and "peer s = rsock i" and "rsock i \<noteq> 0" and "s_id s = lid i" and "s_fd s = dfd i" and "queue_of i st = pkts s"
  using assms by (auto simp: stream_up_def queue_of_def local_sock_def)

lemma stream_up_remote:
  assumes "stream_up i st"
  obtains q where "socks st (rsock i) = Some q" and "remote_sock q" and "peer q = lsock i" and "s_transport q = trn i" and "s_id q = rid i"
  using assms by (auto simp: stream_up_def)

text \<open>What a closed stream still owes: nothing but that all that was read has been sent.\<close>

lemma close_ends:
  assumes inv: "sock_inv st" and up: "stream_up i st" and lock: "\<not> sock_lock st"
  obtains st' where "close_sock (lsock i) st = Inr st'" and "sock_inv st'" and "\<not> sock_lock st'" and "\<not> stream_up i st'"
    and "wld st' = wld st" and "packets_of i A_OKAY st' = packets_of i A_OKAY st" and "packets_of i A_WRTE st' = packets_of i A_WRTE st"
proof -
  from up obtain s where s: "socks st (lsock i) = Some s" "local_sock s" "close s = LocalFn" "\<not> exit_on_close s" "\<not> closing s"
    by (rule stream_up_local)
  obtain st' where st': "close_sock (lsock i) st = Inr st'" "sock_inv st'" "\<not> sock_lock st'"
    "socks st' = socks_closed (lsock i) s (socks st)" "sent st' = sent st @ close_notice s st"
    using close_sock_local [OF inv s(1-4) lock] by blast
  have "\<not> stream_up i st'" by (auto simp: stream_up_def st'(4) socks_closed_def split: if_splits)
  moreover have "\<forall>m \<in> set (close_notice s st). \<not> of_stream i A_OKAY m \<and> \<not> of_stream i A_WRTE m"
    by (auto simp: close_notice_def of_stream_def sealed_msg_def command_defs split: option.splits if_splits)
  then have "packets_of i c st' = packets_of i c st" if "c = A_OKAY \<or> c = A_WRTE" for c
    using that by (auto simp: packets_of_def st'(5) filter_empty_conv)
  ultimately show ?thesis using that st'(1-3) close_sock_wld [OF inv s(1-3) st'(1)] by blast
qed

section \<open>The steps\<close>

text \<open>The call waits in the kernel, or returns and has then done this.\<close>

definition comes_to :: "'a outcome \<Rightarrow> ('a \<Rightarrow> bool) \<Rightarrow> bool" where
  "comes_to m P \<longleftrightarrow> m = Inl Blocked \<or> (\<exists>x. m = Inr x \<and> P x)"

lemma comes_to_Inr [simp]: "comes_to (Inr x) P \<longleftrightarrow> P x"
  by (simp add: comes_to_def)

lemma comes_to_Blocked [simp]: "comes_to (Inl Blocked) P"
  by (simp add: comes_to_def)

lemma comes_to_andthen:
  "only_blocks m \<Longrightarrow> (\<And>x. m = Inr x \<Longrightarrow> comes_to (f x) P) \<Longrightarrow> comes_to (andthen m f) P"
  by (erule only_blocks_cases) simp_all

lemma comes_to_mono: "comes_to m P \<Longrightarrow> (\<And>x. P x \<Longrightarrow> Q x) \<Longrightarrow> comes_to m Q"
  by (auto simp: comes_to_def)

lemma comes_to_safely: "comes_to m P \<Longrightarrow> safely m P"
  by (auto simp: comes_to_def safely_def)

definition write_packet :: "stream_id \<Rightarrow> apacket \<Rightarrow> bool" where
  "write_packet i p \<longleftrightarrow> command (a_msg p) = A_WRTE \<and> arg0 (a_msg p) = rid i \<and> arg1 (a_msg p) = lid i \<and>
     length (a_data p) = MAX_PAYLOAD \<and> unat (data_length (a_msg p)) \<le> MAX_PAYLOAD"

definition ack_packet :: "stream_id \<Rightarrow> apacket \<Rightarrow> bool" where
  "ack_packet i p \<longleftrightarrow> command (a_msg p) = A_OKAY \<and> arg0 (a_msg p) = rid i \<and> arg1 (a_msg p) = lid i"

text \<open>The state of the direction from the host to the service: written and queued bytes, and the acknowledgements.\<close>

definition taken :: "stream_id \<Rightarrow> bytes \<Rightarrow> nat \<Rightarrow> dstate \<Rightarrow> bool" where
  "taken i bs n st \<longleftrightarrow> w_out (wld st) (dfd i) @ queued (queue_of i st) = bs \<and> (\<forall>q \<in> set (queue_of i st). inside q) \<and>
     length (queue_of i st) \<le> 1 \<and> length (packets_of i A_OKAY st) + length (queue_of i st) = n \<and>
     (wants i st FDE_WRITE \<longleftrightarrow> queue_of i st \<noteq> [])"

text \<open>What every step keeps.\<close>

definition sound :: "dstate \<Rightarrow> bool" where
  "sound st \<longleftrightarrow> sock_inv st \<and> \<not> sock_lock st"

lemma send_okay:
  assumes "sock_inv st" and "stream_up i st"
  shows "send_ready (lid i) (rid i) (trn i) st = Inr (st\<lparr>sent := sent st @ [(trn i, sealed_msg (junk st) A_OKAY (lid i) (rid i))]\<rparr>)"
  using assms(2) send_msg [of "trn i" st A_OKAY "lid i" "rid i"] by (auto simp: send_ready_def stream_up_def)

lemma okay_of_stream [simp]:
  "of_stream i c (trn i, sealed_msg mem d (lid i) (rid i)) \<longleftrightarrow> c = d"
  by (auto simp: of_stream_def sealed_msg_def)

lemma okay_wrte [simp]: "A_OKAY \<noteq> A_WRTE" "A_WRTE \<noteq> A_OKAY"
  by (simp_all add: command_defs)

lemma wants_frame [simp]:
  "wants i (st\<lparr>wld := w\<rparr>) e = wants i st e" "wants i (st\<lparr>sent := m\<rparr>) e = wants i st e" "wants i (st\<lparr>socks := f\<rparr>) e = wants i st e"
  by (simp_all add: wants_def)

text \<open>The payload of a write of the host, as it is handed to the local socket.\<close>

abbreviation to_push :: "apacket \<Rightarrow> apacket" where
  "to_push p \<equiv> p\<lparr>a_len := data_length (a_msg p), a_ptr := 0\<rparr>"

abbreviation hold :: "stream_id \<Rightarrow> apacket \<Rightarrow> dstate \<Rightarrow> (int \<times> dstate) outcome" where
  "hold i p st \<equiv> andthen (upd_sock (lsock i) (\<lambda>x. x\<lparr>pkts := pkts x @ [p]\<rparr>) st) (\<lambda>st2.
     andthen (on_evl (fdevent_add (lsock i) FDE_WRITE) st2) (\<lambda>st3. Inr (1, st3)))"

lemma handle_wrte_eq:
  assumes inv: "sock_inv st" and up: "stream_up i st" and q: "queue_of i st = []" and p: "write_packet i p"
  shows "handle_wrte p (trn i) st = andthen (push_bytes (dfd i) (to_push p) (wld st)) (\<lambda>(r, p', w).
      andthen (case r of PushFail \<Rightarrow> andthen (close_sock (lsock i) (st\<lparr>wld := w\<rparr>)) (\<lambda>st2. Inr (1, st2))
        | PushDone \<Rightarrow> Inr (0, st\<lparr>wld := w\<rparr>) | PushAgain \<Rightarrow> hold i p' (st\<lparr>wld := w\<rparr>))
       (\<lambda>(q, st1). if q = 0 then andthen (get_sock (lsock i) st1) (\<lambda>x. send_ready (s_id x) (rid i) (trn i) st1) else Inr st1))"
proof -
  from up obtain s where s: "socks st (lsock i) = Some s" "enqueue s = LocalFn" "s_fd s = dfd i" "pkts s = []"
    by (rule stream_up_local) (use q in auto)
  have "find_local_socket (lid i) st = Inr (Some (lsock i))" using up by (simp add: stream_up_def)
  with get_sock_live [OF inv s(1)] s p show ?thesis
    by (simp add: handle_wrte_def write_packet_def sock_enqueue_def local_socket_enqueue_def Let_def andthen_assoc case_prod_unfold cong: if_cong)
qed

lemma write_step:
  assumes snd: "sound st" and up: "stream_up i st" and t: "taken i bs n st" and q: "queue_of i st = []" and p: "write_packet i p"
  shows "comes_to (handle_wrte p (trn i) st) (\<lambda>st'. sound st' \<and> packets_of i A_WRTE st' = packets_of i A_WRTE st \<and>
    (stream_up i st' \<longrightarrow> taken i (bs @ wire_data p) (n + 1) st' \<and> wants i st' FDE_READ = wants i st FDE_READ))"
    (is "comes_to _ ?P")
proof -
  have inv: "sock_inv st" and lock: "\<not> sock_lock st" using snd by (simp_all add: sound_def)
  from up obtain s where s: "socks st (lsock i) = Some s" "local_sock s" "s_id s = lid i" "pkts s = []"
    by (rule stream_up_local) (use q in auto)
  have pin: "inside (to_push p)" "unsent (to_push p) = wire_data p" using p by (simp_all add: write_packet_def inside_def unsent_def wire_data_def)
  show ?thesis unfolding handle_wrte_eq [OF inv up q p]
  proof (rule comes_to_andthen [OF push_bytes_blocks [OF pin(1)]], clarify)
    fix r p' w assume push: "push_bytes (dfd i) (to_push p) (wld st) = Inr (r, p', w)"
    note str = push_bytes_stream [OF pin(1) push]
    let ?st = "st\<lparr>wld := w\<rparr>"
    have inv1: "sock_inv ?st" and up1: "stream_up i ?st" and lock1: "\<not> sock_lock ?st" and s1: "socks ?st (lsock i) = Some s"
      using inv up lock s(1) by simp_all
    show "comes_to (andthen (case r of PushFail \<Rightarrow> andthen (close_sock (lsock i) ?st) (\<lambda>st2. Inr (1, st2))
        | PushDone \<Rightarrow> Inr (0, ?st) | PushAgain \<Rightarrow> hold i p' ?st)
       (\<lambda>(q, st1). if q = 0 then andthen (get_sock (lsock i) st1) (\<lambda>x. send_ready (s_id x) (rid i) (trn i) st1) else Inr st1)) ?P"
    proof (cases r)
      case PushDone
      with send_okay [OF inv1 up1] get_sock_live [OF inv1 s1] s(3) str q t pin(2) snd show ?thesis
        by (auto simp: taken_def sound_def queued_def packets_of_def)
    next
      case PushFail
      from close_ends [OF inv1 up1 lock1] obtain st' where "close_sock (lsock i) ?st = Inr st'" "sound st'" "\<not> stream_up i st'"
        "packets_of i A_WRTE st' = packets_of i A_WRTE ?st" by (auto simp: sound_def)
      with PushFail show ?thesis by simp
    next
      case PushAgain
      let ?st1 = "?st\<lparr>socks := (socks st)(lsock i \<mapsto> s\<lparr>pkts := [p']\<rparr>)\<rparr>"
      have i1: "sock_inv ?st1" using sock_inv_pkts [OF inv1 s1, of "[p']"] by simp
      have up': "stream_up i ?st1" using stream_up_pkts [OF s1, of "[p']"] up1 by simp
      have l: "local_sock (s\<lparr>pkts := [p']\<rparr>)" using s(2) by (simp add: local_sock_def)
      obtain l where l: "on_evl (fdevent_add (lsock i) FDE_WRITE) ?st1 = Inr (?st1\<lparr>evl := l\<rparr>)" "sock_inv (?st1\<lparr>evl := l\<rparr>)"
        "want (fde_state (fdes l (lsock i))) = want (fde_state (fdes (evl st) (lsock i))) OR FDE_WRITE"
        by (rule add_events [OF i1 _ l, of "lsock i" FDE_WRITE]) simp_all
      have h: "hold i p' ?st = Inr (1, ?st1\<lparr>evl := l\<rparr>)"
        using get_sock_live [OF inv1 s1] s(1,4) l(1) by (simp add: upd_sock_def)
      have "queue_of i (?st1\<lparr>evl := l\<rparr>) = [p']" by (simp add: queue_of_def)
      moreover have "wants i (?st1\<lparr>evl := l\<rparr>) FDE_WRITE" "wants i (?st1\<lparr>evl := l\<rparr>) FDE_READ = wants i st FDE_READ"
        unfolding wants_def has_io using l(3) by (simp_all add: bit_simps bit_io)
      ultimately show ?thesis using PushAgain h l(2) str t q pin(2) lock
        by (simp add: taken_def sound_def queued_def)
    qed
  qed
qed

lemma taken_frame [simp]:
  "taken i bs n (st\<lparr>evl := l\<rparr>) \<longleftrightarrow> w_out (wld st) (dfd i) @ queued (queue_of i st) = bs \<and> (\<forall>q \<in> set (queue_of i st). inside q) \<and>
     length (queue_of i st) \<le> 1 \<and> length (packets_of i A_OKAY st) + length (queue_of i st) = n \<and>
     (wants i (st\<lparr>evl := l\<rparr>) FDE_WRITE \<longleftrightarrow> queue_of i st \<noteq> [])"
  by (simp add: taken_def)

lemma ack_step:
  assumes snd: "sound st" and up: "stream_up i st" and t: "taken i bs n st" and p: "ack_packet i p"
  shows "comes_to (handle_okay p (trn i) st) (\<lambda>st'. sound st' \<and> stream_up i st' \<and> taken i bs n st' \<and>
    packets_of i A_WRTE st' = packets_of i A_WRTE st \<and> wants i st' FDE_READ)"
proof -
  have inv: "sock_inv st" using snd by (simp add: sound_def)
  from up obtain s where s: "socks st (lsock i) = Some s" "local_sock s" "ready s = LocalFn" "peer s \<noteq> 0"
    by (rule stream_up_local) auto
  have find: "find_local_socket (arg1 (a_msg p)) st = Inr (Some (lsock i))" using up p by (simp add: stream_up_def ack_packet_def)
  obtain l where l: "on_evl (fdevent_add (lsock i) FDE_READ) st = Inr (st\<lparr>evl := l\<rparr>)" "sock_inv (st\<lparr>evl := l\<rparr>)"
    "want (fde_state (fdes l (lsock i))) = want (fde_state (fdes (evl st) (lsock i))) OR FDE_READ"
    by (rule add_events [OF inv s(1,2), of FDE_READ]) simp_all
  have "wants i (st\<lparr>evl := l\<rparr>) FDE_READ" "wants i (st\<lparr>evl := l\<rparr>) FDE_WRITE = wants i st FDE_WRITE"
    unfolding wants_def has_io using l(3) by (simp_all add: bit_simps bit_io)
  moreover have "handle_okay p (trn i) st = Inr (st\<lparr>evl := l\<rparr>)"
    using find s get_sock_live [OF inv s(1)] l(1) by (simp add: handle_okay_def sock_ready_def local_socket_ready_def)
  ultimately show ?thesis using l(2) up t snd by (simp add: sound_def taken_def)
qed

lemma incoming_wr: "wr_only fd w w' \<Longrightarrow> incoming fd' w' = incoming fd' w"
  by (simp add: incoming_def wr_only_def)

lemma write_event_step:
  assumes snd: "sound st" and up: "stream_up i st" and t: "taken i bs n st" and w: "wants i st FDE_WRITE"
  shows "comes_to (event_write (lsock i) (dfd i) st) (\<lambda>(go, st'). sound st' \<and> packets_of i A_WRTE st' = packets_of i A_WRTE st \<and>
    incoming (dfd i) (wld st') = incoming (dfd i) (wld st) \<and> (go \<longrightarrow> stream_up i st') \<and>
    (stream_up i st' \<longrightarrow> taken i bs n st' \<and> wants i st' FDE_READ = wants i st FDE_READ))"
    (is "comes_to _ (\<lambda>(go, st'). ?P go st')")
proof -
  have inv: "sock_inv st" and lock: "\<not> sock_lock st" using snd by (simp_all add: sound_def)
  from up obtain s where s: "socks st (lsock i) = Some s" "local_sock s" "\<not> closing s" "peer s = rsock i" "rsock i \<noteq> 0" "s_id s = lid i"
    "queue_of i st = pkts s" by (rule stream_up_local)
  from up obtain q where q: "socks st (rsock i) = Some q" "remote_sock q" "peer q = lsock i" "s_transport q = trn i" "s_id q = rid i"
    by (rule stream_up_remote)
  from t w s(7) obtain p where p: "pkts s = [p]" "inside p" by (cases "pkts s") (auto simp: taken_def)
  note g = get_sock_live [OF inv s(1)]
  have eq: "event_write (lsock i) (dfd i) st = andthen (push_bytes (dfd i) p (wld st)) (\<lambda>(r, p', w).
     let left = (if r = PushDone then [] else [p']); st1 = st\<lparr>wld := w, socks := (socks st)(lsock i \<mapsto> s\<lparr>pkts := left\<rparr>)\<rparr> in
     case r of PushAgain \<Rightarrow> Inr (False, st1)
       | PushFail \<Rightarrow> andthen (close_sock (lsock i) st1) (\<lambda>st2. Inr (False, st2))
       | PushDone \<Rightarrow> andthen (on_evl (fdevent_del (lsock i) FDE_WRITE) st1) (\<lambda>st2.
             andthen (sock_ready (rsock i) st2) (\<lambda>st3. Inr (True, st3))))"
  proof (cases "push_bytes (dfd i) p (wld st)")
    case (Inr x)
    obtain r p' w where x: "x = (r, p', w)" by (cases x) auto
    have "get_sock (lsock i) (st\<lparr>wld := w\<rparr>) = Inr s" using g by (simp add: get_sock_def split: if_splits)
    with Inr x g s(3,4) show ?thesis by (cases r) (simp_all add: event_write_def p(1) upd_sock_def)
  qed (use g in \<open>simp add: event_write_def p(1)\<close>)
  show ?thesis unfolding eq
  proof (rule comes_to_andthen [OF push_bytes_blocks [OF p(2)]], clarify)
    fix r p' w assume push: "push_bytes (dfd i) p (wld st) = Inr (r, p', w)"
    note str = push_bytes_stream [OF p(2) push]
    let ?left = "if r = PushDone then [] else [p']"
    let ?st = "st\<lparr>wld := w, socks := (socks st)(lsock i \<mapsto> s\<lparr>pkts := ?left\<rparr>)\<rparr>"
    have inv1: "sock_inv ?st" using sock_inv_pkts [of "st\<lparr>wld := w\<rparr>" "lsock i" s ?left] inv s(1) by simp
    have up1: "stream_up i ?st" using stream_up_pkts [of "st\<lparr>wld := w\<rparr>" i s ?left] up s(1) by simp
    have lock1: "\<not> sock_lock ?st" using lock by simp
    have q1: "queue_of i ?st = ?left" by (simp add: queue_of_def)
    have in1: "incoming (dfd i) w = incoming (dfd i) (wld st)" using incoming_wr str by blast
    have out1: "w_out w (dfd i) @ queued ?left = bs" using str t s(7) p(1) by (auto simp: taken_def queued_def)
    show "comes_to (let left = ?left; st1 = st\<lparr>wld := w, socks := (socks st)(lsock i \<mapsto> s\<lparr>pkts := left\<rparr>)\<rparr> in
     case r of PushAgain \<Rightarrow> Inr (False, st1)
       | PushFail \<Rightarrow> andthen (close_sock (lsock i) st1) (\<lambda>st2. Inr (False, st2))
       | PushDone \<Rightarrow> andthen (on_evl (fdevent_del (lsock i) FDE_WRITE) st1) (\<lambda>st2.
             andthen (sock_ready (rsock i) st2) (\<lambda>st3. Inr (True, st3)))) (\<lambda>(go, st'). ?P go st')"
    proof (cases r)
      case PushAgain
      with t s(7) p(1) out1 q1 str w in1 inv1 lock1 show ?thesis by (simp add: taken_def sound_def)
    next
      case PushFail
      from close_ends [OF inv1 up1 lock1] obtain st' where "close_sock (lsock i) ?st = Inr st'" "sound st'" "\<not> stream_up i st'"
        "wld st' = w" "packets_of i A_WRTE st' = packets_of i A_WRTE st" by (auto simp: sound_def)
      with PushFail in1 show ?thesis by simp
    next
      case PushDone
      let ?s = "s\<lparr>pkts := []\<rparr>"
      have ls: "local_sock ?s" "socks ?st (lsock i) = Some ?s" using s(2) PushDone by (simp_all add: local_sock_def)
      obtain l where l: "on_evl (fdevent_del (lsock i) FDE_WRITE) ?st = Inr (?st\<lparr>evl := l\<rparr>)" "sock_inv (?st\<lparr>evl := l\<rparr>)"
        "want (fde_state (fdes l (lsock i))) = want (fde_state (fdes (evl ?st) (lsock i))) AND NOT (want FDE_WRITE)"
        by (rule del_events [OF inv1 ls(2,1), of FDE_WRITE])
      let ?st2 = "?st\<lparr>evl := l\<rparr>"
      have up2: "stream_up i ?st2" using up1 by simp
      have ne: "rsock i \<noteq> lsock i" using q s kinds_disjoint by auto
      have rq: "socks ?st2 (rsock i) = Some q" "socks ?st2 (lsock i) = Some ?s" using q(1) ne PushDone by simp_all
      have "sock_ready (rsock i) ?st2 = send_ready (lid i) (rid i) (trn i) ?st2"
        using get_sock_live [OF l(2) rq(1)] get_sock_live [OF l(2) rq(2)] q(2-5) s(6)
        by (simp add: sock_ready_def remote_socket_ready_def send_ready_def remote_sock_def)
      with send_okay [OF l(2) up2] have rd: "sock_ready (rsock i) ?st2 =
        Inr (?st2\<lparr>sent := sent ?st2 @ [(trn i, sealed_msg (junk ?st2) A_OKAY (lid i) (rid i))]\<rparr>)" by simp
      have wt: "\<not> wants i ?st2 FDE_WRITE" "wants i ?st2 FDE_READ = wants i st FDE_READ"
        unfolding wants_def has_io using l(3) by (simp_all add: bit_simps bit_io bit_masks want_def)
      show ?thesis using PushDone l(1,2) rd wt out1 up2 t s(7) p(1) q1 in1 lock1
        by (simp add: taken_def sound_def packets_of_def)
    qed
  qed
qed

text \<open>The direction from the service to the host.\<close>

lemma wire_packet:
  assumes "bs \<noteq> []" and "length bs \<le> MAX_PAYLOAD" and "length mem = MAX_PAYLOAD"
    and p: "p = \<lparr>a_len = word_of_nat (length bs), a_ptr = 0, a_msg = zero_msg, a_data = bs @ drop (length bs) mem\<rparr>"
  obtains m where "seal_packet ((with_msg A_WRTE x y p)\<lparr>a_msg := (a_msg (with_msg A_WRTE x y p))\<lparr>data_length := a_len p\<rparr>\<rparr>) = Inr m"
    and "command (a_msg m) = A_WRTE" and "arg0 (a_msg m) = x" and "arg1 (a_msg m) = y" and "wire_data m = bs"
proof -
  let ?q = "(with_msg A_WRTE x y p)\<lparr>a_msg := (a_msg (with_msg A_WRTE x y p))\<lparr>data_length := a_len p\<rparr>\<rparr>"
  have u: "unat (word_of_nat (length bs) :: u32) = length bs"
    using assms(2) by (simp add: unat_of_nat take_bit_eq_mod MAX_PAYLOAD_def)
  have "unat (data_length (a_msg ?q)) \<le> length (a_data ?q)" using assms(2,3) by (simp add: p with_msg_def u)
  from seal_packet_eq [OF this] that u show ?thesis by (simp add: p with_msg_def wire_data_def)
qed

text \<open>What reading the bytes \<open>x\<close> leads to, from \<open>st\<close> to \<open>st'\<close>.\<close>

definition passed_on :: "stream_id \<Rightarrow> bytes \<Rightarrow> nat \<Rightarrow> dstate \<Rightarrow> bytes \<Rightarrow> dstate \<Rightarrow> bool" where
  "passed_on i bs n st x st' \<longleftrightarrow> sound st' \<and> incoming (dfd i) (wld st) = x @ incoming (dfd i) (wld st') \<and>
     data_out i st' = data_out i st @ x \<and> (stream_up i st' \<longrightarrow> taken i bs n st' \<and>
       length (packets_of i A_WRTE st') = length (packets_of i A_WRTE st) + (if x = [] then 0 else 1) \<and>
       (wants i st' FDE_READ \<longleftrightarrow> x = [] \<and> wants i st FDE_READ))"

lemma read_end:
  assumes up: "stream_up i st2" and p: "passed_on i bs n st x st2"
  shows "comes_to (if b then close_sock (lsock i) st2 else Inr st2) (passed_on i bs n st x)"
proof (cases b)
  case True
  have "sock_inv st2" "\<not> sock_lock st2" using p by (simp_all add: passed_on_def sound_def)
  from close_ends [OF this(1) up this(2)] obtain st' where "close_sock (lsock i) st2 = Inr st'" "sound st'" "\<not> stream_up i st'"
    "wld st' = wld st2" "packets_of i A_WRTE st' = packets_of i A_WRTE st2" by (auto simp: sound_def)
  with True p show ?thesis by (simp add: passed_on_def data_out_def)
qed (use p in simp)

text \<open>The data goes out as one packet, and the socket stops reading.\<close>

lemma data_sent:
  assumes snd: "sound st" and up: "stream_up i st" and t: "taken i bs n st"
    and x: "x \<noteq> []" "length x \<le> MAX_PAYLOAD" and w: "w_out w = w_out (wld st)" "incoming (dfd i) (wld st) = x @ incoming (dfd i) w"
  obtains st2 l where "sock_enqueue (rsock i) \<lparr>a_len = word_of_nat (length x), a_ptr = 0, a_msg = zero_msg,
      a_data = x @ drop (length x) (junk st)\<rparr> (st\<lparr>wld := w\<rparr>) = Inr (1, st2)"
    and "get_sock (lsock i) st2 = get_sock (lsock i) st" and "on_evl (fdevent_del (lsock i) FDE_READ) st2 = Inr (st2\<lparr>evl := l\<rparr>)"
    and "stream_up i (st2\<lparr>evl := l\<rparr>)" and "passed_on i bs n st x (st2\<lparr>evl := l\<rparr>)"
proof -
  have inv: "sock_inv (st\<lparr>wld := w\<rparr>)" and lock: "\<not> sock_lock st" and mem: "length (junk st) = MAX_PAYLOAD"
    using snd by (simp_all add: sound_def sock_inv_def [of st])
  from up obtain s where s: "socks st (lsock i) = Some s" "local_sock s" "peer s = rsock i" "s_id s = lid i"
    by (rule stream_up_local)
  from up obtain q where q: "socks st (rsock i) = Some q" "remote_sock q" "peer q = lsock i" "s_transport q = trn i" "s_id q = rid i"
    by (rule stream_up_remote)
  let ?p = "\<lparr>a_len = word_of_nat (length x), a_ptr = 0, a_msg = zero_msg, a_data = x @ drop (length x) (junk st)\<rparr>"
  obtain m where m: "seal_packet ((with_msg A_WRTE (lid i) (rid i) ?p)\<lparr>a_msg := (a_msg (with_msg A_WRTE (lid i) (rid i) ?p))\<lparr>data_length := a_len ?p\<rparr>\<rparr>) = Inr m"
    "command (a_msg m) = A_WRTE" "arg0 (a_msg m) = lid i" "arg1 (a_msg m) = rid i" "wire_data m = x"
    by (rule wire_packet [OF x mem refl])
  let ?st = "st\<lparr>wld := w, sent := sent st @ [(trn i, m)]\<rparr>"
  have "trn i \<noteq> 0" "trans st (trn i) \<noteq> None" using up by (auto simp: stream_up_def)
  then have e: "sock_enqueue (rsock i) ?p (st\<lparr>wld := w\<rparr>) = Inr (1, ?st)"
    using get_sock_live [OF inv, of "lsock i" s] get_sock_live [OF inv, of "rsock i" q] s q m(1)
    by (simp add: sock_enqueue_def remote_socket_enqueue_def remote_sock_def send_packet_def Let_def)
  have of: "of_stream i A_WRTE (trn i, m)" "\<not> of_stream i A_OKAY (trn i, m)" using m by (simp_all add: of_stream_def)
  have inv2: "sock_inv ?st" "socks ?st (lsock i) = Some s" using inv s(1) by simp_all
  obtain l where l: "on_evl (fdevent_del (lsock i) FDE_READ) ?st = Inr (?st\<lparr>evl := l\<rparr>)" "sock_inv (?st\<lparr>evl := l\<rparr>)"
    "want (fde_state (fdes l (lsock i))) = want (fde_state (fdes (evl ?st) (lsock i))) AND NOT (want FDE_READ)"
    by (rule del_events [OF inv2 s(2), of FDE_READ])
  have wt: "\<not> wants i (?st\<lparr>evl := l\<rparr>) FDE_READ" "wants i (?st\<lparr>evl := l\<rparr>) FDE_WRITE = wants i st FDE_WRITE"
    unfolding wants_def has_io using l(3) by (simp_all add: bit_simps bit_io bit_masks want_def)
  have "taken i bs n (?st\<lparr>evl := l\<rparr>)" using t w wt(2) of by (simp add: taken_def packets_of_def)
  then have "passed_on i bs n st x (?st\<lparr>evl := l\<rparr>)" using l(2) lock w(2) wt(1) of m(5) x(1)
    by (simp add: passed_on_def sound_def data_out_def packets_of_def)
  moreover have "get_sock (lsock i) ?st = get_sock (lsock i) st" by (simp add: get_sock_def)
  ultimately show ?thesis using that [OF e _ l(1)] up by simp
qed

lemma read_event_step:
  assumes snd: "sound st" and up: "stream_up i st" and t: "taken i bs n st"
  shows "comes_to (event_read (lsock i) (dfd i) st) (\<lambda>st'. \<exists>x. passed_on i bs n st x st')"
proof -
  have inv: "sock_inv st" using snd by (simp add: sound_def)
  from up obtain s where s: "socks st (lsock i) = Some s" "peer s = rsock i" "rsock i \<noteq> 0" by (rule stream_up_local)
  have np: "new_packet st = Inr \<lparr>a_len = 0, a_ptr = 0, a_msg = zero_msg, a_data = junk st\<rparr>" by (simp add: new_packet_def get_apacket_def)
  note g = get_sock_live [OF inv s(1)]
  show ?thesis unfolding event_read_def np andthen_simps
  proof (rule comes_to_andthen [OF pull_bytes_blocks], clarify)
    fix x eof w assume pull: "pull_bytes (dfd i) MAX_PAYLOAD (wld st) = Inr (x, eof, w)"
    note inc = pull_bytes_incoming [OF pull]
    have gw: "get_sock (lsock i) (st\<lparr>wld := w\<rparr>) = Inr s" using g by (simp add: get_sock_def split: if_splits)
    have weak: "comes_to m (passed_on i bs n st x) \<Longrightarrow> comes_to m (\<lambda>st'. \<exists>x. passed_on i bs n st x st')" for m
      by (auto simp: comes_to_def)
    have em: "passed_on i bs n st x (st\<lparr>wld := w\<rparr>)" if "x = []" using that snd t inc by (simp add: passed_on_def sound_def taken_def data_out_def)
    show "comes_to (let st1 = st\<lparr>wld := w\<rparr>; fin = \<lambda>eof st2. if eof then close_sock (lsock i) st2 else Inr st2
       in andthen (get_sock (lsock i) st1) (\<lambda>s. if x = [] \<or> peer s = 0 then fin eof st1
          else let p' = \<lparr>a_len = 0, a_ptr = 0, a_msg = zero_msg, a_data = junk st\<rparr>\<lparr>a_len := word_of_nat (length x),
                a_data := x @ drop (length x) (a_data \<lparr>a_len = 0, a_ptr = 0, a_msg = zero_msg, a_data = junk st\<rparr>)\<rparr> in
            andthen (sock_enqueue (peer s) p' st1) (\<lambda>(r, st2). if r < 0 then Inr st2
              else andthen (get_sock (lsock i) st2) (\<lambda>_. andthen (if r > 0 then on_evl (fdevent_del (lsock i) FDE_READ) st2 else Inr st2) (\<lambda>st3.
                  fin ((force_eof (fdes (evl st3) (lsock i)) \<and> r = 0) \<or> eof) st3)))))
       (\<lambda>st'. \<exists>x. passed_on i bs n st x st')"
    proof (cases "x = []")
      case True
      with gw weak [OF read_end [OF _ em [OF True], of eof]] up show ?thesis by (simp add: Let_def)
    next
      case False
      obtain st2 l where e: "sock_enqueue (rsock i) \<lparr>a_len = word_of_nat (length x), a_ptr = 0, a_msg = zero_msg,
          a_data = x @ drop (length x) (junk st)\<rparr> (st\<lparr>wld := w\<rparr>) = Inr (1, st2)"
        "get_sock (lsock i) st2 = get_sock (lsock i) st" "on_evl (fdevent_del (lsock i) FDE_READ) st2 = Inr (st2\<lparr>evl := l\<rparr>)"
        "stream_up i (st2\<lparr>evl := l\<rparr>)" "passed_on i bs n st x (st2\<lparr>evl := l\<rparr>)"
        by (rule data_sent [OF snd up t False, of w]) (use inc in auto)
      with gw g s False weak [OF read_end [OF e(4,5), of eof]] show ?thesis by simp
    qed
  qed
qed

text \<open>Both parts of a call of \<open>local_socket_event_func\<close>, for events the socket has asked for.\<close>

definition asked_for :: "stream_id \<Rightarrow> u16 \<Rightarrow> dstate \<Rightarrow> bool" where
  "asked_for i ev st \<longleftrightarrow> (has ev FDE_READ \<longrightarrow> wants i st FDE_READ) \<and> (has ev FDE_WRITE \<longrightarrow> wants i st FDE_WRITE)"

lemma event_step:
  assumes snd: "sound st" and up: "stream_up i st" and t: "taken i bs n st" and a: "asked_for i ev st"
  shows "comes_to (local_socket_event_func (dfd i) ev (lsock i) st) (\<lambda>st'. \<exists>x. passed_on i bs n st x st' \<and> (x \<noteq> [] \<longrightarrow> has ev FDE_READ))"
proof -
  have none: "passed_on i bs n st [] st'" if "sound st'" "packets_of i A_WRTE st' = packets_of i A_WRTE st"
    "incoming (dfd i) (wld st') = incoming (dfd i) (wld st)" "stream_up i st' \<longrightarrow> taken i bs n st' \<and> wants i st' FDE_READ = wants i st FDE_READ" for st'
    using that by (auto simp: passed_on_def data_out_def)
  have rd: "comes_to (if has ev FDE_READ then event_read (lsock i) (dfd i) st1 else Inr st1) (\<lambda>st'. \<exists>x. passed_on i bs n st x st' \<and> (x \<noteq> [] \<longrightarrow> has ev FDE_READ))"
    if "sound st1" "stream_up i st1" "taken i bs n st1" "packets_of i A_WRTE st1 = packets_of i A_WRTE st"
      "incoming (dfd i) (wld st1) = incoming (dfd i) (wld st)" "wants i st1 FDE_READ = wants i st FDE_READ" for st1
  proof (cases "has ev FDE_READ")
    case True
    have "passed_on i bs n st1 x st' \<Longrightarrow> passed_on i bs n st x st'" for x st' using that(4-6) by (simp add: passed_on_def data_out_def)
    with True show ?thesis by (auto intro!: comes_to_mono [OF read_event_step [OF that(1-3)]])
  next
    case False
    then show ?thesis using none [of st1] that by auto
  qed
  show ?thesis
  proof (cases "has ev FDE_WRITE")
    case False
    with rd [OF snd up t refl refl refl] show ?thesis by (simp add: local_socket_event_func_def)
  next
    case True
    then have "wants i st FDE_WRITE" using a by (simp add: asked_for_def)
    from write_event_step [OF snd up t this] show ?thesis
    proof (cases "event_write (lsock i) (dfd i) st = Inl Blocked")
      case False
      with write_event_step [OF snd up t \<open>wants i st FDE_WRITE\<close>] obtain go st1 where w: "event_write (lsock i) (dfd i) st = Inr (go, st1)"
        "sound st1" "packets_of i A_WRTE st1 = packets_of i A_WRTE st" "incoming (dfd i) (wld st1) = incoming (dfd i) (wld st)"
        "go \<longrightarrow> stream_up i st1" "stream_up i st1 \<longrightarrow> taken i bs n st1 \<and> wants i st1 FDE_READ = wants i st FDE_READ"
        by (auto simp: comes_to_def)
      show ?thesis
      proof (cases go)
        case True
        with w rd [of st1] \<open>has ev FDE_WRITE\<close> show ?thesis by (simp add: local_socket_event_func_def)
      next
        case False
        with w none [of st1] \<open>has ev FDE_WRITE\<close> show ?thesis by (auto simp: local_socket_event_func_def)
      qed
    qed (use True in \<open>simp add: local_socket_event_func_def\<close>)
  qed
qed

section \<open>Runs\<close>

text \<open>What the host has written and how often it has written and acknowledged, and what the service has given.\<close>

record hostview =
  wrote :: bytes
  writes :: nat
  acks :: nat
  pulled :: bytes

abbreviation nothing_yet :: hostview where
  "nothing_yet \<equiv> \<lparr>wrote = [], writes = 0, acks = 0, pulled = []\<rparr>"

text \<open>Anything else the daemon, its threads and the kernel may do: it leaves this stream alone.\<close>

definition elsewhere :: "stream_id \<Rightarrow> dstate \<Rightarrow> dstate \<Rightarrow> bool" where
  "elsewhere i st st' \<longleftrightarrow> sound st' \<and> stream_up i st' \<and> queue_of i st' = queue_of i st \<and>
     wants i st' FDE_READ = wants i st FDE_READ \<and> wants i st' FDE_WRITE = wants i st FDE_WRITE \<and>
     w_out (wld st') (dfd i) = w_out (wld st) (dfd i) \<and>
     packets_of i A_OKAY st' = packets_of i A_OKAY st \<and> packets_of i A_WRTE st' = packets_of i A_WRTE st"

text \<open>The host writes when all its writes are acknowledged, and acknowledges what it has got.\<close>

definition may_write :: "stream_id \<Rightarrow> daemon \<Rightarrow> daemon \<Rightarrow> hostview \<Rightarrow> bool" where
  "may_write i d0 d h \<longleftrightarrow> length (packets_of i A_OKAY (ds d)) = length (packets_of i A_OKAY (ds d0)) + writes h"

definition may_ack :: "stream_id \<Rightarrow> daemon \<Rightarrow> daemon \<Rightarrow> hostview \<Rightarrow> bool" where
  "may_ack i d0 d h \<longleftrightarrow> length (packets_of i A_WRTE (ds d)) > length (packets_of i A_WRTE (ds d0)) + acks h"

inductive runs :: "(string \<Rightarrow> dstate \<Rightarrow> (addr \<times> dstate) outcome) \<Rightarrow> stream_id \<Rightarrow> daemon \<Rightarrow> daemon \<Rightarrow> hostview \<Rightarrow> bool"
  for open_service i d0 where
  start: "runs open_service i d0 d0 nothing_yet"
| host_write: "runs open_service i d0 d h \<Longrightarrow> stream_up i (ds d) \<Longrightarrow> write_packet i p \<Longrightarrow> may_write i d0 d h \<Longrightarrow>
    handle_packet open_service p (trn i) d = Inr d' \<Longrightarrow>
    runs open_service i d0 d' (h\<lparr>wrote := wrote h @ wire_data p, writes := writes h + 1\<rparr>)"
| host_ack: "runs open_service i d0 d h \<Longrightarrow> stream_up i (ds d) \<Longrightarrow> ack_packet i p \<Longrightarrow> may_ack i d0 d h \<Longrightarrow>
    handle_packet open_service p (trn i) d = Inr d' \<Longrightarrow> runs open_service i d0 d' (h\<lparr>acks := acks h + 1\<rparr>)"
| event: "runs open_service i d0 d h \<Longrightarrow> stream_up i (ds d) \<Longrightarrow> asked_for i ev (ds d) \<Longrightarrow>
    on_ds (local_socket_event_func (dfd i) ev (lsock i)) d = Inr d' \<Longrightarrow>
    incoming (dfd i) (wld (ds d)) = x @ incoming (dfd i) (wld (ds d')) \<Longrightarrow>
    runs open_service i d0 d' (h\<lparr>pulled := pulled h @ x\<rparr>)"
| other: "runs open_service i d0 d h \<Longrightarrow> stream_up i (ds d) \<Longrightarrow> elsewhere i (ds d) (ds d') \<Longrightarrow> runs open_service i d0 d' h"

text \<open>A stream as \<open>A_OPEN\<close> leaves it: nothing is queued, and the socket reads.\<close>

definition opened :: "stream_id \<Rightarrow> daemon \<Rightarrow> bool" where
  "opened i d \<longleftrightarrow> sound (ds d) \<and> stream_up i (ds d) \<and> queue_of i (ds d) = [] \<and>
     wants i (ds d) FDE_READ \<and> \<not> wants i (ds d) FDE_WRITE"

definition flow :: "stream_id \<Rightarrow> daemon \<Rightarrow> daemon \<Rightarrow> hostview \<Rightarrow> bool" where
  "flow i d0 d h \<longleftrightarrow> sound (ds d) \<and> data_out i (ds d) = data_out i (ds d0) @ pulled h \<and>
     (stream_up i (ds d) \<longrightarrow>
       taken i (w_out (wld (ds d0)) (dfd i) @ wrote h) (length (packets_of i A_OKAY (ds d0)) + writes h) (ds d) \<and>
       length (packets_of i A_WRTE (ds d)) = length (packets_of i A_WRTE (ds d0)) + acks h + (if wants i (ds d) FDE_READ then 0 else 1))"

lemma handle_stream_packet:
  assumes "stream_up i (ds d)"
  shows "write_packet i p \<Longrightarrow> handle_packet open_service p (trn i) d = on_ds (handle_wrte p (trn i)) d"
    and "ack_packet i p \<Longrightarrow> handle_packet open_service p (trn i) d = on_ds (handle_okay p (trn i)) d"
proof -
  obtain x where "get_trans (trn i) d = Inr x" "online x" using assms by (auto simp: stream_up_def get_trans_def)
  then show "write_packet i p \<Longrightarrow> handle_packet open_service p (trn i) d = on_ds (handle_wrte p (trn i)) d"
    "ack_packet i p \<Longrightarrow> handle_packet open_service p (trn i) d = on_ds (handle_okay p (trn i)) d"
    by (simp_all add: handle_packet_def write_packet_def ack_packet_def command_defs)
qed

lemma on_ds_comes_to: "comes_to (f (ds d)) P \<Longrightarrow> comes_to (on_ds f d) (\<lambda>d'. P (ds d'))"
  by (auto simp: comes_to_def on_ds_def)

text \<open>Each call, from a state in which the contract holds.\<close>

lemma write_call:
  assumes "flow i d0 d h" and "stream_up i (ds d)" and "write_packet i p" and "may_write i d0 d h"
  shows "comes_to (handle_packet open_service p (trn i) d) (\<lambda>d'. flow i d0 d' (h\<lparr>wrote := wrote h @ wire_data p, writes := writes h + 1\<rparr>))"
proof -
  have q: "queue_of i (ds d) = []" using assms(1,2,4) by (simp add: flow_def taken_def may_write_def)
  from assms(1,2) have "sound (ds d)" "taken i (w_out (wld (ds d0)) (dfd i) @ wrote h) (length (packets_of i A_OKAY (ds d0)) + writes h) (ds d)"
    by (simp_all add: flow_def)
  note w = on_ds_comes_to [of "handle_wrte p (trn i)", OF write_step [OF this(1) assms(2) this(2) q assms(3)]]
  show ?thesis unfolding handle_stream_packet(1) [OF assms(2,3)]
    by (rule comes_to_mono [OF w]) (use assms(1,2) in \<open>simp add: flow_def data_out_def\<close>)
qed

lemma ack_call:
  assumes "flow i d0 d h" and "stream_up i (ds d)" and "ack_packet i p" and "may_ack i d0 d h"
  shows "comes_to (handle_packet open_service p (trn i) d) (\<lambda>d'. flow i d0 d' (h\<lparr>acks := acks h + 1\<rparr>))"
proof -
  from assms(1,2) have "sound (ds d)" "taken i (w_out (wld (ds d0)) (dfd i) @ wrote h) (length (packets_of i A_OKAY (ds d0)) + writes h) (ds d)"
    by (simp_all add: flow_def)
  note a = on_ds_comes_to [of "handle_okay p (trn i)", OF ack_step [OF this(1) assms(2) this(2) assms(3)]]
  show ?thesis unfolding handle_stream_packet(2) [OF assms(2,3)]
    by (rule comes_to_mono [OF a]) (use assms(1,2,4) in \<open>simp add: flow_def data_out_def may_ack_def split: if_splits\<close>)
qed

lemma event_call:
  assumes "flow i d0 d h" and "stream_up i (ds d)" and "asked_for i ev (ds d)"
  shows "comes_to (on_ds (local_socket_event_func (dfd i) ev (lsock i)) d)
    (\<lambda>d'. \<exists>x. incoming (dfd i) (wld (ds d)) = x @ incoming (dfd i) (wld (ds d')) \<and> flow i d0 d' (h\<lparr>pulled := pulled h @ x\<rparr>))"
proof -
  from assms(1,2) have "sound (ds d)" "taken i (w_out (wld (ds d0)) (dfd i) @ wrote h) (length (packets_of i A_OKAY (ds d0)) + writes h) (ds d)"
    by (simp_all add: flow_def)
  note e = on_ds_comes_to [of "local_socket_event_func (dfd i) ev (lsock i)", OF event_step [OF this(1) assms(2) this(2) assms(3)]]
  show ?thesis
  proof (rule comes_to_mono [OF e], elim exE conjE)
    fix d' :: daemon and x assume p: "passed_on i (w_out (wld (ds d0)) (dfd i) @ wrote h) (length (packets_of i A_OKAY (ds d0)) + writes h) (ds d) x (ds d')"
      and x: "x \<noteq> [] \<longrightarrow> has ev FDE_READ"
    have "x \<noteq> [] \<longrightarrow> wants i (ds d) FDE_READ" using x assms(3) by (simp add: asked_for_def)
    then have "flow i d0 d' (h\<lparr>pulled := pulled h @ x\<rparr>)" using p assms(1,2) by (simp add: flow_def passed_on_def)
    with p show "\<exists>x. incoming (dfd i) (wld (ds d)) = x @ incoming (dfd i) (wld (ds d')) \<and> flow i d0 d' (h\<lparr>pulled := pulled h @ x\<rparr>)"
      by (auto simp: passed_on_def)
  qed
qed

lemma runs_flow:
  assumes "runs open_service i d0 d h" and "opened i d0"
  shows "flow i d0 d h"
  using assms(1)
proof (induction rule: runs.induct)
  case start
  with assms(2) show ?case by (simp add: opened_def flow_def taken_def queued_def)
next
  case (host_write d h p d')
  from comes_to_safely [OF write_call [OF host_write.IH host_write.hyps(2-4)]] host_write.hyps(5) show ?case by (simp add: safely_def)
next
  case (host_ack d h p d')
  from comes_to_safely [OF ack_call [OF host_ack.IH host_ack.hyps(2-4)]] host_ack.hyps(5) show ?case by (simp add: safely_def)
next
  case (event d h ev d' x)
  from comes_to_safely [OF event_call [OF event.IH event.hyps(2,3)]] event.hyps(4) obtain y where
    "incoming (dfd i) (wld (ds d)) = y @ incoming (dfd i) (wld (ds d'))" "flow i d0 d' (h\<lparr>pulled := pulled h @ y\<rparr>)"
    by (auto simp: safely_def)
  with event.hyps(5) show ?case by simp
next
  case (other d h d')
  then show ?case by (simp add: flow_def elsewhere_def taken_def data_out_def)
qed

section \<open>Opening\<close>

lemma find_in_last:
  assumes "\<And>a. a \<in> set as \<Longrightarrow> \<exists>s. get_sock a st = Inr s \<and> s_id s \<noteq> k" and "get_sock b st = Inr s" and "s_id s = k"
  shows "find_in k (as @ [b]) st = Inr (Some b)"
  using assms(1)
proof (induction as)
  case (Cons a as)
  from Cons.prems [of a] obtain y where "get_sock a st = Inr y" "s_id y \<noteq> k" by auto
  moreover have "find_in k (as @ [b]) st = Inr (Some b)" using Cons by simp
  ultimately show ?case by simp
qed (use assms(2,3) in simp)

text \<open>The number the next socket gets is not in use. Numbers come round again after \<open>2 ^ 32\<close> sockets.\<close>

definition id_free :: "dstate \<Rightarrow> bool" where
  "id_free st \<longleftrightarrow> (\<forall>a \<in> set (sock_list st). \<forall>s. socks st a = Some s \<longrightarrow> s_id s \<noteq> next_id st)"

text \<open>What \<open>A_OPEN\<close> leaves is an open stream, for every service on a descriptor that does not make the daemon exit.\<close>

lemma open_opens:
  assumes cmd: "command (a_msg p) = A_OPEN" and on: "t \<noteq> 0" "trans (ds d) t = Some y" "online y"
    and x: "trans st1 t = Some x" "online x" and p: "open_name p name" "name \<noteq> ''jdwp''" "name \<noteq> ''track-jdwp''"
    and fd: "service_to_fd name (ds d) = Inr (int fd, st1)" and ex: "\<not> exits uid name" and id: "id_free st1"
    and st1: "sock_inv st1" "room_ok st1" "new_fd fd st1" "\<not> sock_lock st1"
  obtains d' where "handle_packet (create_local_service_socket jdwp track service_to_fd uid) p t d = Inr d'"
    and "opened \<lparr>lsock = fresh st1, rsock = fresh st1 + 1, trn = t, lid = next_id st1, rid = arg0 (a_msg p), dfd = int fd\<rparr> d'"
    and "wld (ds d') = wld st1" and "sent (ds d') = sent st1 @ [(t, sealed_msg (junk st1) A_OKAY (next_id st1) (arg0 (a_msg p)))]"
proof -
  let ?a = "fresh st1" and ?b = "fresh st1 + 1"
  let ?i = "\<lparr>lsock = ?a, rsock = ?b, trn = t, lid = next_id st1, rid = arg0 (a_msg p), dfd = int fd\<rparr>"
  let ?s = "zero_socket\<lparr>s_fd := int fd, s_id := next_id st1, exit_on_close := False, peer := ?b\<rparr>"
  let ?q = "zero_socket\<lparr>s_id := arg0 (a_msg p), enqueue := RemoteFn, ready := RemoteFn, close := RemoteFn, s_transport := t, peer := ?a\<rparr>"
  obtain st' ns where st': "handle_open (create_local_service_socket jdwp track service_to_fd uid) p t (ds d) = Inr st'" "sock_inv st'"
    "socks st' = (socks st1)(?a \<mapsto> ?s, ?b \<mapsto> ?q)" "sent st' = sent st1 @ [(t, sealed_msg (junk st1) A_OKAY (next_id st1) (arg0 (a_msg p)))]"
    "want (fde_state (fdes (evl st') ?a)) = FDE_READ" "sock_list st' = sock_list st1 @ [?a]" "\<not> sock_lock st'" "wld st' = wld st1"
    "trans st' = (trans st1)(t \<mapsto> x\<lparr>disconnects := ns\<rparr>)"
    using open_pair [where service_to_fd = service_to_fd and jdwp = jdwp and track = track and uid = uid, OF on(1) x(1) p fd st1] ex by auto
  have free: "socks st1 ?a = None" "socks st1 ?b = None" "?a \<noteq> 0" using st1(2) by (auto simp: room_ok_def)
  have "\<exists>s. get_sock c st' = Inr s \<and> s_id s \<noteq> next_id st1" if "c \<in> set (sock_list st1)" for c
  proof -
    have "c \<in> set (sock_list st1 @ closing_list st1)" using that by simp
    with st1(1) obtain s where s: "socks st1 c = Some s" by (rule listed_local)
    then have "socks st' c = Some s" using free by (auto simp: st'(3))
    with id that s show ?thesis using get_sock_live [OF st'(2)] by (auto simp: id_free_def)
  qed
  moreover have "get_sock ?a st' = Inr ?s" using free st'(3) by (simp add: get_sock_def)
  ultimately have find: "find_local_socket (next_id st1) st' = Inr (Some ?a)"
    using find_in_last [of "sock_list st1" st' "next_id st1" ?a ?s] st'(6,7) by (simp add: find_local_socket_def zero_socket_def)
  then have "stream_up ?i st'" using st'(3,9) on(1) x(2) by (simp add: stream_up_def sock_kinds zero_socket_def)
  then have "opened ?i (d\<lparr>ds := st'\<rparr>)" unfolding opened_def wants_def has_io
    using st'(2,3,5,7) by (simp add: sound_def queue_of_def zero_socket_def bit_io)
  moreover have "handle_packet (create_local_service_socket jdwp track service_to_fd uid) p t d = Inr (d\<lparr>ds := st'\<rparr>)"
    using cmd on st'(1) by (simp add: handle_packet_def get_trans_def on_ds_def command_defs)
  ultimately show ?thesis using that [of "d\<lparr>ds := st'\<rparr>"] st'(4,8) by simp
qed



section \<open>A concrete stream\<close>

text \<open>A daemon without authentication, the service \<open>sync:\<close> on descriptor 3, and a packet of the host.\<close>

definition sample_host :: daemon where
  "sample_host = \<lparr>ds = sample_daemon, HOST = False, auth_enabled = False, banner = ''device'', banner_values = [], framework_fd = -1, urandom = None\<rparr>"

abbreviation sample_open :: "string \<Rightarrow> dstate \<Rightarrow> (addr \<times> dstate) outcome" where
  "sample_open \<equiv> create_local_service_socket (\<lambda>st. Inr (0, st)) (\<lambda>st. Inr (0, st)) (\<lambda>name st. Inr (3, st)) 0"

abbreviation sample_stream :: stream_id where
  "sample_stream \<equiv> \<lparr>lsock = 200, rsock = 201, trn = 100, lid = 1, rid = 7, dfd = 3\<rparr>"

definition hi_packet :: apacket where
  "hi_packet = (piece ''hi'')\<lparr>a_msg := zero_msg\<lparr>command := A_WRTE, arg0 := 7, arg1 := 1, data_length := 2\<rparr>\<rparr>"

lemma hi_packet_ok: "write_packet sample_stream hi_packet" "wire_data hi_packet = bytes_of ''hi''"
  by (simp_all add: hi_packet_def write_packet_def wire_data_def piece_def MAX_PAYLOAD_def)

lemma sample_opened:
  obtains d where "handle_packet sample_open (text_packet A_OPEN 7 ''sync:'') 100 sample_host = Inr d" and "opened sample_stream d"
    and "wld (ds d) = wld sample_daemon" and "data_out sample_stream (ds d) = []" and "length (packets_of sample_stream A_OKAY (ds d)) = 1"
    and "length (packets_of sample_stream A_WRTE (ds d)) = 0"
proof -
  let ?p = "text_packet A_OPEN 7 ''sync:''"
  have name: "open_name ?p ''sync:''"
    using cstr_bytes_of [of "''sync:''" "[]"] by (simp add: open_name_def text_packet_def list_update_append)
  have h: "ds sample_host = sample_daemon" "command (a_msg ?p) = A_OPEN" by (simp_all add: sample_host_def text_packet_def)
  have x: "trans (ds sample_host) 100 = Some (zero_transport\<lparr>online := True, connection_state := CS_HOST\<rparr>)"
    using h(1) sample_daemon_inv(5) by simp
  have fd: "(\<lambda>name st. Inr (3, st)) ''sync:'' (ds sample_host) = Inr (int 3, sample_daemon)" by (simp add: h(1))
  have ex: "\<not> exits 0 ''sync:''" "id_free sample_daemon" by (simp_all add: exits_def starts_with_def id_free_def sample_daemon_def)
  obtain d where d: "handle_packet sample_open ?p 100 sample_host = Inr d"
    "opened \<lparr>lsock = fresh sample_daemon, rsock = fresh sample_daemon + 1, trn = 100, lid = next_id sample_daemon,
      rid = arg0 (a_msg ?p), dfd = int 3\<rparr> d" "wld (ds d) = wld sample_daemon"
    "sent (ds d) = sent sample_daemon @ [(100, sealed_msg (junk sample_daemon) A_OKAY (next_id sample_daemon) (arg0 (a_msg ?p)))]"
    by (rule open_opens [where service_to_fd = "\<lambda>name st. Inr (3, st)" and uid = 0 and jdwp = "\<lambda>st. Inr (0, st)"
      and track = "\<lambda>st. Inr (0, st)", OF h(2) _ x _ sample_daemon_inv(5) _ name _ _ fd ex sample_daemon_inv(1-4)]) simp_all
  have f: "fresh sample_daemon = 200" "next_id sample_daemon = 1" "sent sample_daemon = []" "arg0 (a_msg (text_packet A_OPEN 7 ''sync:'')) = 7"
    by (simp_all add: sample_daemon_def text_packet_def)
  have "sent (ds d) = [(100, sealed_msg (junk sample_daemon) A_OKAY 1 7)]" using d(4) f by simp
  then have "packets_of sample_stream A_OKAY (ds d) = [sealed_msg (junk sample_daemon) A_OKAY 1 7]" "packets_of sample_stream A_WRTE (ds d) = []"
    by (simp_all add: packets_of_def of_stream_def sealed_msg_def)
  with d f that show ?thesis by (simp add: data_out_def)
qed

text \<open>The host writes, and the descriptor takes it at once.\<close>

lemma sample_write:
  assumes o: "opened sample_stream d" and w: "wld (ds d) = wld sample_daemon"
  obtains d' where "handle_packet sample_open hi_packet 100 d = Inr d'"
    and "runs sample_open sample_stream d d' \<lparr>wrote = bytes_of ''hi'', writes = 1, acks = 0, pulled = []\<rparr>" and "stream_up sample_stream (ds d')"
proof -
  have up: "stream_up sample_stream (ds d)" and inv: "sock_inv (ds d)" and q: "queue_of sample_stream (ds d) = []"
    using o by (simp_all add: opened_def sound_def)
  obtain p w1 where push: "push_bytes 3 (to_push hi_packet) (wld (ds d)) = Inr (PushDone, p, w1)"
    by (simp add: w sample_daemon_def push_bytes.simps adb_write.simps sys_write_def hi_packet_def piece_def MAX_PAYLOAD_def bytes_of_def)
  let ?st = "(ds d)\<lparr>wld := w1\<rparr>"
  from up obtain s where s: "socks (ds d) 200 = Some s" "s_id s = 1" by (rule stream_up_local) simp
  have g: "get_sock 200 ?st = Inr s" using get_sock_live [OF inv s(1)] by (simp add: get_sock_def split: if_splits)
  have "send_ready 1 7 100 ?st = Inr (?st\<lparr>sent := sent ?st @ [(100, sealed_msg (junk ?st) A_OKAY 1 7)]\<rparr>)"
    using send_okay [of ?st sample_stream] inv up by simp
  then obtain st' where st': "handle_wrte hi_packet 100 (ds d) = Inr st'" "stream_up sample_stream st'"
    using handle_wrte_eq [OF inv up q hi_packet_ok(1)] push g s(2) up by simp
  then have h: "handle_packet sample_open hi_packet 100 d = Inr (d\<lparr>ds := st'\<rparr>)"
    using handle_stream_packet(1) [OF up hi_packet_ok(1)] by (simp add: on_ds_def)
  have "may_write sample_stream d d nothing_yet" by (simp add: may_write_def)
  with runs.host_write [OF runs.start [of sample_open sample_stream d] up hi_packet_ok(1)] h hi_packet_ok(2) st'(2) that show ?thesis by simp
qed



end
