(* ===== verification/Endpoints.thy ===== *)
theory Endpoints
  imports Strings Io
begin

text \<open>
  The socket helpers of \<open>libcutils\<close> (\<open>socket_local_client.c\<close>, \<open>socket_local_server.c\<close>,
  \<open>socket_loopback_client.c\<close>, \<open>socket_loopback_server.c\<close>, \<open>socket_inaddr_any_server.c\<close>): the address of a
  Unix socket, and the calls that make a client or a server of it. Each function is given the world
  and returns the descriptor, or -1, with the world after it.
\<close>

section \<open>Constants\<close>

definition AF_LOCAL :: nat where "AF_LOCAL = 1"
definition AF_INET :: nat where "AF_INET = 2"
definition SOCK_STREAM :: nat where "SOCK_STREAM = 1"
definition SO_REUSEADDR :: nat where "SO_REUSEADDR = 2"
definition LISTEN_BACKLOG :: nat where "LISTEN_BACKLOG = 4"
definition INADDR_LOOPBACK :: u32 where "INADDR_LOOPBACK = 0x7f000001"
definition INADDR_ANY :: u32 where "INADDR_ANY = 0"

definition ANDROID_SOCKET_NAMESPACE_ABSTRACT :: nat where "ANDROID_SOCKET_NAMESPACE_ABSTRACT = 0"
definition ANDROID_SOCKET_NAMESPACE_RESERVED :: nat where "ANDROID_SOCKET_NAMESPACE_RESERVED = 1"
definition ANDROID_SOCKET_NAMESPACE_FILESYSTEM :: nat where "ANDROID_SOCKET_NAMESPACE_FILESYSTEM = 2"
definition ANDROID_RESERVED_SOCKET_PREFIX :: string where "ANDROID_RESERVED_SOCKET_PREFIX = ''/run/''"

lemmas namespace_defs = ANDROID_SOCKET_NAMESPACE_ABSTRACT_def ANDROID_SOCKET_NAMESPACE_RESERVED_def
  ANDROID_SOCKET_NAMESPACE_FILESYSTEM_def ANDROID_RESERVED_SOCKET_PREFIX_def

text \<open>The size of \<open>sun_path\<close>, its offset in \<open>struct sockaddr_un\<close>, and the size of the structure.\<close>

definition sizeof_sun_path :: nat where "sizeof_sun_path = 108"
definition offset_sun_path :: nat where "offset_sun_path = 2"
definition sizeof_sockaddr_un :: nat where "sizeof_sockaddr_un = 110"

lemmas sun_defs = sizeof_sun_path_def offset_sun_path_def sizeof_sockaddr_un_def

section \<open>Addresses\<close>

text \<open>\<open>memcpy\<close> or \<open>strcpy\<close> into a buffer at a position.\<close>

definition put_at :: "bytes \<Rightarrow> nat \<Rightarrow> bytes \<Rightarrow> bytes outcome" where
  "put_at buf pos bs = (if pos + length bs \<le> length buf then Inr (take pos buf @ bs @ drop (pos + length bs) buf) else Inl OutOfBounds)"

text \<open>\<open>socket_make_sockaddr_un\<close>: \<open>sun_path\<close> and the length of the address, or \<open>None\<close> for -1.\<close>

definition socket_make_sockaddr_un :: "string \<Rightarrow> nat \<Rightarrow> (bytes \<times> nat) option outcome" where
  "socket_make_sockaddr_un name namespaceId =
    (let path0 = replicate sizeof_sun_path 0 in
     if namespaceId = ANDROID_SOCKET_NAMESPACE_ABSTRACT then
       let namelen = length name in
       if namelen + 1 > sizeof_sun_path then Inr None
       else andthen (put_at path0 0 [0]) (\<lambda>path1. andthen (put_at path1 1 (bytes_of name)) (\<lambda>path.
         Inr (Some (path, namelen + offset_sun_path + 1))))
     else if namespaceId = ANDROID_SOCKET_NAMESPACE_RESERVED then
       let namelen = length name + length ANDROID_RESERVED_SOCKET_PREFIX in
       if namelen > sizeof_sockaddr_un - offset_sun_path - 1 then Inr None
       else andthen (put_at path0 0 (bytes_of ANDROID_RESERVED_SOCKET_PREFIX @ [0])) (\<lambda>path1.
         andthen (put_at path1 (length ANDROID_RESERVED_SOCKET_PREFIX) (bytes_of name @ [0])) (\<lambda>path.
         Inr (Some (path, namelen + offset_sun_path + 1))))
     else if namespaceId = ANDROID_SOCKET_NAMESPACE_FILESYSTEM then
       let namelen = length name in
       if namelen > sizeof_sockaddr_un - offset_sun_path - 1 then Inr None
       else andthen (put_at path0 0 (bytes_of name @ [0])) (\<lambda>path. Inr (Some (path, namelen + offset_sun_path + 1)))
     else Inr None)"

text \<open>The address the kernel sees: the path up to the given length.\<close>

definition un_addr :: "bytes \<Rightarrow> nat \<Rightarrow> sockaddr" where
  "un_addr path alen = AddrUn (take (alen - offset_sun_path) path)"

section \<open>Clients and servers\<close>

definition ret_of :: "sysans \<Rightarrow> int" where
  "ret_of a = (case a of SRet r \<Rightarrow> r | _ \<Rightarrow> -1)"

text \<open>A call, with its result as an \<open>int\<close>.\<close>

definition call :: "syscall \<Rightarrow> world \<Rightarrow> int \<times> world" where
  "call c w = (let (a, w1) = sys_call c w in (ret_of a, w1))"

text \<open>A call whose result is not looked at.\<close>

definition do_call :: "syscall \<Rightarrow> world \<Rightarrow> world" where
  "do_call c w = snd (sys_call c w)"

definition socket_local_client_connect :: "int \<Rightarrow> string \<Rightarrow> nat \<Rightarrow> world \<Rightarrow> (int \<times> world) outcome" where
  "socket_local_client_connect fd name namespaceId w = andthen (socket_make_sockaddr_un name namespaceId) (\<lambda>r. case r of
       None \<Rightarrow> Inr (-1, w)
     | Some (path, alen) \<Rightarrow> (let (r, w1) = call (SysConnect fd (un_addr path alen)) w in Inr (if r < 0 then -1 else fd, w1)))"

definition socket_local_client :: "string \<Rightarrow> nat \<Rightarrow> nat \<Rightarrow> world \<Rightarrow> (int \<times> world) outcome" where
  "socket_local_client name namespaceId type w =
    (let (s, w1) = call (SysSocket AF_LOCAL type) w in
     if s < 0 then Inr (-1, w1)
     else andthen (socket_local_client_connect s name namespaceId w1) (\<lambda>(r, w2).
       if r < 0 then Inr (-1, do_call (SysClose s) w2) else Inr (s, w2)))"

text \<open>\<open>unlink(addr.sun_path)\<close> reads the path as a C string: it is empty for an abstract name.\<close>

definition socket_local_server_bind :: "int \<Rightarrow> string \<Rightarrow> nat \<Rightarrow> world \<Rightarrow> (int \<times> world) outcome" where
  "socket_local_server_bind s name namespaceId w = andthen (socket_make_sockaddr_un name namespaceId) (\<lambda>r. case r of
       None \<Rightarrow> Inr (-1, w)
     | Some (path, alen) \<Rightarrow> andthen (cstr path) (\<lambda>file.
         let w1 = do_call (SysSetsockopt s SO_REUSEADDR) (do_call (SysUnlink file) w);
             (r, w2) = call (SysBind s (un_addr path alen)) w1
         in Inr (if r < 0 then -1 else s, w2)))"

text \<open>The last steps of the servers: a bound socket listens, or is closed.\<close>

definition start_listening :: "int \<Rightarrow> nat \<Rightarrow> world \<Rightarrow> int \<times> world" where
  "start_listening s type w =
    (if type \<noteq> SOCK_STREAM then (s, w)
     else let (r, w1) = call (SysListen s LISTEN_BACKLOG) w in if r < 0 then (-1, do_call (SysClose s) w1) else (s, w1))"

definition socket_local_server :: "string \<Rightarrow> nat \<Rightarrow> nat \<Rightarrow> world \<Rightarrow> (int \<times> world) outcome" where
  "socket_local_server name namespaceId type w =
    (let (s, w1) = call (SysSocket AF_LOCAL type) w in
     if s < 0 then Inr (-1, w1)
     else andthen (socket_local_server_bind s name namespaceId w1) (\<lambda>(r, w2).
       if r < 0 then Inr (-1, do_call (SysClose s) w2) else Inr (start_listening s type w2)))"

definition socket_loopback_client :: "int \<Rightarrow> nat \<Rightarrow> world \<Rightarrow> int \<times> world" where
  "socket_loopback_client port type w =
    (let (s, w1) = call (SysSocket AF_INET type) w in
     if s < 0 then (-1, w1)
     else let (r, w2) = call (SysConnect s (AddrIn (word_of_int port) INADDR_LOOPBACK)) w1 in
       if r < 0 then (-1, do_call (SysClose s) w2) else (s, w2))"

text \<open>The two servers differ in the address only.\<close>

definition inet_server :: "u32 \<Rightarrow> int \<Rightarrow> nat \<Rightarrow> world \<Rightarrow> int \<times> world" where
  "inet_server host port type w =
    (let (s, w1) = call (SysSocket AF_INET type) w in
     if s < 0 then (-1, w1)
     else
       let w2 = do_call (SysSetsockopt s SO_REUSEADDR) w1;
           (r, w3) = call (SysBind s (AddrIn (word_of_int port) host)) w2
       in if r < 0 then (-1, do_call (SysClose s) w3) else start_listening s type w3)"

definition socket_loopback_server :: "int \<Rightarrow> nat \<Rightarrow> world \<Rightarrow> int \<times> world" where
  "socket_loopback_server = inet_server INADDR_LOOPBACK"

definition socket_inaddr_any_server :: "int \<Rightarrow> nat \<Rightarrow> world \<Rightarrow> int \<times> world" where
  "socket_inaddr_any_server = inet_server INADDR_ANY"

section \<open>The address is the name\<close>

text \<open>The address of each namespace, without the size of the structure.\<close>

definition un_name :: "string \<Rightarrow> nat \<Rightarrow> bytes option" where
  "un_name name namespaceId =
    (if namespaceId = ANDROID_SOCKET_NAMESPACE_ABSTRACT then Some (0 # bytes_of name)
     else if namespaceId = ANDROID_SOCKET_NAMESPACE_RESERVED then Some (bytes_of (ANDROID_RESERVED_SOCKET_PREFIX @ name) @ [0])
     else if namespaceId = ANDROID_SOCKET_NAMESPACE_FILESYSTEM then Some (bytes_of name @ [0])
     else None)"

lemma make_sockaddr_eq:
  "socket_make_sockaddr_un name namespaceId = Inr (case un_name name namespaceId of
     None \<Rightarrow> None
   | Some p \<Rightarrow> if length p \<le> sizeof_sun_path then Some (p @ replicate (sizeof_sun_path - length p) 0, length p + offset_sun_path) else None)"
proof -
  consider "namespaceId = ANDROID_SOCKET_NAMESPACE_ABSTRACT" | "namespaceId = ANDROID_SOCKET_NAMESPACE_RESERVED"
    | "namespaceId = ANDROID_SOCKET_NAMESPACE_FILESYSTEM" | "un_name name namespaceId = None" "namespaceId \<notin> {0, 1, 2}"
    unfolding un_name_def namespace_defs by (metis insert_iff singletonD)
  then show ?thesis
  proof cases
    case 2
    have run: "length ANDROID_RESERVED_SOCKET_PREFIX = 5" by (simp add: namespace_defs)
    have "take 5 (bytes_of ANDROID_RESERVED_SOCKET_PREFIX @ 0 # r) = bytes_of ANDROID_RESERVED_SOCKET_PREFIX" for r
      using run by simp
    with 2 run show ?thesis
      by (auto simp: socket_make_sockaddr_un_def un_name_def put_at_def namespace_defs sun_defs Let_def bytes_of_def)
  qed (auto simp: socket_make_sockaddr_un_def un_name_def put_at_def namespace_defs sun_defs Let_def)
qed

text \<open>C32: a Unix socket address never overflows: \<open>socket_make_sockaddr_un\<close> always returns, it refuses exactly the
  names that do not fit (and unknown namespaces), and otherwise the bytes the kernel is given are the
  name of its namespace: with a leading zero byte in the abstract one, under /run/ in the
  reserved one, and terminated in these last two.\<close>

theorem sockaddr_un_exact:
  "socket_make_sockaddr_un name namespaceId = Inr (case un_name name namespaceId of
     None \<Rightarrow> None
   | Some p \<Rightarrow> if length p \<le> 108 then Some (p @ replicate (108 - length p) 0, length p + 2) else None)"
  by (simp only: make_sockaddr_eq sun_defs)

lemma un_addr_name:
  "socket_make_sockaddr_un name namespaceId = Inr (Some (path, alen)) \<Longrightarrow>
    \<exists>p. un_name name namespaceId = Some p \<and> un_addr path alen = AddrUn p \<and> length path = sizeof_sun_path"
  by (auto simp: make_sockaddr_eq un_addr_def split: option.splits if_splits)

section \<open>A socket is returned or closed\<close>

text \<open>The promise of every function that opens a socket, to the callers that keep its result: the kernel
  is asked for one socket; if it gives one, the function either returns it and has not closed it, or
  fails and has closed it as its last act. Nothing but the file system and the log changes.\<close>

definition quiet_world :: "world \<Rightarrow> world \<Rightarrow> bool" where
  "quiet_world w w' \<longleftrightarrow> w_rd w' = w_rd w \<and> w_wr w' = w_wr w \<and> w_out w' = w_out w \<and> w_kern w' = w_kern w"

definition kept_or_closed :: "nat \<Rightarrow> nat \<Rightarrow> world \<Rightarrow> int \<times> world \<Rightarrow> bool" where
  "kept_or_closed d t w q \<longleftrightarrow> quiet_world w (snd q) \<and>
    (let s = ret_of (w_kern w (w_log w) (SysSocket d t)) in
     if s < 0 then fst q = -1 \<and> w_log (snd q) = w_log w @ [SysSocket d t]
     else \<exists>l. SysClose s \<notin> set l \<and>
       (fst q = s \<and> w_log (snd q) = w_log w @ [SysSocket d t] @ l \<or>
        fst q = -1 \<and> w_log (snd q) = w_log w @ [SysSocket d t] @ l @ [SysClose s]))"

lemma call_eq: "call c w = (ret_of (w_kern w (w_log w) c), do_call c w)"
  by (simp add: call_def do_call_def sys_call_def Let_def)

lemma do_call_world [simp]:
  "w_rd (do_call c w) = w_rd w" "w_wr (do_call c w) = w_wr w" "w_out (do_call c w) = w_out w"
  "w_kern (do_call c w) = w_kern w" "w_log (do_call c w) = w_log w @ [c]"
  by (simp_all add: do_call_def sys_call_def Let_def)

locale socket_opener =
  fixes dom :: nat and type :: nat and opn :: "world \<Rightarrow> (int \<times> world) outcome"
  assumes promise: "\<exists>q. opn w = Inr q \<and> kept_or_closed dom type w q"
begin

lemma opens: obtains fd w' where "opn w = Inr (fd, w')" and "quiet_world w w'" and "kept_or_closed dom type w (fd, w')"
  using promise [of w] that by (force simp: kept_or_closed_def)

lemma fails_closed:
  assumes "opn w = Inr (fd, w')" and "fd < 0" and "0 \<le> ret_of (w_kern w (w_log w) (SysSocket dom type))"
  shows "last (w_log w') = SysClose (ret_of (w_kern w (w_log w) (SysSocket dom type)))"
  using promise [of w] assms by (auto simp: kept_or_closed_def Let_def split: if_splits)

lemma keeps_open:
  assumes "opn w = Inr (fd, w')" and "0 \<le> fd"
  shows "fd = ret_of (w_kern w (w_log w) (SysSocket dom type)) \<and> SysClose fd \<notin> set (drop (length (w_log w)) (w_log w'))"
  using promise [of w] assms by (auto simp: kept_or_closed_def Let_def split: if_splits)

end

lemma start_listening_cases:
  "start_listening s type w = (s, w) \<or> start_listening s type w = (s, do_call (SysListen s LISTEN_BACKLOG) w) \<or>
   start_listening s type w = (-1, do_call (SysClose s) (do_call (SysListen s LISTEN_BACKLOG) w))"
  by (simp add: start_listening_def call_eq)

lemma start_listening_kept:
  assumes w1: "w_log w1 = w_log w @ [SysSocket d t] @ l" "SysClose s \<notin> set l" "quiet_world w w1"
    and s: "s = ret_of (w_kern w (w_log w) (SysSocket d t))" "\<not> s < 0"
  shows "kept_or_closed d t w (start_listening s type w1)"
proof -
  have q: "quiet_world w (snd (start_listening s type w1))"
    using start_listening_cases [of s type w1] w1(3) by (auto simp: quiet_world_def)
  have "\<exists>l. SysClose s \<notin> set l \<and>
      (fst (start_listening s type w1) = s \<and> w_log (snd (start_listening s type w1)) = w_log w @ [SysSocket d t] @ l \<or>
       fst (start_listening s type w1) = -1 \<and> w_log (snd (start_listening s type w1)) = w_log w @ [SysSocket d t] @ l @ [SysClose s])"
    using start_listening_cases [of s type w1] w1(1,2)
  proof (elim disjE)
    assume "start_listening s type w1 = (s, w1)"
    with w1 show ?thesis by auto
  next
    assume "start_listening s type w1 = (s, do_call (SysListen s LISTEN_BACKLOG) w1)"
    with w1 show ?thesis by (intro exI [of _ "l @ [SysListen s LISTEN_BACKLOG]"]) auto
  next
    assume "start_listening s type w1 = (-1, do_call (SysClose s) (do_call (SysListen s LISTEN_BACKLOG) w1))"
    with w1 show ?thesis by (intro exI [of _ "l @ [SysListen s LISTEN_BACKLOG]"]) auto
  qed
  with q s show ?thesis by (simp add: kept_or_closed_def Let_def)
qed

lemma failed_closed:
  assumes "w_log w1 = w_log w @ [SysSocket d t] @ l" "SysClose s \<notin> set l" "quiet_world w w1"
    and "s = ret_of (w_kern w (w_log w) (SysSocket d t))" "\<not> s < 0"
  shows "kept_or_closed d t w (-1, do_call (SysClose s) w1)"
  using assms by (auto simp: kept_or_closed_def Let_def quiet_world_def)

lemma kept:
  assumes "w_log w1 = w_log w @ [SysSocket d t] @ l" "SysClose s \<notin> set l" "quiet_world w w1"
    and "s = ret_of (w_kern w (w_log w) (SysSocket d t))" "\<not> s < 0"
  shows "kept_or_closed d t w (s, w1)"
  using assms by (auto simp: kept_or_closed_def Let_def)

lemma no_socket:
  "ret_of (w_kern w (w_log w) (SysSocket d t)) < 0 \<Longrightarrow> kept_or_closed d t w (-1, do_call (SysSocket d t) w)"
  by (simp add: kept_or_closed_def quiet_world_def)

interpretation inet: socket_opener AF_INET type "\<lambda>w. Inr (inet_server host port type w)" for host port type
proof
  fix w :: world
  let ?s = "ret_of (w_kern w (w_log w) (SysSocket AF_INET type))"
  let ?w3 = "do_call (SysBind ?s (AddrIn (word_of_int port) host)) (do_call (SysSetsockopt ?s SO_REUSEADDR) (do_call (SysSocket AF_INET type) w))"
  have w3: "w_log ?w3 = w_log w @ [SysSocket AF_INET type] @ [SysSetsockopt ?s SO_REUSEADDR, SysBind ?s (AddrIn (word_of_int port) host)]"
    "quiet_world w ?w3" by (simp_all add: quiet_world_def)
  from no_socket failed_closed [OF w3(1) _ w3(2) refl] start_listening_kept [OF w3(1) _ w3(2) refl, of type]
  show "\<exists>q. Inr (inet_server host port type w) = Inr q \<and> kept_or_closed AF_INET type w q"
    by (simp add: inet_server_def call_eq Let_def)
qed

interpretation loopback: socket_opener AF_INET type "\<lambda>w. Inr (socket_loopback_client port type w)" for port type
proof
  fix w :: world
  let ?s = "ret_of (w_kern w (w_log w) (SysSocket AF_INET type))"
  let ?w2 = "do_call (SysConnect ?s (AddrIn (word_of_int port) INADDR_LOOPBACK)) (do_call (SysSocket AF_INET type) w)"
  have w2: "w_log ?w2 = w_log w @ [SysSocket AF_INET type] @ [SysConnect ?s (AddrIn (word_of_int port) INADDR_LOOPBACK)]"
    "quiet_world w ?w2" by (simp_all add: quiet_world_def)
  from no_socket failed_closed [OF w2(1) _ w2(2) refl] kept [OF w2(1) _ w2(2) refl]
  show "\<exists>q. Inr (socket_loopback_client port type w) = Inr q \<and> kept_or_closed AF_INET type w q"
    by (simp add: socket_loopback_client_def call_eq Let_def)
qed

lemma connect_result:
  obtains "socket_local_client_connect s name ns w = Inr (-1, w)" |
    a where "socket_local_client_connect s name ns w =
      Inr (if ret_of (w_kern w (w_log w) (SysConnect s a)) < 0 then -1 else s, do_call (SysConnect s a) w)"
proof (cases "socket_make_sockaddr_un name ns = Inr None")
  case True
  then show ?thesis by (intro that(1)) (simp add: socket_local_client_connect_def)
next
  case False
  then obtain path alen where "socket_make_sockaddr_un name ns = Inr (Some (path, alen))"
    by (auto simp: make_sockaddr_eq split: option.splits if_splits)
  then show ?thesis by (intro that(2) [of "un_addr path alen"]) (simp add: socket_local_client_connect_def call_eq)
qed

lemma bind_result:
  obtains "socket_local_server_bind s name ns w = Inr (-1, w)" |
    fil a and r :: int where "socket_local_server_bind s name ns w =
      Inr (if r < 0 then -1 else s, do_call (SysBind s a) (do_call (SysSetsockopt s SO_REUSEADDR) (do_call (SysUnlink fil) w)))"
proof (cases "socket_local_server_bind s name ns w = Inr (-1, w)")
  case False
  then obtain p where p: "un_name name ns = Some p" "length p \<le> sizeof_sun_path"
    by (auto simp: socket_local_server_bind_def make_sockaddr_eq split: option.splits if_splits)
  let ?path = "p @ replicate (sizeof_sun_path - length p) 0"
  have "0 \<in> set p" using p(1) by (auto simp: un_name_def split: if_splits)
  then obtain fil where "cstr ?path = Inr fil" by (simp add: cstr_def)
  then show ?thesis using p
    by (intro that(2) [of "ret_of (w_kern w (w_log w @ [SysUnlink fil, SysSetsockopt s SO_REUSEADDR])
        (SysBind s (un_addr ?path (length p + offset_sun_path))))" "un_addr ?path (length p + offset_sun_path)" fil])
      (simp add: socket_local_server_bind_def make_sockaddr_eq call_eq Let_def)
qed (rule that(1))

interpretation local_client: socket_opener AF_LOCAL type "socket_local_client name ns type" for name ns type
proof
  fix w :: world
  let ?s = "ret_of (w_kern w (w_log w) (SysSocket AF_LOCAL type))"
  let ?w1 = "do_call (SysSocket AF_LOCAL type) w"
  have w1: "w_log ?w1 = w_log w @ [SysSocket AF_LOCAL type] @ []" "quiet_world w ?w1" by (simp_all add: quiet_world_def)
  show "\<exists>q. socket_local_client name ns type w = Inr q \<and> kept_or_closed AF_LOCAL type w q"
  proof (cases "?s < 0")
    case True
    with no_socket show ?thesis by (simp add: socket_local_client_def call_eq)
  next
    case False
    show ?thesis
    proof (rule connect_result [of ?s name ns ?w1])
      assume "socket_local_client_connect ?s name ns ?w1 = Inr (-1, ?w1)"
      with failed_closed [OF w1(1) _ w1(2) refl] False show ?thesis by (simp add: socket_local_client_def call_eq)
    next
      fix a assume r: "socket_local_client_connect ?s name ns ?w1 =
        Inr (if ret_of (w_kern ?w1 (w_log ?w1) (SysConnect ?s a)) < 0 then -1 else ?s, do_call (SysConnect ?s a) ?w1)"
      have w2: "w_log (do_call (SysConnect ?s a) ?w1) = w_log w @ [SysSocket AF_LOCAL type] @ [SysConnect ?s a]"
        "quiet_world w (do_call (SysConnect ?s a) ?w1)" by (simp_all add: quiet_world_def)
      from r failed_closed [OF w2(1) _ w2(2) refl] kept [OF w2(1) _ w2(2) refl] False show ?thesis
        by (simp add: socket_local_client_def call_eq split: if_splits)
    qed
  qed
qed

interpretation local_server: socket_opener AF_LOCAL type "socket_local_server name ns type" for name ns type
proof
  fix w :: world
  let ?s = "ret_of (w_kern w (w_log w) (SysSocket AF_LOCAL type))"
  let ?w1 = "do_call (SysSocket AF_LOCAL type) w"
  have w1: "w_log ?w1 = w_log w @ [SysSocket AF_LOCAL type] @ []" "quiet_world w ?w1" by (simp_all add: quiet_world_def)
  show "\<exists>q. socket_local_server name ns type w = Inr q \<and> kept_or_closed AF_LOCAL type w q"
  proof (cases "?s < 0")
    case True
    with no_socket show ?thesis by (simp add: socket_local_server_def call_eq)
  next
    case False
    show ?thesis
    proof (rule bind_result [of ?s name ns ?w1])
      assume "socket_local_server_bind ?s name ns ?w1 = Inr (-1, ?w1)"
      with failed_closed [OF w1(1) _ w1(2) refl] False show ?thesis by (simp add: socket_local_server_def call_eq)
    next
      fix fil a and r :: int
      let ?w2 = "do_call (SysBind ?s a) (do_call (SysSetsockopt ?s SO_REUSEADDR) (do_call (SysUnlink fil) ?w1))"
      assume b: "socket_local_server_bind ?s name ns ?w1 = Inr (if r < 0 then -1 else ?s, ?w2)"
      have w2: "w_log ?w2 = w_log w @ [SysSocket AF_LOCAL type] @ [SysUnlink fil, SysSetsockopt ?s SO_REUSEADDR, SysBind ?s a]"
        "quiet_world w ?w2" by (simp_all add: quiet_world_def)
      have "socket_local_server name ns type w = Inr (if r < 0 then (-1, do_call (SysClose ?s) ?w2) else start_listening ?s type ?w2)"
        using b False by (simp add: socket_local_server_def call_eq)
      moreover have "kept_or_closed AF_LOCAL type w (-1, do_call (SysClose ?s) ?w2)"
        by (rule failed_closed [OF w2(1) _ w2(2) refl False]) simp
      moreover have "kept_or_closed AF_LOCAL type w (start_listening ?s type ?w2)"
        by (rule start_listening_kept [OF w2(1) _ w2(2) refl False]) simp
      ultimately show ?thesis by auto
    qed
  qed
qed

end
