(* ===== verification/FileSync.thy ===== *)
theory FileSync
  imports Endpoints
begin

text \<open>
  The file transfer service of \<open>file_sync_service.c\<close>: requests STAT, LIST, SEND and RECV on a stream,
  over the file system calls of the kernel. The functions return what the C functions return, with
  the transfer buffer and the world after the call. The buffer keeps its contents between requests,
  as the one \<open>malloc\<close>ed block of the source does. \<open>strerror\<close> of libc is an argument. The answer of the
  kernel to \<open>open\<close> is that of the last attempt (the wrappers repeat the call on EINTR).
\<close>

unbundle bit_operations_syntax

section \<open>Messages\<close>

definition mkid :: "char \<Rightarrow> char \<Rightarrow> char \<Rightarrow> char \<Rightarrow> u32" where
  "mkid a b c d = of_le32 (bytes_of [a, b, c, d])"

definition ID_STAT :: u32 where "ID_STAT = mkid CHR ''S'' CHR ''T'' CHR ''A'' CHR ''T''"
definition ID_LIST :: u32 where "ID_LIST = mkid CHR ''L'' CHR ''I'' CHR ''S'' CHR ''T''"
definition ID_SEND :: u32 where "ID_SEND = mkid CHR ''S'' CHR ''E'' CHR ''N'' CHR ''D''"
definition ID_RECV :: u32 where "ID_RECV = mkid CHR ''R'' CHR ''E'' CHR ''C'' CHR ''V''"
definition ID_DENT :: u32 where "ID_DENT = mkid CHR ''D'' CHR ''E'' CHR ''N'' CHR ''T''"
definition ID_DONE :: u32 where "ID_DONE = mkid CHR ''D'' CHR ''O'' CHR ''N'' CHR ''E''"
definition ID_DATA :: u32 where "ID_DATA = mkid CHR ''D'' CHR ''A'' CHR ''T'' CHR ''A''"
definition ID_OKAY :: u32 where "ID_OKAY = mkid CHR ''O'' CHR ''K'' CHR ''A'' CHR ''Y''"
definition ID_FAIL :: u32 where "ID_FAIL = mkid CHR ''F'' CHR ''A'' CHR ''I'' CHR ''L''"
definition ID_QUIT :: u32 where "ID_QUIT = mkid CHR ''Q'' CHR ''U'' CHR ''I'' CHR ''T''"

definition SYNC_DATA_MAX :: nat where "SYNC_DATA_MAX = 64 * 1024"

text \<open>The members of the union \<open>syncmsg\<close>, as they are in memory.\<close>

definition data_msg :: "u32 \<Rightarrow> u32 \<Rightarrow> bytes" where
  "data_msg mid n = le32 mid @ le32 n"

definition stat_msg :: "u32 \<Rightarrow> u32 \<Rightarrow> u32 \<Rightarrow> bytes" where
  "stat_msg mode n time = le32 ID_STAT @ le32 mode @ le32 n @ le32 time"

definition dent_msg :: "u32 \<Rightarrow> u32 \<Rightarrow> u32 \<Rightarrow> u32 \<Rightarrow> u32 \<Rightarrow> bytes" where
  "dent_msg mid mode n time namelen = le32 mid @ le32 mode @ le32 n @ le32 time @ le32 namelen"

text \<open>\<open>readx(s,&msg.data,sizeof(msg.data))\<close>: the two fields.\<close>

definition read_msg :: "int \<Rightarrow> world \<Rightarrow> ((u32 \<times> u32) option \<times> world) outcome" where
  "read_msg s w = andthen (readx s 8 w) (\<lambda>(r, w1).
     Inr (map_option (\<lambda>bs. (of_le32 bs, of_le32 (drop 4 bs))) r, w1))"

text \<open>\<open>readx(s,buffer,len)\<close> into a buffer: out of bounds when it is too small.\<close>

definition read_buf :: "int \<Rightarrow> nat \<Rightarrow> bytes \<Rightarrow> world \<Rightarrow> (bytes option \<times> world) outcome" where
  "read_buf s len buf w = (if len > length buf then Inl OutOfBounds
     else andthen (readx s len w) (\<lambda>(r, w1). Inr (map_option (\<lambda>bs. bs @ drop len buf) r, w1)))"

section \<open>Calls to the file system\<close>

definition O_RDONLY :: nat where "O_RDONLY = 0"
definition O_WRONLY :: nat where "O_WRONLY = 1"
definition O_CREAT :: nat where "O_CREAT = 64"
definition O_EXCL :: nat where "O_EXCL = 128"

definition adb_open_mode :: "string \<Rightarrow> nat \<Rightarrow> u32 \<Rightarrow> world \<Rightarrow> int \<times> world" where
  "adb_open_mode path flags mode w = (let (a, w1) = sys_call (SysOpen path flags (unat mode)) w in (ret_of a, w1))"

definition adb_open :: "string \<Rightarrow> nat \<Rightarrow> world \<Rightarrow> int \<times> world" where
  "adb_open path flags w = (let (a, w1) = sys_call (SysOpen path flags 0) w
     in (if ret_of a < 0 then -1 else ret_of a, w1))"

definition adb_mkdir :: "string \<Rightarrow> nat \<Rightarrow> world \<Rightarrow> int \<times> world" where
  "adb_mkdir path mode w = (let (a, w1) = sys_call (SysMkdir path mode) w in (ret_of a, w1))"

text \<open>\<open>mkdirs\<close>: \<open>pre\<close> is the name up to \<open>x\<close>, \<open>rest\<close> the name from there.\<close>

function mkdirs_loop :: "string \<Rightarrow> string \<Rightarrow> world \<Rightarrow> int \<times> world" where
  "mkdirs_loop pre rest w = (case strchr rest (CHR ''/'') of
       None \<Rightarrow> (0, w)
     | Some x \<Rightarrow>
         let name = pre @ before_chr rest (CHR ''/''); (ret, w1) = adb_mkdir name 493 w in
         if ret < 0 \<and> w_errno w1 \<noteq> EEXIST then (ret, w1) else mkdirs_loop (name @ ''/'') (tl x) w1)"
  by pat_completeness auto
termination
proof (relation "measure (\<lambda>(pre, rest, w). length rest)")
  fix rest x and pre :: string and w :: world
  assume "strchr rest (CHR ''/'') = Some x"
  then have "rest = before_chr rest (CHR ''/'') @ x" "\<exists>r. x = CHR ''/'' # r" by (auto simp: strchr_Some_iff)
  then have "length x \<le> length rest" "x \<noteq> []" by (metis length_append le_add2, auto)
  then have "length (tl x) < length rest" by (cases x) auto
  then show "((name @ ''/'', tl x, w1), (pre, rest, w)) \<in> measure (\<lambda>(pre, rest, w). length rest)" for name w1 by simp
qed simp

declare mkdirs_loop.simps [simp del]

definition mkdirs :: "string \<Rightarrow> world \<Rightarrow> int \<times> world" where
  "mkdirs name w = (case name of c # rest \<Rightarrow> if c \<noteq> CHR ''/'' then (-1, w) else mkdirs_loop ''/'' rest w | [] \<Rightarrow> (-1, w))"

section \<open>STAT and LIST\<close>

definition do_stat :: "int \<Rightarrow> string \<Rightarrow> world \<Rightarrow> (int \<times> world) outcome" where
  "do_stat s path w =
    (let (a, w1) = sys_call (SysLstat path) w;
         msg = (case a of SStat mode n time \<Rightarrow> stat_msg (word_of_int mode) (word_of_int n) (word_of_int time)
                | _ \<Rightarrow> stat_msg 0 0 0)
     in andthen (writex s msg w1) (\<lambda>(ok, w2). Inr (if ok then 0 else -1, w2)))"

text \<open>The loop over the directory: the names \<open>readdir\<close> gives. \<open>tmp\<close> has room for 1281 bytes.\<close>

definition tmp_size :: nat where "tmp_size = 1024 + 256 + 1"

fun list_names :: "int \<Rightarrow> string \<Rightarrow> string list \<Rightarrow> world \<Rightarrow> (bool \<times> world) outcome" where
  "list_names s path [] w = Inr (True, w)"
| "list_names s path (d # ds) w =
    (let len = length d in
     if len > 256 then list_names s path ds w
     else if length path + 1 + len + 1 > tmp_size then Inl OutOfBounds
     else
       let (a, w1) = sys_call (SysLstat (path @ ''/'' @ d)) w in
       case a of
         SStat mode n time \<Rightarrow>
           andthen (writex s (dent_msg ID_DENT (word_of_int mode) (word_of_int n) (word_of_int time) (word_of_nat len)) w1) (\<lambda>(ok, w2).
             if \<not> ok then Inr (False, w2)
             else andthen (writex s (bytes_of d) w2) (\<lambda>(ok2, w3).
               if \<not> ok2 then Inr (False, w3) else list_names s path ds w3))
       | _ \<Rightarrow> list_names s path ds w1)"

definition do_list :: "int \<Rightarrow> string \<Rightarrow> world \<Rightarrow> (int \<times> world) outcome" where
  "do_list s path w =
    (if length path + 1 > tmp_size then Inl OutOfBounds
     else
       let (a, w1) = sys_call (SysOpendir path) w in
       andthen (case a of SNames ds \<Rightarrow> list_names s path ds w1 | _ \<Rightarrow> Inr (True, w1)) (\<lambda>(go, w2).
         if \<not> go then Inr (-1, w2)
         else andthen (writex s (dent_msg ID_DONE 0 0 0 0) w2) (\<lambda>(ok, w3). Inr (if ok then 0 else -1, w3))))"

section \<open>Failures\<close>

definition fail_message :: "int \<Rightarrow> string \<Rightarrow> world \<Rightarrow> (int \<times> world) outcome" where
  "fail_message s reason w = andthen (writex s (data_msg ID_FAIL (word_of_nat (length reason))) w) (\<lambda>(ok, w1).
     if \<not> ok then Inr (-1, w1)
     else andthen (writex s (bytes_of reason) w1) (\<lambda>(ok2, w2). Inr (if ok2 then 0 else -1, w2)))"

definition fail_errno :: "(errno \<Rightarrow> string) \<Rightarrow> int \<Rightarrow> world \<Rightarrow> (int \<times> world) outcome" where
  "fail_errno strerror s w = fail_message s (strerror (w_errno w)) w"

text \<open>None of these read anything.\<close>

lemma writex_left: "writex fd bs w = Inr (r, w') \<Longrightarrow> rd_left s w' = rd_left s w"
  by (drule writex_wr_only) (simp add: wr_only_def rd_left_def)

lemma sys_call_left [simp]: "rd_left s (snd (sys_call c w)) = rd_left s w"
  by (simp add: sys_call_def Let_def rd_left_def)

lemma sys_call_left': "sys_call c w = (a, w') \<Longrightarrow> rd_left s w' = rd_left s w"
  by (metis snd_conv sys_call_left)

lemma do_call_left [simp]: "rd_left s (do_call c w) = rd_left s w"
  by (simp add: do_call_def)

lemma fail_message_left: "fail_message s r w = Inr (x, w') \<Longrightarrow> rd_left s' w' = rd_left s' w"
  by (auto simp: fail_message_def andthen_Inr_iff dest!: writex_left [where s = s'] split: if_splits)

lemma fail_errno_left: "fail_errno e s w = Inr (x, w') \<Longrightarrow> rd_left s' w' = rd_left s' w"
  unfolding fail_errno_def by (rule fail_message_left)

lemma read_msg_left: "read_msg s w = Inr (r, w') \<Longrightarrow> rd_left s w' < rd_left s w"
  using readx_left [of s 8 w] by (auto simp: read_msg_def andthen_Inr_iff)

lemma read_buf_left: "read_buf s n buf w = Inr (r, w') \<Longrightarrow> rd_left s w' \<le> rd_left s w"
  using readx_left [of s n w] by (auto simp: read_buf_def andthen_Inr_iff split: if_splits)

section \<open>SEND\<close>

text \<open>The loop of \<open>handle_send_file\<close>. It ends with the time stamp of a DONE message and the descriptor it
  is left with (\<open>SendDone\<close>), at the label \<open>fail\<close> (\<open>SendFail\<close>), or with a return of -1 (\<open>SendLost\<close>).\<close>

datatype send_end = SendDone u32 int | SendFail int | SendLost

function send_loop :: "(errno \<Rightarrow> string) \<Rightarrow> int \<Rightarrow> string \<Rightarrow> int \<Rightarrow> bytes \<Rightarrow> world \<Rightarrow> (send_end \<times> bytes \<times> world) outcome" where
  "send_loop strerror s path fd buf w = andthen (read_msg s w) (\<lambda>(m, w1). case m of
       None \<Rightarrow> Inr (SendFail fd, buf, w1)
     | Some (mid, n) \<Rightarrow>
         if mid \<noteq> ID_DATA then
           if mid = ID_DONE then Inr (SendDone n fd, buf, w1)
           else andthen (fail_message s ''invalid data message'' w1) (\<lambda>(_, w2). Inr (SendFail fd, buf, w2))
         else if n > word_of_nat SYNC_DATA_MAX then
           andthen (fail_message s ''oversize data message'' w1) (\<lambda>(_, w2). Inr (SendFail fd, buf, w2))
         else andthen (read_buf s (unat n) buf w1) (\<lambda>(b, w2). case b of
             None \<Rightarrow> Inr (SendFail fd, buf, w2)
           | Some buf1 \<Rightarrow>
               if fd < 0 then send_loop strerror s path fd buf1 w2
               else andthen (writex fd (take (unat n) buf1) w2) (\<lambda>(ok, w3).
                 if ok then send_loop strerror s path fd buf1 w3
                 else
                   let saved_errno = w_errno w3;
                       w4 = (do_call (SysUnlink path) (do_call (SysClose fd) w3))\<lparr>w_errno := saved_errno\<rparr>
                   in andthen (fail_errno strerror s w4) (\<lambda>(r, w5).
                      if r \<noteq> 0 then Inr (SendLost, buf1, w5) else send_loop strerror s path (-1) buf1 w5))))"
  by pat_completeness auto
termination
proof (relation "measure (\<lambda>(strerror, s, path, fd, buf, w). rd_left s w)", goal_cases)
  case 1
  show ?case by simp
next
  case (2 strerror s path fd buf w x m w1 p mid n q b w2 buf1)
  then show ?case using read_msg_left [of s w m w1] read_buf_left [of s "unat n" buf w1 b w2] by simp
next
  case (3 strerror s path fd buf w x m w1 p mid n q b w2 buf1 u ok w3)
  then show ?case
    using read_msg_left [of s w m w1] read_buf_left [of s "unat n" buf w1 b w2] writex_left [of fd _ w2 ok w3 s] by simp
next
  case (4 strerror s path fd buf w x m w1 p mid n q b w2 buf1 u ok w3 saved w4 v r w5)
  have "rd_left s w4 = rd_left s w3" using 4 by (simp add: rd_left_def do_call_def sys_call_def Let_def)
  then show ?case using 4
    using read_msg_left [of s w m w1] read_buf_left [of s "unat n" buf w1 b w2] writex_left [of fd _ w2 ok w3 s]
      fail_errno_left [of strerror s w4 r w5 s] by simp
qed

declare send_loop.simps [simp del]

text \<open>The first part of \<open>handle_send_file\<close>: the descriptor to write to, or -1.\<close>

definition open_for_send :: "string \<Rightarrow> u32 \<Rightarrow> world \<Rightarrow> int \<times> world" where
  "open_for_send path mode w =
    (let (fd1, w1) = adb_open_mode path (O_WRONLY + O_CREAT + O_EXCL) mode w;
         (fd2, w2) = (if fd1 < 0 \<and> w_errno w1 = ENOENT
                      then adb_open_mode path (O_WRONLY + O_CREAT + O_EXCL) mode (snd (mkdirs path w1)) else (fd1, w1))
     in if fd2 < 0 \<and> w_errno w2 = EEXIST then adb_open_mode path O_WRONLY mode w2 else (fd2, w2))"

definition handle_send_file ::
  "(errno \<Rightarrow> string) \<Rightarrow> int \<Rightarrow> string \<Rightarrow> u32 \<Rightarrow> bytes \<Rightarrow> world \<Rightarrow> (int \<times> bytes \<times> world) outcome" where
  "handle_send_file strerror s path mode buf w =
    (let (fd, w1) = open_for_send path mode w in
     andthen (if fd < 0 then fail_errno strerror s w1 else Inr (0, w1)) (\<lambda>(r, w2).
       if r \<noteq> 0 then Inr (-1, buf, w2)
       else andthen (send_loop strerror s path (if fd < 0 then -1 else fd) buf w2) (\<lambda>(e, buf1, w3). case e of
           SendLost \<Rightarrow> Inr (-1, buf1, w3)
         | SendFail fd1 \<Rightarrow>
             Inr (-1, buf1, do_call (SysUnlink path) (if fd1 \<ge> 0 then do_call (SysClose fd1) w3 else w3))
         | SendDone timestamp fd1 \<Rightarrow>
             if fd1 \<ge> 0 then
               andthen (writex s (data_msg ID_OKAY 0) (do_call (SysUtime path timestamp) (do_call (SysClose fd1) w3)))
                 (\<lambda>(ok, w4). Inr (if ok then 0 else -1, buf1, w4))
             else Inr (0, buf1, w3))))"

definition symlink :: "string \<Rightarrow> string \<Rightarrow> world \<Rightarrow> int \<times> world" where
  "symlink target path w = (let (a, w1) = sys_call (SysSymlink target path) w in (ret_of a, w1))"

text \<open>The target of the link is the C string the buffer holds, whatever it was filled with before.\<close>

definition handle_send_link ::
  "(errno \<Rightarrow> string) \<Rightarrow> int \<Rightarrow> string \<Rightarrow> bytes \<Rightarrow> world \<Rightarrow> (int \<times> bytes \<times> world) outcome" where
  "handle_send_link strerror s path buf w = andthen (read_msg s w) (\<lambda>(m, w1). case m of
       None \<Rightarrow> Inr (-1, buf, w1)
     | Some (mid, n) \<Rightarrow>
         if mid \<noteq> ID_DATA then
           andthen (fail_message s ''invalid data message: expected ID_DATA'' w1) (\<lambda>(_, w2). Inr (-1, buf, w2))
         else if n > word_of_nat SYNC_DATA_MAX then
           andthen (fail_message s ''oversize data message'' w1) (\<lambda>(_, w2). Inr (-1, buf, w2))
         else andthen (read_buf s (unat n) buf w1) (\<lambda>(b, w2). case b of
             None \<Rightarrow> Inr (-1, buf, w2)
           | Some buf1 \<Rightarrow> andthen (cstr buf1) (\<lambda>target.
               let (ret1, w3) = symlink target path w2;
                   (ret, w4) = (if ret1 \<noteq> 0 \<and> w_errno w3 = ENOENT then symlink target path (snd (mkdirs path w3)) else (ret1, w3))
               in if ret \<noteq> 0 then andthen (fail_errno strerror s w4) (\<lambda>(_, w5). Inr (-1, buf1, w5))
                  else andthen (read_msg s w4) (\<lambda>(m2, w5). case m2 of
                      None \<Rightarrow> Inr (-1, buf1, w5)
                    | Some (mid2, _) \<Rightarrow>
                        if mid2 = ID_DONE then
                          andthen (writex s (data_msg ID_OKAY 0) w5) (\<lambda>(ok, w6). Inr (if ok then 0 else -1, buf1, w6))
                        else
                          andthen (fail_message s ''invalid data message: expected ID_DONE'' w5) (\<lambda>(_, w6). Inr (-1, buf1, w6))))))"

text \<open>The request of \<open>do_send\<close>: the path, the mode and whether it is a link. The octal constants of the
  source are 0644 = 420, 0777 = 511, 070 = 56, and the type bits 0170000 = 0xF000, 0120000 = 0xA000.\<close>

definition send_request :: "string \<Rightarrow> string \<times> u32 \<times> bool" where
  "send_request name =
    (if CHR '','' \<notin> set name then (name, 420, False)
     else
       let r = rev name;
           path = rev (tl (dropWhile (\<lambda>c. c \<noteq> CHR '','') r));
           (v, range) = strtoul (rev (takeWhile (\<lambda>c. c \<noteq> CHR '','') r));
           mode = word_of_nat v :: u32
       in if range then (path, 420, False) else (path, mode AND 511, mode AND 0xF000 = 0xA000))"

definition spread_mode :: "u32 \<Rightarrow> u32" where
  "spread_mode mode = (let m1 = mode OR (drop_bit 3 mode AND 56) in m1 OR (drop_bit 3 m1 AND 7))"

definition do_send :: "(errno \<Rightarrow> string) \<Rightarrow> int \<Rightarrow> string \<Rightarrow> bytes \<Rightarrow> world \<Rightarrow> (int \<times> bytes \<times> world) outcome" where
  "do_send strerror s name buf w =
    (let (path, mode, is_link) = send_request name;
         w1 = do_call (SysUnlink path) w
     in if is_link then handle_send_link strerror s path buf w1
        else handle_send_file strerror s path (spread_mode mode) buf w1)"

section \<open>RECV\<close>

function recv_loop :: "(errno \<Rightarrow> string) \<Rightarrow> int \<Rightarrow> int \<Rightarrow> bytes \<Rightarrow> world \<Rightarrow> (int \<times> bytes \<times> world) outcome" where
  "recv_loop strerror s fd buf w = andthen (adb_read fd SYNC_DATA_MAX w) (\<lambda>(r, w1). case r of
       Inr bs \<Rightarrow>
         if bs = [] then
           andthen (writex s (data_msg ID_DONE 0) (do_call (SysClose fd) w1)) (\<lambda>(ok, w2). Inr (if ok then 0 else -1, buf, w2))
         else if length bs > length buf then Inl OutOfBounds
         else
           let buf1 = bs @ drop (length bs) buf in
           andthen (writex s (data_msg ID_DATA (word_of_nat (length bs))) w1) (\<lambda>(ok, w2).
             if \<not> ok then Inr (-1, buf1, do_call (SysClose fd) w2)
             else andthen (writex s bs w2) (\<lambda>(ok2, w3).
               if \<not> ok2 then Inr (-1, buf1, do_call (SysClose fd) w3) else recv_loop strerror s fd buf1 w3))
     | Inl e \<Rightarrow>
         if e = EINTR then recv_loop strerror s fd buf w1
         else andthen (fail_errno strerror s w1) (\<lambda>(q, w2). Inr (q, buf, do_call (SysClose fd) w2)))"
  by pat_completeness auto
termination
proof (relation "measure (\<lambda>(strerror, s, fd, buf, w). rd_left fd w)", goal_cases)
  case 1
  show ?case by simp
next
  case (2 strerror s fd buf w x r w1 e)
  then show ?case using adb_read_left [of fd SYNC_DATA_MAX w r w1] by (simp add: SYNC_DATA_MAX_def)
next
  case (3 strerror s fd buf w x r w1 bs buf1 y ok w2 z ok2 w3)
  then show ?case using adb_read_left [of fd SYNC_DATA_MAX w r w1] writex_left [of s _ w1 ok w2 fd] writex_left [of s _ w2 ok2 w3 fd]
    by (simp add: SYNC_DATA_MAX_def)
qed

declare recv_loop.simps [simp del]

definition do_recv :: "(errno \<Rightarrow> string) \<Rightarrow> int \<Rightarrow> string \<Rightarrow> bytes \<Rightarrow> world \<Rightarrow> (int \<times> bytes \<times> world) outcome" where
  "do_recv strerror s path buf w =
    (let (fd, w1) = adb_open path O_RDONLY w in
     if fd < 0 then andthen (fail_errno strerror s w1) (\<lambda>(r, w2). Inr (if r \<noteq> 0 then -1 else 0, buf, w2))
     else recv_loop strerror s fd buf w1)"

section \<open>The service\<close>

text \<open>One request: \<open>Inr\<close> continues with the buffer, \<open>Inl\<close> leaves the loop.\<close>

definition sync_request ::
  "(errno \<Rightarrow> string) \<Rightarrow> int \<Rightarrow> bytes \<Rightarrow> world \<Rightarrow> ((unit + bytes) \<times> world) outcome" where
  "sync_request strerror fd buf w =
    (let stop = (\<lambda>reason w1. andthen (fail_message fd reason w1) (\<lambda>(_, w2). Inr (Inl (), w2)));
         go = (\<lambda>m. andthen m (\<lambda>(r, buf1, w1). Inr (if r = (0 :: int) then Inr buf1 else Inl (), w1)))
     in andthen (read_msg fd w) (\<lambda>(m, w1). case m of
          None \<Rightarrow> stop ''command read failure'' w1
        | Some (mid, namelen) \<Rightarrow>
            if namelen > 1024 then stop ''invalid namelen'' w1
            else andthen (readx fd (unat namelen) w1) (\<lambda>(nm, w2). case nm of
                None \<Rightarrow> stop ''filename read failure'' w2
              | Some bs \<Rightarrow> andthen (cstr (bs @ [0])) (\<lambda>name.
                  if mid = ID_STAT then go (andthen (do_stat fd name w2) (\<lambda>(r, w3). Inr (r, buf, w3)))
                  else if mid = ID_LIST then go (andthen (do_list fd name w2) (\<lambda>(r, w3). Inr (r, buf, w3)))
                  else if mid = ID_SEND then go (do_send strerror fd name buf w2)
                  else if mid = ID_RECV then go (do_recv strerror fd name buf w2)
                  else if mid = ID_QUIT then Inr (Inl (), w2)
                  else stop ''unknown command'' w2))))"

text \<open>Reading only ever uses up answers: no operation makes more of them appear. \<open>calm m w\<close> says so
  of a call that is made in the world \<open>w\<close>, \<open>calm3\<close> of one that also returns the buffer.\<close>

definition reads_on :: "world \<Rightarrow> world \<Rightarrow> bool" where
  "reads_on w w' \<longleftrightarrow> (\<forall>s. rd_left s w' \<le> rd_left s w)"

definition calm :: "('r \<times> world) outcome \<Rightarrow> world \<Rightarrow> bool" where
  "calm m w \<longleftrightarrow> safely m (\<lambda>(r, w'). reads_on w w')"

definition calm3 :: "('r \<times> 'b \<times> world) outcome \<Rightarrow> world \<Rightarrow> bool" where
  "calm3 m w \<longleftrightarrow> safely m (\<lambda>(r, b, w'). reads_on w w')"

lemma reads_on_refl [simp]: "reads_on w w"
  by (simp add: reads_on_def)

lemma reads_on_trans: "reads_on w w1 \<Longrightarrow> reads_on w1 w2 \<Longrightarrow> reads_on w w2"
  unfolding reads_on_def using order_trans by blast

lemma calm_simps [simp]:
  "calm (Inr (r, w')) w \<longleftrightarrow> reads_on w w'" "calm (Inl e) w"
  "calm3 (Inr (r, b, w')) w \<longleftrightarrow> reads_on w w'" "calm3 (Inl e) w"
  by (simp_all add: calm_def calm3_def)

lemma same_left: "w_rd v = w_rd w \<Longrightarrow> rd_left s v = rd_left s w"
  by (simp add: rd_left_def)

lemma calm_same: "w_rd v = w_rd w \<Longrightarrow> calm m v = calm m w" "w_rd v = w_rd w \<Longrightarrow> calm3 n v = calm3 n w"
  by (simp_all add: calm_def calm3_def reads_on_def same_left [of v w])

lemma reads_on_same: "w_rd v = w_rd w \<Longrightarrow> reads_on u v = reads_on u w"
  by (simp add: reads_on_def same_left [of v w])

lemma calm_andthen:
  "calm m w \<Longrightarrow> (\<And>x w1. m = Inr (x, w1) \<Longrightarrow> calm (f (x, w1)) w1) \<Longrightarrow> calm (andthen m f) w"
  "calm m w \<Longrightarrow> (\<And>x w1. m = Inr (x, w1) \<Longrightarrow> calm3 (g (x, w1)) w1) \<Longrightarrow> calm3 (andthen m g) w"
  "calm3 n w \<Longrightarrow> (\<And>x b w1. n = Inr (x, b, w1) \<Longrightarrow> calm3 (h (x, b, w1)) w1) \<Longrightarrow> calm3 (andthen n h) w"
  by (fastforce simp: calm_def calm3_def safely_def andthen_Inr_iff intro: reads_on_trans)+

lemma calm_value:
  "(\<And>x. calm (f x) w) \<Longrightarrow> calm (andthen m f) w" "(\<And>x. calm3 (g x) w) \<Longrightarrow> calm3 (andthen m g) w"
  by (auto simp: calm_def calm3_def intro: safely_andthen_any)

lemma rd_only_reads: "rd_only fd w w' \<Longrightarrow> rd_left fd w' \<le> rd_left fd w \<Longrightarrow> reads_on w w'"
  unfolding reads_on_def using rd_only_left by (metis order_refl)

lemma writex_calm: "calm (writex fd bs w) w"
  by (auto simp: calm_def safely_def reads_on_def wr_only_def rd_left_def dest!: writex_wr_only)

lemma readx_calm: "calm (readx s n w) w"
  using readx_left [of s n w] readx_rd_only [of s n w] rd_only_reads by (fastforce simp: calm_def safely_def)

lemma read_msg_calm: "calm (read_msg s w) w"
  unfolding read_msg_def by (rule calm_andthen(1) [OF readx_calm]) simp

lemma read_buf_calm: "calm (read_buf s n buf w) w"
proof -
  have "calm (andthen (readx s n w) (\<lambda>(r, w1). Inr (map_option (\<lambda>bs. bs @ drop n buf) r, w1))) w"
    by (rule calm_andthen(1) [OF readx_calm]) simp
  then show ?thesis by (simp add: read_buf_def)
qed

lemma adb_read_calm: "0 < n \<Longrightarrow> calm (adb_read fd n w) w"
  using adb_read_left [of fd n w] adb_read_rd_only [of fd n w] rd_only_reads by (fastforce simp: calm_def safely_def)

lemma sys_call_rd [simp]: "w_rd (snd (sys_call c w)) = w_rd w"
  by (simp add: sys_call_def Let_def)

lemma do_call_rd [simp]: "w_rd (do_call c w) = w_rd w"
  by (simp add: do_call_def)

lemma mkdirs_loop_rd: "w_rd (snd (mkdirs_loop pre rest w)) = w_rd w"
proof (induction pre rest w rule: mkdirs_loop.induct)
  case (1 pre rest w)
  show ?case
  proof (cases "strchr rest (CHR ''/'')")
    case None
    then show ?thesis by (subst mkdirs_loop.simps) simp
  next
    case (Some x)
    obtain ret w1 where r: "adb_mkdir (pre @ before_chr rest (CHR ''/'')) 493 w = (ret, w1)" by force
    then have "w_rd w1 = w_rd w" by (auto simp: adb_mkdir_def sys_call_def Let_def)
    with 1 [OF Some refl refl r [symmetric]] Some r show ?thesis by (subst mkdirs_loop.simps) auto
  qed
qed

lemma mkdirs_rd [simp]: "w_rd (snd (mkdirs name w)) = w_rd w"
  by (simp add: mkdirs_def mkdirs_loop_rd split: list.split)

lemma open_for_send_rd [simp]: "w_rd (snd (open_for_send path mode w)) = w_rd w"
  by (simp add: open_for_send_def adb_open_mode_def sys_call_def Let_def)

lemma fail_message_calm: "calm (fail_message s r w) w"
  unfolding fail_message_def by (rule calm_andthen(1) [OF writex_calm]) (simp add: calm_andthen(1) [OF writex_calm])

lemma fail_errno_calm: "calm (fail_errno e s w) w"
  unfolding fail_errno_def by (rule fail_message_calm)

lemma do_stat_calm: "calm (do_stat s path w) w"
proof -
  have "calm (andthen (writex s msg w1) (\<lambda>(ok, w2). Inr (if ok then 0 else -1 :: int, w2))) w1" for msg w1
    by (rule calm_andthen(1) [OF writex_calm]) simp
  from this [of _ "snd (sys_call (SysLstat path) w)"] show ?thesis
    by (simp add: do_stat_def split_beta Let_def calm_same(1) [OF sys_call_rd])
qed

lemma list_names_calm: "calm (list_names s path ds w) w"
proof (induction ds arbitrary: w)
  case (Cons d ds)
  obtain a w1 where c: "sys_call (SysLstat (path @ ''/'' @ d)) w = (a, w1)" by force
  then have w1: "w_rd w1 = w_rd w" using sys_call_rd by (metis snd_conv)
  have "calm (andthen (writex s msg w1) (\<lambda>(ok, w2). if \<not> ok then Inr (False, w2)
      else andthen (writex s (bytes_of d) w2) (\<lambda>(ok2, w3). if \<not> ok2 then Inr (False, w3) else list_names s path ds w3))) w1" for msg
    by (rule calm_andthen(1) [OF writex_calm]) (simp add: calm_andthen(1) [OF writex_calm] Cons.IH)
  moreover have "calm (list_names s path ds w1) w1" "calm (list_names s path ds w) w" by (rule Cons.IH)+
  ultimately show ?case unfolding list_names.simps Let_def c
    by (auto simp: calm_same(1) [OF w1] split: sysans.split)
qed simp

lemma do_list_calm: "calm (do_list s path w) w"
proof -
  obtain a w1 where c: "sys_call (SysOpendir path) w = (a, w1)" by force
  then have w1: "w_rd w1 = w_rd w" using sys_call_rd by (metis snd_conv)
  have "calm (case a of SNames ds \<Rightarrow> list_names s path ds w1 | _ \<Rightarrow> Inr (True, w1)) w1"
    using list_names_calm by (simp split: sysans.split)
  then have "calm (andthen (case a of SNames ds \<Rightarrow> list_names s path ds w1 | _ \<Rightarrow> Inr (True, w1)) (\<lambda>(go, w2).
      if \<not> go then Inr (-1, w2)
      else andthen (writex s (dent_msg ID_DONE 0 0 0 0) w2) (\<lambda>(ok, w3). Inr (if ok then 0 else -1 :: int, w3)))) w1"
    by (rule calm_andthen(1)) (simp add: calm_andthen(1) [OF writex_calm])
  then show ?thesis by (simp add: do_list_def c calm_same(1) [OF w1])
qed

lemma send_loop_calm: "calm3 (send_loop strerror s path fd buf w) w"
proof (induction "rd_left s w" arbitrary: fd buf w rule: less_induct)
  case less
  have fail: "calm3 (andthen (fail_message s r w1) (\<lambda>(_, w2). Inr (SendFail fd, buf, w2))) w1" for r w1
    by (rule calm_andthen(2) [OF fail_message_calm]) simp
  have data: "calm3 (if fd < 0 then send_loop strerror s path fd buf1 w2
      else andthen (writex fd bs w2) (\<lambda>(ok, w3).
        if ok then send_loop strerror s path fd buf1 w3
        else let saved_errno = w_errno w3; w4 = (do_call (SysUnlink path) (do_call (SysClose fd) w3))\<lparr>w_errno := saved_errno\<rparr>
          in andthen (fail_errno strerror s w4) (\<lambda>(r, w5).
            if r \<noteq> 0 then Inr (SendLost, buf1, w5) else send_loop strerror s path (-1) buf1 w5))) w2"
    if w2: "rd_left s w2 < rd_left s w" for bs buf1 w2
  proof -
    have lost: "calm3 (andthen (fail_errno strerror s w4) (\<lambda>(r, w5).
        if r \<noteq> 0 then Inr (SendLost, buf1, w5) else send_loop strerror s path (-1) buf1 w5)) w3"
      if "w_rd w4 = w_rd w3" "rd_left s w3 = rd_left s w2" for w3 w4
    proof -
      have "calm3 (andthen (fail_errno strerror s w4) (\<lambda>(r, w5).
          if r \<noteq> 0 then Inr (SendLost, buf1, w5) else send_loop strerror s path (-1) buf1 w5)) w4"
        using w2 that same_left [OF that(1), of s]
        by (intro calm_andthen(2) [OF fail_errno_calm]) (auto dest!: fail_errno_left [of _ _ _ _ _ s] intro!: less)
      then show ?thesis by (simp add: calm_same(2) [OF that(1)])
    qed
    have "calm3 (andthen (writex fd bs w2) (\<lambda>(ok, w3).
        if ok then send_loop strerror s path fd buf1 w3
        else let saved_errno = w_errno w3; w4 = (do_call (SysUnlink path) (do_call (SysClose fd) w3))\<lparr>w_errno := saved_errno\<rparr>
          in andthen (fail_errno strerror s w4) (\<lambda>(r, w5).
            if r \<noteq> 0 then Inr (SendLost, buf1, w5) else send_loop strerror s path (-1) buf1 w5))) w2"
      using w2 by (intro calm_andthen(2) [OF writex_calm])
        (auto simp: Let_def dest!: writex_left [of _ _ _ _ _ s] intro!: less lost)
    with less w2 show ?thesis by simp
  qed
  have msg: "calm3 (andthen (read_buf s n buf w1) (\<lambda>(b, w2). case b of
       None \<Rightarrow> Inr (SendFail fd, buf, w2)
     | Some buf1 \<Rightarrow> if fd < 0 then send_loop strerror s path fd buf1 w2
         else andthen (writex fd (take n buf1) w2) (\<lambda>(ok, w3).
           if ok then send_loop strerror s path fd buf1 w3
           else let saved_errno = w_errno w3; w4 = (do_call (SysUnlink path) (do_call (SysClose fd) w3))\<lparr>w_errno := saved_errno\<rparr>
             in andthen (fail_errno strerror s w4) (\<lambda>(r, w5).
               if r \<noteq> 0 then Inr (SendLost, buf1, w5) else send_loop strerror s path (-1) buf1 w5)))) w1"
    if "rd_left s w1 < rd_left s w" for n w1
  proof (rule calm_andthen(2) [OF read_buf_calm], goal_cases)
    case (1 b w2)
    then have "rd_left s w2 < rd_left s w" using that read_buf_left by (metis le_less_trans)
    from data [OF this] show ?case by (cases b) (simp_all only: prod.case option.case calm_simps reads_on_refl)
  qed
  show ?case unfolding send_loop.simps [of strerror s path fd buf w]
    by (rule calm_andthen(2) [OF read_msg_calm])
      (auto split: option.split dest!: read_msg_left intro: fail msg)
qed

lemma handle_send_file_calm: "calm3 (handle_send_file strerror s path mode buf w) w"
proof -
  obtain fd w1 where o: "open_for_send path mode w = (fd, w1)" by force
  then have w1: "w_rd w1 = w_rd w" using open_for_send_rd by (metis snd_conv)
  have fin: "calm3 (andthen (writex s bs (do_call c (do_call c' w3))) (\<lambda>(ok, w4). Inr (if ok then 0 else -1 :: int, b, w4))) w3"
    for bs c c' w3 and b :: bytes
    using calm_andthen(2) [OF writex_calm, of s bs "do_call c (do_call c' w3)" "\<lambda>(ok, w4). Inr (if ok then 0 else -1 :: int, b, w4)"]
    by (simp add: calm_same(2) [of "do_call c (do_call c' w3)" w3])
  have "calm (if fd < 0 then fail_errno strerror s w1 else Inr (0, w1)) w1" using fail_errno_calm by simp
  then have "calm3 (andthen (if fd < 0 then fail_errno strerror s w1 else Inr (0, w1)) (\<lambda>(r, w2).
       if r \<noteq> 0 then Inr (-1, buf, w2)
       else andthen (send_loop strerror s path (if fd < 0 then -1 else fd) buf w2) (\<lambda>(e, buf1, w3). case e of
           SendLost \<Rightarrow> Inr (-1, buf1, w3)
         | SendFail fd1 \<Rightarrow>
             Inr (-1, buf1, do_call (SysUnlink path) (if fd1 \<ge> 0 then do_call (SysClose fd1) w3 else w3))
         | SendDone timestamp fd1 \<Rightarrow>
             if fd1 \<ge> 0 then
               andthen (writex s (data_msg ID_OKAY 0) (do_call (SysUtime path timestamp) (do_call (SysClose fd1) w3)))
                 (\<lambda>(ok, w4). Inr (if ok then 0 else -1 :: int, buf1, w4))
             else Inr (0, buf1, w3)))) w1"
    by (rule calm_andthen(2))
      (auto intro!: calm_andthen(3) [OF send_loop_calm] simp: fin reads_on_same [OF do_call_rd] split: send_end.split)
  then show ?thesis by (simp add: handle_send_file_def o calm_same(2) [OF w1])
qed

lemma symlink_rd [simp]: "w_rd (snd (symlink t path w)) = w_rd w"
  by (simp add: symlink_def split_beta)

lemma handle_send_link_calm: "calm3 (handle_send_link strerror s path buf w) w"
proof -
  have fail: "calm3 (andthen (fail_message s r w1) (\<lambda>(_, w2). Inr (-1 :: int, b, w2))) w1" for r w1 and b :: bytes
    by (rule calm_andthen(2) [OF fail_message_calm]) simp
  have faile: "calm3 (andthen (fail_errno strerror s w1) (\<lambda>(_, w2). Inr (-1 :: int, b, w2))) w1" for w1 and b :: bytes
    by (rule calm_andthen(2) [OF fail_errno_calm]) simp
  have okay: "calm3 (andthen (writex s m w1) (\<lambda>(ok, w2). Inr (if ok then 0 else -1 :: int, b, w2))) w1" for m w1 and b :: bytes
    by (rule calm_andthen(2) [OF writex_calm]) simp
  have fin: "calm3 (andthen (read_msg s w4) (\<lambda>(m2, w5). case m2 of
      None \<Rightarrow> Inr (-1 :: int, b, w5)
    | Some (mid2, _) \<Rightarrow>
        if mid2 = ID_DONE then
          andthen (writex s (data_msg ID_OKAY 0) w5) (\<lambda>(ok, w6). Inr (if ok then 0 else -1, b, w6))
        else
          andthen (fail_message s ''invalid data message: expected ID_DONE'' w5) (\<lambda>(_, w6). Inr (-1, b, w6)))) w4" for w4 and b :: bytes
    by (rule calm_andthen(2) [OF read_msg_calm]) (auto split: option.split intro: fail okay)
  have link: "calm3 (let (ret1, w3) = symlink target path w2;
                   (ret, w4) = (if ret1 \<noteq> 0 \<and> w_errno w3 = ENOENT then symlink target path (snd (mkdirs path w3)) else (ret1, w3))
               in if ret \<noteq> 0 then andthen (fail_errno strerror s w4) (\<lambda>(_, w5). Inr (-1, b, w5))
                  else andthen (read_msg s w4) (\<lambda>(m2, w5). case m2 of
      None \<Rightarrow> Inr (-1 :: int, b, w5)
    | Some (mid2, _) \<Rightarrow>
        if mid2 = ID_DONE then
          andthen (writex s (data_msg ID_OKAY 0) w5) (\<lambda>(ok, w6). Inr (if ok then 0 else -1, b, w6))
        else
          andthen (fail_message s ''invalid data message: expected ID_DONE'' w5) (\<lambda>(_, w6). Inr (-1, b, w6)))) w2"
    for target w2 and b :: bytes
  proof -
    obtain ret1 w3 where r1: "symlink target path w2 = (ret1, w3)" by force
    obtain ret w4 where r2: "(if ret1 \<noteq> 0 \<and> w_errno w3 = ENOENT then symlink target path (snd (mkdirs path w3)) else (ret1, w3)) = (ret, w4)"
      by force
    have "w_rd w3 = w_rd w2" using r1 symlink_rd by (metis snd_conv)
    moreover have "w_rd w4 = w_rd w3" using r2 symlink_rd mkdirs_rd by (metis snd_conv)
    ultimately have "w_rd w4 = w_rd w2" by simp
    then show ?thesis unfolding r1 Let_def prod.case r2 calm_same(2) [OF \<open>w_rd w4 = w_rd w2\<close>, symmetric]
      using fin [of w4 b] faile by simp
  qed
  show ?thesis unfolding handle_send_link_def
  proof (rule calm_andthen(2) [OF read_msg_calm], goal_cases)
    case (1 m w1)
    have rb: "calm3 (andthen (read_buf s n buf w1) f) w1" if "\<And>w2. calm3 (f (None, w2)) w2" "\<And>b w2. calm3 (f (Some b, w2)) w2" for n f
      by (rule calm_andthen(2) [OF read_buf_calm]) (metis option.exhaust that)
    show ?case
    proof (cases m)
      case (Some q)
      obtain mid n where "q = (mid, n)" by force
      with Some show ?thesis
        by (simp only: option.case prod.case split: if_split) (intro conjI impI fail rb; simp only: prod.case option.case calm_simps reads_on_refl calm_value(2) [OF link])
    qed simp
  qed
qed

lemma do_send_calm: "calm3 (do_send strerror s name buf w) w"
proof -
  obtain path mode is_link where r: "send_request name = (path, mode, is_link)" by (metis prod_cases3)
  show ?thesis
    using handle_send_link_calm [of strerror s path buf "do_call (SysUnlink path) w"]
      handle_send_file_calm [of strerror s path "spread_mode mode" buf "do_call (SysUnlink path) w"]
    by (simp add: do_send_def r calm_same(2) [OF do_call_rd] Let_def)
qed

lemma recv_loop_calm: "calm3 (recv_loop strerror s fd buf w) w"
proof (induction "rd_left fd w" arbitrary: buf w rule: less_induct)
  case less
  have pos: "0 < SYNC_DATA_MAX" by (simp add: SYNC_DATA_MAX_def)
  have data: "calm3 (andthen (writex s m w1) (\<lambda>(ok, w2).
      if \<not> ok then Inr (-1, buf1, do_call (SysClose fd) w2)
      else andthen (writex s bs w2) (\<lambda>(ok2, w3).
        if \<not> ok2 then Inr (-1, buf1, do_call (SysClose fd) w3) else recv_loop strerror s fd buf1 w3))) w1"
    if w1: "rd_left fd w1 < rd_left fd w" for m bs buf1 w1
  proof (rule calm_andthen(2) [OF writex_calm], goal_cases)
    case (1 ok w2)
    then have "rd_left fd w2 < rd_left fd w" using w1 writex_left by metis
    then have "calm3 (andthen (writex s bs w2) (\<lambda>(ok2, w3).
        if \<not> ok2 then Inr (-1, buf1, do_call (SysClose fd) w3) else recv_loop strerror s fd buf1 w3)) w2"
      by (intro calm_andthen(2) [OF writex_calm])
        (auto simp: reads_on_same [OF do_call_rd] dest!: writex_left [of _ _ _ _ _ fd] intro!: less)
    then show ?case by (auto simp: reads_on_same [OF do_call_rd])
  qed
  have finish: "calm3 (andthen (writex s m (do_call c w1)) (\<lambda>(ok, w2). Inr (if ok then 0 else -1 :: int, buf, w2))) w1" for m c w1
    using calm_andthen(2) [OF writex_calm, of s m "do_call c w1" "\<lambda>(ok, w2). Inr (if ok then 0 else -1 :: int, buf, w2)"]
    by (simp add: calm_same(2) [OF do_call_rd])
  have fail: "calm3 (andthen (fail_errno strerror s w1) (\<lambda>(q, w2). Inr (q, buf, do_call (SysClose fd) w2))) w1" for w1
    by (rule calm_andthen(2) [OF fail_errno_calm]) (simp add: reads_on_same [OF do_call_rd])
  show ?case unfolding recv_loop.simps [of strerror s fd buf w]
  proof (rule calm_andthen(2) [OF adb_read_calm [OF pos]], goal_cases)
    case (1 r w1)
    then have "rd_left fd w1 < rd_left fd w" by (rule adb_read_left) (rule pos)
    with data less show ?case by (auto simp: finish fail Let_def split: sum.split)
  qed
qed

lemma do_recv_calm: "calm3 (do_recv strerror s path buf w) w"
proof -
  obtain fd w1 where o: "adb_open path O_RDONLY w = (fd, w1)" by force
  then have w1: "w_rd w1 = w_rd w" by (auto simp: adb_open_def split_beta)
  have "calm3 (andthen (fail_errno strerror s w1) (\<lambda>(r, w2). Inr (if r \<noteq> 0 then -1 else 0 :: int, buf, w2))) w1"
    by (rule calm_andthen(2) [OF fail_errno_calm]) simp
  with recv_loop_calm [of strerror s fd buf w1] show ?thesis by (simp add: do_recv_def o calm_same(2) [OF w1])
qed

lemma after_read_msg:
  assumes "andthen (read_msg s w) f = Inr (r, w')" and "\<And>m w1. calm (f (m, w1)) w1"
  shows "rd_left s w' < rd_left s w"
proof -
  obtain m w1 where m: "read_msg s w = Inr (m, w1)" "f (m, w1) = Inr (r, w')" using assms(1) by (auto simp: andthen_Inr_iff)
  then have "rd_left s w' \<le> rd_left s w1" using assms(2) [of m w1] by (simp add: reads_on_def)
  then show ?thesis using read_msg_left [OF m(1)] by simp
qed

lemma calm_drop: "calm3 m w \<Longrightarrow> calm (andthen m (\<lambda>(r, buf1, w1). Inr (f r buf1, w1))) w"
  by (auto simp: calm_def calm3_def safely_def andthen_Inr_iff)

lemma calm_add: "calm m w \<Longrightarrow> calm3 (andthen m (\<lambda>(r, w1). Inr (r, b, w1))) w"
  by (auto simp: calm_def calm3_def safely_def andthen_Inr_iff)

lemma sync_request_left:
  assumes "sync_request strerror fd buf w = Inr (r, w')"
  shows "rd_left fd w' < rd_left fd w"
proof -
  have stop: "calm (andthen (fail_message fd reason w1) (\<lambda>(_, w2). Inr (Inl () :: unit + bytes, w2))) w1" for reason w1
    by (rule calm_andthen(1) [OF fail_message_calm]) simp
  have name: "calm (andthen (readx fd n w1) f) w1" if "\<And>q w2. calm (f (q, w2)) w2"
    for n w1 and f :: "bytes option \<times> world \<Rightarrow> ((unit + bytes) \<times> world) outcome"
    by (rule calm_andthen(1) [OF readx_calm that])
  show ?thesis
  proof (rule after_read_msg [OF assms [unfolded sync_request_def Let_def]], goal_cases)
    case (1 m w1)
    show ?case
      by (auto split: option.split intro!: stop name calm_value(1) [where m = "cstr bs" for bs] calm_drop calm_add do_stat_calm do_list_calm
          do_send_calm do_recv_calm simp del: andthen_simps)
  qed
qed

text \<open>\<open>file_sync_service\<close>: \<open>block\<close> is what \<open>malloc\<close> returns.\<close>

function sync_loop :: "(errno \<Rightarrow> string) \<Rightarrow> int \<Rightarrow> bytes \<Rightarrow> world \<Rightarrow> world outcome" where
  "sync_loop strerror fd buf w = andthen (sync_request strerror fd buf w) (\<lambda>(r, w1). case r of
     Inl _ \<Rightarrow> Inr w1 | Inr buf1 \<Rightarrow> sync_loop strerror fd buf1 w1)"
  by pat_completeness auto
termination
  by (relation "measure (\<lambda>(strerror, fd, buf, w). rd_left fd w)") (auto dest: sync_request_left)

declare sync_loop.simps [simp del]

definition file_sync_service :: "(errno \<Rightarrow> string) \<Rightarrow> int \<Rightarrow> bytes option \<Rightarrow> world \<Rightarrow> world outcome" where
  "file_sync_service strerror fd block w =
     andthen (case block of None \<Rightarrow> Inr w | Some buf \<Rightarrow> sync_loop strerror fd buf w) (\<lambda>w1. Inr (do_call (SysClose fd) w1))"

end
