(* ===== verification/SyncTransfer.thy ===== *)
theory SyncTransfer
  imports FileSync
begin

text \<open>
  What a file transfer does: a file that is sent is stored byte for byte and acknowledged, a file that
  is fetched arrives in data messages that store the same file again, messages that are too long are
  refused, and the directories above a file are made in order.
\<close>

unbundle bit_operations_syntax

section \<open>Frames\<close>

text \<open>A call to the file system leaves the streams as they are.\<close>

definition fs_only :: "world \<Rightarrow> world \<Rightarrow> bool" where
  "fs_only w w' \<longleftrightarrow> w_rd w' = w_rd w \<and> w_wr w' = w_wr w \<and> w_out w' = w_out w \<and> w_kern w' = w_kern w"

lemma fs_only_refl [simp]: "fs_only w w"
  by (simp add: fs_only_def)

lemma fs_only_trans [trans]: "fs_only w w1 \<Longrightarrow> fs_only w1 w2 \<Longrightarrow> fs_only w w2"
  by (simp add: fs_only_def)

lemma sys_call_fs [simp]: "fs_only w (snd (sys_call c w))"
  by (simp add: sys_call_def Let_def fs_only_def)

lemma do_call_fs [simp]: "fs_only w (do_call c w)"
  by (simp add: do_call_def)

lemma mkdirs_loop_fs: "fs_only w (snd (mkdirs_loop pre rest w))"
proof (induction pre rest w rule: mkdirs_loop.induct)
  case (1 pre rest w)
  show ?case
  proof (cases "strchr rest (CHR ''/'')")
    case None
    then show ?thesis by (subst mkdirs_loop.simps) simp
  next
    case (Some x)
    obtain ret w1 where r: "adb_mkdir (pre @ before_chr rest (CHR ''/'')) 493 w = (ret, w1)" by force
    then have "fs_only w w1" using sys_call_fs [of w] by (auto simp: adb_mkdir_def split_beta)
    with 1 [OF Some refl refl r [symmetric]] Some r show ?thesis
      by (subst mkdirs_loop.simps) (auto intro: fs_only_trans)
  qed
qed

lemma mkdirs_fs: "fs_only w (snd (mkdirs name w))"
  by (simp add: mkdirs_def mkdirs_loop_fs split: list.split)

lemma adb_open_mode_fs: "fs_only w (snd (adb_open_mode path flags mode w))"
  by (simp add: adb_open_mode_def split_beta)

lemma open_for_send_fs:
  assumes "open_for_send path mode w = (fd, w1)"
  shows "fs_only w w1"
proof -
  let ?fl = "O_WRONLY + O_CREAT + O_EXCL"
  obtain fd1 v1 where o1: "adb_open_mode path ?fl mode w = (fd1, v1)" by force
  obtain fd2 v2 where o2: "(if fd1 < 0 \<and> w_errno v1 = ENOENT then adb_open_mode path ?fl mode (snd (mkdirs path v1))
      else (fd1, v1)) = (fd2, v2)" by force
  have "fs_only w v1" using adb_open_mode_fs [of w path ?fl mode] o1 by simp
  moreover have "fs_only v1 v2"
    using o2 adb_open_mode_fs [of "snd (mkdirs path v1)" path ?fl mode] mkdirs_fs [of v1 path]
    by (auto split: if_splits intro: fs_only_trans)
  moreover have "fs_only v2 w1"
    using assms adb_open_mode_fs [of v2 path O_WRONLY mode] unfolding open_for_send_def Let_def o1 prod.case o2
    by (auto split: if_splits)
  ultimately show ?thesis by (blast intro: fs_only_trans)
qed

lemma avail_cong: "w_rd w' fd = w_rd w fd \<Longrightarrow> avail fd w' = avail fd w"
  by (simp add: avail_def)

section \<open>Messages on a stream\<close>

definition data_chunk :: "bytes \<Rightarrow> bytes" where
  "data_chunk c = data_msg ID_DATA (word_of_nat (length c)) @ c"

lemma read_msg_ok:
  assumes "avail s w = data_msg mid n @ rest"
  obtains w1 where "read_msg s w = Inr (Some (mid, n), w1)" and "avail s w1 = rest" and "rd_only s w w1"
proof -
  have "length (data_msg mid n) = 8" by (simp add: data_msg_def)
  with assms obtain w1 where w1: "readx s 8 w = Inr (Some (data_msg mid n), w1)" "avail s w1 = rest"
    using readx.rx_append [of s w "data_msg mid n" rest 8] by auto
  moreover have "of_le32 (data_msg mid n) = mid" "of_le32 (drop 4 (data_msg mid n)) = n"
    by (simp_all add: data_msg_def)
  ultimately show ?thesis using that [of w1] readx_rd_only [OF w1(1)] by (simp add: read_msg_def)
qed

lemma read_buf_ok:
  assumes "avail s w = c @ rest" and "length c \<le> length buf"
  obtains w1 where "read_buf s (length c) buf w = Inr (Some (c @ drop (length c) buf), w1)" and "avail s w1 = rest" and "rd_only s w w1"
proof -
  obtain w1 where "readx s (length c) w = Inr (Some c, w1)" "avail s w1 = rest"
    using readx.rx_append [OF assms(1) refl] by auto
  with assms(2) that [of w1] readx_rd_only [of s "length c" w "Some c" w1] show ?thesis by (simp add: read_buf_def)
qed

lemma writex_ok:
  assumes "length bs \<le> wr_count (w_wr w fd)"
  obtains w' where "writex fd bs w = Inr (True, w')" and "w_out w' fd = w_out w fd @ bs" and "wr_only fd w w'"
    and "wr_count (w_wr w fd) \<le> wr_count (w_wr w' fd) + length bs"
  using writex.wx_complete [OF assms] writex.wx_ok writex_wr_only by metis

lemma ids_distinct [simp]: "ID_DONE \<noteq> ID_DATA" "ID_DATA \<noteq> ID_DONE"
  by (simp_all add: ID_DONE_def ID_DATA_def mkid_def bytes_of_def byte_of_def)

lemma chunk_length:
  assumes "length c \<le> SYNC_DATA_MAX"
  shows "unat (word_of_nat (length c) :: u32) = length c" "\<not> word_of_nat (length c) > (word_of_nat SYNC_DATA_MAX :: u32)"
proof -
  have "length c < 2 ^ 32" "SYNC_DATA_MAX < 2 ^ 32" using assms by (simp_all add: SYNC_DATA_MAX_def)
  then have u: "unat (word_of_nat (length c) :: u32) = length c" "unat (word_of_nat SYNC_DATA_MAX :: u32) = SYNC_DATA_MAX"
    by (simp_all add: unat_of_nat take_bit_nat_eq_self)
  then show "unat (word_of_nat (length c) :: u32) = length c" by simp
  show "\<not> word_of_nat (length c) > (word_of_nat SYNC_DATA_MAX :: u32)" using u assms by (simp add: word_less_nat_alt)
qed

section \<open>Storing a file\<close>

text \<open>One data message: its bytes are appended to the file.\<close>

lemma send_loop_chunk:
  assumes av: "avail s w = data_chunk c @ rest" and c: "length c \<le> SYNC_DATA_MAX" and buf: "length buf = SYNC_DATA_MAX"
    and fd: "0 \<le> fd" "fd \<noteq> s" and room: "length c \<le> wr_count (w_wr w fd)"
  obtains buf' w' where "send_loop strerror s path fd buf w = send_loop strerror s path fd buf' w'"
    and "length buf' = SYNC_DATA_MAX" and "avail s w' = rest" and "w_out w' = (w_out w)(fd := w_out w fd @ c)"
    and "w_wr w' s = w_wr w s" and "wr_count (w_wr w fd) \<le> wr_count (w_wr w' fd) + length c" and "w_log w' = w_log w"
proof -
  from av obtain w1 where w1: "read_msg s w = Inr (Some (ID_DATA, word_of_nat (length c)), w1)" "avail s w1 = c @ rest" "rd_only s w w1"
    unfolding data_chunk_def append_assoc by (rule read_msg_ok)
  from w1(2) obtain w2 where w2: "read_buf s (length c) buf w1 = Inr (Some (c @ drop (length c) buf), w2)" "avail s w2 = rest" "rd_only s w1 w2"
    by (rule read_buf_ok [of s w1 c rest buf]) (use c buf in simp_all)
  have same: "w_wr w2 = w_wr w" "w_out w2 = w_out w" "w_log w2 = w_log w" using w1(3) w2(3) by (simp_all add: rd_only_def)
  obtain w3 where w3: "writex fd c w2 = Inr (True, w3)" "w_out w3 fd = w_out w2 fd @ c" "wr_only fd w2 w3"
    "wr_count (w_wr w2 fd) \<le> wr_count (w_wr w3 fd) + length c"
    by (rule writex_ok [of c w2 fd]) (use room same in simp_all)
  let ?buf = "c @ drop (length c) buf"
  have "send_loop strerror s path fd buf w = send_loop strerror s path fd ?buf w3"
    by (subst send_loop.simps) (use w1(1) w2(1) w3(1) fd(1) in \<open>simp add: chunk_length [OF c]\<close>)
  moreover have "length ?buf = SYNC_DATA_MAX" using c buf by simp
  moreover have "avail s w3 = rest" using w2(2) w3(3) by (simp add: wr_only_def avail_def)
  moreover have "w_out w3 = (w_out w)(fd := w_out w fd @ c)" using w3(2,3) same by (auto simp: wr_only_def)
  moreover have "w_wr w3 s = w_wr w s" "w_log w3 = w_log w" using w3(3) fd(2) same by (auto simp: wr_only_def)
  ultimately show ?thesis using that [of ?buf w3] w3(4) same by simp
qed

lemma send_loop_stores:
  assumes "avail s w = concat (map data_chunk cs) @ data_msg ID_DONE ts @ rest" and "\<forall>c \<in> set cs. length c \<le> SYNC_DATA_MAX"
    and "length buf = SYNC_DATA_MAX" and fd: "0 \<le> fd" "fd \<noteq> s" and "length (concat cs) \<le> wr_count (w_wr w fd)"
  shows "\<exists>buf' w'. send_loop strerror s path fd buf w = Inr (SendDone ts fd, buf', w') \<and> length buf' = SYNC_DATA_MAX \<and>
    avail s w' = rest \<and> w_out w' = (w_out w)(fd := w_out w fd @ concat cs) \<and> w_wr w' s = w_wr w s \<and> w_log w' = w_log w"
  using assms(1-3,6)
proof (induction cs arbitrary: buf w)
  case Nil
  then have "avail s w = data_msg ID_DONE ts @ rest" by simp
  then obtain w1 where w1: "read_msg s w = Inr (Some (ID_DONE, ts), w1)" "avail s w1 = rest" "rd_only s w w1" by (rule read_msg_ok)
  then have "send_loop strerror s path fd buf w = Inr (SendDone ts fd, buf, w1)" by (subst send_loop.simps) simp
  with w1 Nil.prems(3) show ?case by (auto simp: rd_only_def)
next
  case (Cons c cs)
  have "avail s w = data_chunk c @ (concat (map data_chunk cs) @ data_msg ID_DONE ts @ rest)"
    and l: "length c \<le> SYNC_DATA_MAX" and room: "length c \<le> wr_count (w_wr w fd)" using Cons.prems by simp_all
  from this(1) l Cons.prems(3) fd room obtain buf1 w1 where w1: "send_loop strerror s path fd buf w = send_loop strerror s path fd buf1 w1"
    "length buf1 = SYNC_DATA_MAX" "avail s w1 = concat (map data_chunk cs) @ data_msg ID_DONE ts @ rest"
    "w_out w1 = (w_out w)(fd := w_out w fd @ c)" "w_wr w1 s = w_wr w s"
    "wr_count (w_wr w fd) \<le> wr_count (w_wr w1 fd) + length c" "w_log w1 = w_log w"
    by (rule send_loop_chunk)
  have "\<exists>buf' w'. send_loop strerror s path fd buf1 w1 = Inr (SendDone ts fd, buf', w') \<and> length buf' = SYNC_DATA_MAX \<and>
    avail s w' = rest \<and> w_out w' = (w_out w1)(fd := w_out w1 fd @ concat cs) \<and> w_wr w' s = w_wr w1 s \<and> w_log w' = w_log w1"
    by (rule Cons.IH) (use w1 Cons.prems in simp_all)
  with w1 show ?case by (auto simp: fun_eq_iff)
qed

lemma send_file_ok:
  assumes open_fd: "open_for_send path mode w = (fd, w1)" and fd: "0 \<le> fd" "fd \<noteq> s"
    and msgs: "avail s w = concat (map data_chunk cs) @ data_msg ID_DONE ts @ rest" and cs: "\<forall>c \<in> set cs. length c \<le> SYNC_DATA_MAX"
    and buf: "length buf = SYNC_DATA_MAX" and room: "length (concat cs) \<le> wr_count (w_wr w fd)" "8 \<le> wr_count (w_wr w s)"
  shows "\<exists>buf' w'. handle_send_file strerror s path mode buf w = Inr (0, buf', w') \<and> length buf' = SYNC_DATA_MAX \<and>
    w_out w' = (w_out w)(fd := w_out w fd @ concat cs, s := w_out w s @ data_msg ID_OKAY 0) \<and> avail s w' = rest \<and>
    w_log w' = w_log w1 @ [SysClose fd, SysUtime path ts]"
proof -
  have fs: "fs_only w w1" using open_for_send_fs [OF open_fd] .
  then have "avail s w1 = concat (map data_chunk cs) @ data_msg ID_DONE ts @ rest" "length (concat cs) \<le> wr_count (w_wr w1 fd)"
    using msgs room by (simp_all add: fs_only_def avail_def)
  from send_loop_stores [OF this(1) cs buf fd this(2)] obtain buf' w2 where
    w2: "send_loop strerror s path fd buf w1 = Inr (SendDone ts fd, buf', w2)" "length buf' = SYNC_DATA_MAX" "avail s w2 = rest"
      "w_out w2 = (w_out w1)(fd := w_out w1 fd @ concat cs)" "w_wr w2 s = w_wr w1 s" "w_log w2 = w_log w1"
    by metis
  let ?w3 = "do_call (SysUtime path ts) (do_call (SysClose fd) w2)"
  have w3: "fs_only w2 ?w3" "w_log ?w3 = w_log w2 @ [SysClose fd, SysUtime path ts]"
    using fs_only_trans [OF do_call_fs do_call_fs] by (simp_all add: do_call_def sys_call_def Let_def)
  obtain w4 where w4: "writex s (data_msg ID_OKAY 0) ?w3 = Inr (True, w4)" "w_out w4 s = w_out ?w3 s @ data_msg ID_OKAY 0" "wr_only s ?w3 w4"
    by (rule writex_ok [of "data_msg ID_OKAY 0" ?w3 s]) (use room(2) fs w2(5) w3(1) in \<open>auto simp: fs_only_def data_msg_def\<close>)
  have "handle_send_file strerror s path mode buf w = Inr (0, buf', w4)"
    using w2(1) w4(1) fd(1) by (simp add: handle_send_file_def open_fd)
  moreover have "w_out w4 = (w_out w)(fd := w_out w fd @ concat cs, s := w_out w s @ data_msg ID_OKAY 0)"
    using w4(2,3) w3(1) w2(4) fs fd(2) by (auto simp: wr_only_def fs_only_def)
  moreover have "avail s w4 = rest" using w4(3) w3(1) w2(3) by (simp add: wr_only_def fs_only_def avail_def)
  ultimately show ?thesis using w2(2,6) w3(2) w4(3) by (simp add: wr_only_def)
qed

text \<open>C18: a file sent to the daemon is stored. Whatever file system calls it took to open the file and
  however the stream and the file cut up the data, \<open>handle_send_file\<close> returns 0, has appended exactly the bytes of the data
  messages to the file, closed it, set its time to the one of the DONE message, and answered OKAY;
  what follows on the stream is left unread.\<close>

theorem send_file_stores:
  assumes open_fd: "open_for_send path mode w = (fd, w1)" and fd: "0 \<le> fd" "fd \<noteq> s"
    and msgs: "avail s w = concat (map data_chunk cs) @ data_msg ID_DONE ts @ rest" and cs: "\<forall>c \<in> set cs. length c \<le> SYNC_DATA_MAX"
    and buf: "length buf = SYNC_DATA_MAX" and room: "length (concat cs) \<le> wr_count (w_wr w fd)" "8 \<le> wr_count (w_wr w s)"
  shows "\<exists>buf' w'. handle_send_file strerror s path mode buf w = Inr (0, buf', w') \<and> length buf' = SYNC_DATA_MAX \<and>
    w_out w' = (w_out w)(fd := w_out w fd @ concat cs, s := w_out w s @ data_msg ID_OKAY 0) \<and> avail s w' = rest \<and>
    w_log w' = w_log w1 @ [SysClose fd, SysUtime path ts]"
  by (rule send_file_ok [OF assms])

section \<open>Fetching a file\<close>

text \<open>The reads of a descriptor end with an end of file.\<close>

fun rd_eof :: "rd_ans list \<Rightarrow> bool" where
  "rd_eof [] \<longleftrightarrow> False"
| "rd_eof (RdErr e # as) \<longleftrightarrow> e = EINTR \<and> rd_eof as"
| "rd_eof (RdData bs # as) \<longleftrightarrow> bs = [] \<or> rd_eof as"

lemma adb_read_eof:
  assumes "rd_eof (w_rd w fd)" and "0 < n"
  obtains bs w1 where "adb_read fd n w = Inr (Inr bs, w1)" and "bs = [] \<longleftrightarrow> avail fd w = []"
    and "bs \<noteq> [] \<Longrightarrow> rd_eof (w_rd w1 fd)"
  using assms
proof (induction "length (w_rd w fd)" arbitrary: w thesis rule: less_induct)
  case less
  have "w_rd w fd \<noteq> []" using less(3) by auto
  then obtain a as where s: "w_rd w fd = a # as" by (auto simp: neq_Nil_conv)
  show ?case
  proof (cases a)
    case (RdData bs)
    show ?thesis
    proof (cases "length bs \<le> n")
      case True
      with s RdData less(3,4) show ?thesis
        by (intro less(2) [of bs "w\<lparr>w_rd := (w_rd w)(fd := as)\<rparr>"]) (auto simp: sys_read_def avail_def adb_read.simps [of fd n w])
    next
      case False
      then have "bs \<noteq> []" "take n bs \<noteq> []" using less(4) by auto
      with s RdData less(3,4) False show ?thesis
        by (intro less(2) [of "take n bs" "w\<lparr>w_rd := (w_rd w)(fd := RdData (drop n bs) # as)\<rparr>"])
          (auto simp: sys_read_def avail_def adb_read.simps [of fd n w])
    qed
  next
    case (RdErr e)
    with s less(3) have e: "e = EINTR" "rd_eof as" by auto
    let ?w = "w\<lparr>w_rd := (w_rd w)(fd := as), w_errno := e\<rparr>"
    have r: "adb_read fd n w = adb_read fd n ?w" by (subst adb_read.simps) (simp add: sys_read_def s RdErr e)
    have av: "avail fd ?w = avail fd w" by (simp add: avail_def s RdErr e)
    have "length (w_rd ?w fd) < length (w_rd w fd)" "rd_eof (w_rd ?w fd)" using s e by simp_all
    then obtain bs w1 where "adb_read fd n ?w = Inr (Inr bs, w1)" "bs = [] \<longleftrightarrow> avail fd ?w = []" "bs \<noteq> [] \<Longrightarrow> rd_eof (w_rd w1 fd)"
      using less(1) [of ?w] less(4) by metis
    with less(2) r av show ?thesis by metis
  qed
qed

lemma recv_loop_sends:
  assumes "rd_eof (w_rd w fd)" and "fd \<noteq> s" and "length buf = SYNC_DATA_MAX" and "9 * length (avail fd w) + 8 \<le> wr_count (w_wr w s)"
  shows "\<exists>cs buf' w'. recv_loop strerror s fd buf w = Inr (0, buf', w') \<and> concat cs = avail fd w \<and>
    (\<forall>c \<in> set cs. length c \<le> SYNC_DATA_MAX) \<and> length buf' = SYNC_DATA_MAX \<and>
    w_out w' = (w_out w)(s := w_out w s @ concat (map data_chunk cs) @ data_msg ID_DONE 0) \<and> w_log w' = w_log w @ [SysClose fd]"
  using assms
proof (induction "length (avail fd w)" arbitrary: buf w rule: less_induct)
  case less
  have pos: "0 < SYNC_DATA_MAX" by (simp add: SYNC_DATA_MAX_def)
  obtain bs w1 where r: "adb_read fd SYNC_DATA_MAX w = Inr (Inr bs, w1)" "bs = [] \<longleftrightarrow> avail fd w = []"
    "bs \<noteq> [] \<Longrightarrow> rd_eof (w_rd w1 fd)"
    using adb_read_eof [OF less.prems(1) pos] by metis
  have ro: "rd_only fd w w1" by (rule adb_read_rd_only [OF r(1)])
  then have same: "w_wr w1 = w_wr w" "w_out w1 = w_out w" "w_log w1 = w_log w" by (simp_all add: rd_only_def)
  show ?case
  proof (cases "bs = []")
    case True
    let ?w2 = "do_call (SysClose fd) w1"
    have w2: "fs_only w1 ?w2" "w_log ?w2 = w_log w @ [SysClose fd]" using same by (simp_all add: do_call_def sys_call_def Let_def fs_only_def)
    obtain w3 where w3: "writex s (data_msg ID_DONE 0) ?w2 = Inr (True, w3)" "w_out w3 s = w_out ?w2 s @ data_msg ID_DONE 0" "wr_only s ?w2 w3"
      by (rule writex_ok [of "data_msg ID_DONE 0" ?w2 s]) (use less.prems(4) w2(1) same in \<open>auto simp: fs_only_def data_msg_def\<close>)
    have "recv_loop strerror s fd buf w = Inr (0, buf, w3)" by (subst recv_loop.simps) (simp add: r(1) True w3(1))
    moreover have "w_out w3 = (w_out w)(s := w_out w s @ data_msg ID_DONE 0)" using w3(2,3) w2(1) same by (auto simp: wr_only_def fs_only_def)
    ultimately show ?thesis using True r(2) w2(2) w3(3) less.prems(3) by (intro exI [of _ "[] :: bytes list"]) (simp add: wr_only_def)
  next
    case False
    have l: "length bs \<le> SYNC_DATA_MAX" by (rule adb_read_length [OF r(1)])
    have av: "avail fd w = bs @ avail fd w1" by (rule adb_read_sound [OF r(1) False])
    have "1 \<le> length bs" using False by (cases bs) auto
    then have enough: "8 + length bs + (9 * length (avail fd w1) + 8) \<le> wr_count (w_wr w1 s)" using less.prems(4) av same by simp
    let ?h = "data_msg ID_DATA (word_of_nat (length bs))"
    have h8: "length ?h = 8" by (simp add: data_msg_def)
    obtain w2 where w2: "writex s ?h w1 = Inr (True, w2)" "w_out w2 s = w_out w1 s @ ?h" "wr_only s w1 w2"
      "wr_count (w_wr w1 s) \<le> wr_count (w_wr w2 s) + length ?h"
      by (rule writex_ok [of ?h w1 s]) (use enough h8 in simp_all)
    obtain w3 where w3: "writex s bs w2 = Inr (True, w3)" "w_out w3 s = w_out w2 s @ bs" "wr_only s w2 w3"
      "wr_count (w_wr w2 s) \<le> wr_count (w_wr w3 s) + length bs"
      by (rule writex_ok [of bs w2 s]) (use enough w2(4) h8 in simp_all)
    have rd: "w_rd w3 = w_rd w1" and lg: "w_log w3 = w_log w" using w2(3) w3(3) same by (simp_all add: wr_only_def)
    let ?buf = "bs @ drop (length bs) buf"
    have step: "recv_loop strerror s fd buf w = recv_loop strerror s fd ?buf w3"
      by (subst recv_loop.simps) (use l less.prems(3) in \<open>simp add: r(1) False w2(1) w3(1)\<close>)
    have "length (avail fd w3) < length (avail fd w)" "avail fd w3 = avail fd w1" using av False rd by (simp_all add: avail_def)
    moreover have "rd_eof (w_rd w3 fd)" using r(3) [OF False] rd by simp
    moreover have "length ?buf = SYNC_DATA_MAX" using l less.prems(3) by simp
    moreover have "9 * length (avail fd w3) + 8 \<le> wr_count (w_wr w3 s)" using enough w2(4) w3(4) h8 rd by (simp add: avail_def)
    ultimately obtain cs buf' w' where ih: "recv_loop strerror s fd ?buf w3 = Inr (0, buf', w')" "concat cs = avail fd w1"
      "\<forall>c \<in> set cs. length c \<le> SYNC_DATA_MAX" "length buf' = SYNC_DATA_MAX"
      "w_out w' = (w_out w3)(s := w_out w3 s @ concat (map data_chunk cs) @ data_msg ID_DONE 0)" "w_log w' = w_log w3 @ [SysClose fd]"
      using less.hyps [of w3 ?buf] less.prems(2) by metis
    have "w_out w' = (w_out w)(s := w_out w s @ concat (map data_chunk (bs # cs)) @ data_msg ID_DONE 0)"
      using ih(5) w2(2,3) w3(2,3) same by (auto simp: wr_only_def data_chunk_def)
    with ih step l lg av show ?thesis by (intro exI [of _ "bs # cs"]) simp
  qed
qed


section \<open>What is refused\<close>

lemma fail_message_ok:
  assumes "8 + length r \<le> wr_count (w_wr w s)"
  obtains w' where "fail_message s r w = Inr (0, w')" and "w_out w' = (w_out w)(s := w_out w s @ data_msg ID_FAIL (word_of_nat (length r)) @ bytes_of r)"
    and "w_rd w' = w_rd w" and "w_log w' = w_log w"
proof -
  let ?h = "data_msg ID_FAIL (word_of_nat (length r))"
  have h8: "length ?h = 8" by (simp add: data_msg_def)
  obtain w1 where w1: "writex s ?h w = Inr (True, w1)" "w_out w1 s = w_out w s @ ?h" "wr_only s w w1"
    "wr_count (w_wr w s) \<le> wr_count (w_wr w1 s) + length ?h"
    by (rule writex_ok [of ?h w s]) (use assms h8 in simp_all)
  obtain w2 where w2: "writex s (bytes_of r) w1 = Inr (True, w2)" "w_out w2 s = w_out w1 s @ bytes_of r" "wr_only s w1 w2"
    by (rule writex_ok [of "bytes_of r" w1 s]) (use assms w1(4) h8 in simp_all)
  have "w_out w2 = (w_out w)(s := w_out w s @ ?h @ bytes_of r)" using w1(2,3) w2(2,3) by (auto simp: wr_only_def)
  with w1 w2 that [of w2] show ?thesis by (simp add: fail_message_def wr_only_def)
qed

text \<open>A data message longer than the buffer is refused before a byte of it is read: the client is told
  so, the file is closed and removed, and the connection is given up.\<close>

lemma send_oversize_refused:
  assumes open_fd: "open_for_send path mode w = (fd, w1)" "0 \<le> fd" and msg: "avail s w = data_msg ID_DATA n @ rest" "unat n > SYNC_DATA_MAX"
    and room: "29 \<le> wr_count (w_wr w s)"
  shows "\<exists>w'. handle_send_file strerror s path mode buf w = Inr (-1, buf, w') \<and>
    w_out w' = (w_out w)(s := w_out w s @ data_msg ID_FAIL 21 @ bytes_of ''oversize data message'') \<and> avail s w' = rest \<and>
    w_log w' = w_log w1 @ [SysClose fd, SysUnlink path]"
proof -
  have fs: "fs_only w w1" using open_for_send_fs [OF open_fd(1)] .
  then have "avail s w1 = data_msg ID_DATA n @ rest" using msg(1) by (simp add: fs_only_def avail_def)
  then obtain w2 where w2: "read_msg s w1 = Inr (Some (ID_DATA, n), w2)" "avail s w2 = rest" "rd_only s w1 w2" by (rule read_msg_ok)
  have same: "w_wr w2 = w_wr w" "w_out w2 = w_out w" "w_log w2 = w_log w1" using fs w2(3) by (simp_all add: fs_only_def rd_only_def)
  obtain w3 where w3: "fail_message s ''oversize data message'' w2 = Inr (0, w3)"
    "w_out w3 = (w_out w2)(s := w_out w2 s @ data_msg ID_FAIL 21 @ bytes_of ''oversize data message'')" "w_rd w3 = w_rd w2" "w_log w3 = w_log w2"
    using fail_message_ok [of "''oversize data message''" w2 s] room same(1) by auto
  have "SYNC_DATA_MAX < 2 ^ 32" by (simp add: SYNC_DATA_MAX_def)
  then have "n > word_of_nat SYNC_DATA_MAX" using msg(2) by (simp add: word_less_nat_alt unat_of_nat take_bit_nat_eq_self)
  then have "send_loop strerror s path fd buf w1 = Inr (SendFail fd, buf, w3)" by (subst send_loop.simps) (simp add: w2(1) w3(1))
  then have "handle_send_file strerror s path mode buf w = Inr (-1, buf, do_call (SysUnlink path) (do_call (SysClose fd) w3))"
    using open_fd by (simp add: handle_send_file_def)
  with w2(2) w3(2-4) same show ?thesis by (simp add: do_call_def sys_call_def Let_def avail_def)
qed


section \<open>Making directories\<close>

text \<open>The names of the directories above a file, from the top.\<close>

fun parents :: "string \<Rightarrow> string list \<Rightarrow> string list" where
  "parents pre [] = []"
| "parents pre (c # cs) = (pre @ c) # parents (pre @ c @ ''/'') cs"

definition mkdir_works :: "world \<Rightarrow> bool" where
  "mkdir_works w \<longleftrightarrow> (\<forall>l p m. (\<exists>r \<ge> 0. w_kern w l (SysMkdir p m) = SRet r) \<or> w_kern w l (SysMkdir p m) = SErr EEXIST)"

lemma mkdirs_loop_parents:
  assumes "mkdir_works w" and "\<forall>c \<in> set cs. CHR ''/'' \<notin> set c" and "CHR ''/'' \<notin> set file"
  shows "\<exists>w'. mkdirs_loop pre (concat (map (\<lambda>c. c @ ''/'') cs) @ file) w = (0, w') \<and>
    w_log w' = w_log w @ map (\<lambda>d. SysMkdir d 493) (parents pre cs)"
  using assms(1,2)
proof (induction cs arbitrary: pre w)
  case Nil
  then show ?case using assms(3) by (subst mkdirs_loop.simps) simp
next
  case (Cons c cs)
  let ?rest = "concat (map (\<lambda>c. c @ ''/'') cs) @ file"
  obtain ret w1 where r: "adb_mkdir (pre @ c) 493 w = (ret, w1)" by force
  then have w1: "w_kern w1 = w_kern w" "w_log w1 = w_log w @ [SysMkdir (pre @ c) 493]" "ret < 0 \<Longrightarrow> w_errno w1 = EEXIST"
    using Cons.prems(1) unfolding mkdir_works_def adb_mkdir_def sys_call_def Let_def
    by (auto simp: ret_of_def split: sysans.splits dest!: spec [of _ "w_log w"] spec [of _ "pre @ c"] spec [of _ 493])
  have "mkdir_works w1" using Cons.prems(1) w1(1) by (simp add: mkdir_works_def)
  then obtain w' where ih: "mkdirs_loop (pre @ c @ ''/'') ?rest w1 = (0, w')"
    "w_log w' = w_log w1 @ map (\<lambda>d. SysMkdir d 493) (parents (pre @ c @ ''/'') cs)"
    using Cons.IH [of w1 "pre @ c @ ''/''"] Cons.prems(2) by auto
  have "CHR ''/'' \<notin> set c" using Cons.prems(2) by simp
  then have "mkdirs_loop pre (c @ ''/'' @ ?rest) w = mkdirs_loop (pre @ c @ ''/'') ?rest w1"
    using r w1(3) by (subst mkdirs_loop.simps) auto
  with ih w1(2) show ?case by simp
qed

text \<open>\<open>mkdirs\<close> makes every directory above a file, each before the ones below it, and nothing else; that
  some exist already does not stop it.\<close>

lemma mkdirs_makes_parents:
  assumes "mkdir_works w" and "\<forall>c \<in> set cs. CHR ''/'' \<notin> set c" and "CHR ''/'' \<notin> set file"
  shows "\<exists>w'. mkdirs (''/'' @ concat (map (\<lambda>c. c @ ''/'') cs) @ file) w = (0, w') \<and>
    w_log w' = w_log w @ map (\<lambda>d. SysMkdir d 493) (parents ''/'' cs)"
  using mkdirs_loop_parents [OF assms, of "''/''"] by (simp add: mkdirs_def)

section \<open>Concrete transfers\<close>

text \<open>Every call succeeds, a file is opened on descriptor 5, and the client is on descriptor 4.\<close>

definition sync_world :: "bytes \<Rightarrow> world" where
  "sync_world bs = idle_world\<lparr>w_rd := (\<lambda>_. [])(4 := [RdData bs], 5 := [RdData [1, 2], RdData []]),
     w_wr := (\<lambda>_. replicate 40 (WrAcc 100)), w_kern := (\<lambda>_ _. SRet 5)\<rparr>"

lemma sync_world_open: "open_for_send ''/f'' 420 (sync_world bs) = (5, (sync_world bs)\<lparr>w_log := [SysOpen ''/f'' 193 420]\<rparr>)"
  by (simp add: open_for_send_def adb_open_mode_def sys_call_def sync_world_def idle_world_def ret_of_def O_WRONLY_def O_CREAT_def O_EXCL_def Let_def)

lemma sync_world_avail: "bs \<noteq> [] \<Longrightarrow> avail 4 (sync_world bs) = bs" "avail 5 (sync_world bs) = [1, 2]"
  "wr_count (w_wr (sync_world bs) fd) = 40"
  by (simp_all add: avail_def sync_world_def)

abbreviation sample_file :: bytes where
  "sample_file \<equiv> data_chunk [1, 2] @ data_msg ID_DONE 9"

theorem send_file_stores_witness:
  "\<exists>buf' w'. handle_send_file (\<lambda>_. ''error'') 4 ''/f'' 420 (replicate SYNC_DATA_MAX 0) (sync_world sample_file) = Inr (0, buf', w') \<and>
    length buf' = SYNC_DATA_MAX \<and>
    w_out w' = (w_out (sync_world sample_file))(5 := w_out (sync_world sample_file) 5 @ concat [[1, 2]],
      4 := w_out (sync_world sample_file) 4 @ data_msg ID_OKAY 0) \<and> avail 4 w' = [] \<and>
    w_log w' = w_log ((sync_world sample_file)\<lparr>w_log := [SysOpen ''/f'' 193 420]\<rparr>) @ [SysClose 5, SysUtime ''/f'' 9]"
  by (rule send_file_stores [OF sync_world_open])
    (simp_all add: sync_world_avail data_chunk_def data_msg_def SYNC_DATA_MAX_def)



end
