(* ===== verification/Listeners.thy ===== *)
theory Listeners
  imports Adb Endpoints
begin

text \<open>
  The listeners of \<open>adb.c\<close>: descriptors on which the daemon accepts clients, each with the name it is
  bound to and the service a client is connected to, and the requests that list, install and remove
  them (\<open>handle_host_request\<close>). The listeners live in a store by address beside the sockets; the
  list \<open>listener_list\<close> is the list its ring represents. The \<open>fdevent\<close> of a listener and its node in the
  disconnect list of its transport have the listener's own address. Allocation does not fail.
\<close>

section \<open>State\<close>

record alistener =
  l_fd :: int
  local_name :: string
  connect_to :: string
  l_transport :: addr

record lstate =
  ld :: dstate
  lsts :: "addr \<Rightarrow> alistener option"
  llist :: "addr list" \<comment> \<open>\<open>listener_list\<close>\<close>
  gListenAll :: int

definition get_lst :: "addr \<Rightarrow> lstate \<Rightarrow> alistener outcome" where
  "get_lst a st = (if a = 0 then Inl NullDeref else case lsts st a of None \<Rightarrow> Inl Dangling | Some l \<Rightarrow> Inr l)"

definition on_ld :: "(dstate \<Rightarrow> dstate outcome) \<Rightarrow> lstate \<Rightarrow> lstate outcome" where
  "on_ld f st = andthen (f (ld st)) (\<lambda>d. Inr (st\<lparr>ld := d\<rparr>))"

definition on_lw :: "(world \<Rightarrow> ('r \<times> world) outcome) \<Rightarrow> lstate \<Rightarrow> ('r \<times> lstate) outcome" where
  "on_lw f st = andthen (f (wld (ld st))) (\<lambda>(r, w). Inr (r, st\<lparr>ld := (ld st)\<lparr>wld := w\<rparr>\<rparr>))"

text \<open>\<open>add_transport_disconnect\<close>.\<close>

definition add_disconnect :: "addr \<Rightarrow> addr \<Rightarrow> dstate \<Rightarrow> dstate outcome" where
  "add_disconnect t a d = (if t = 0 then Inl NullDeref else case trans d t of
       None \<Rightarrow> Inl Dangling
     | Some x \<Rightarrow> Inr (d\<lparr>trans := (trans d)(t := Some (x\<lparr>disconnects := disconnects x @ [a]\<rparr>))\<rparr>))"

section \<open>Clients\<close>

text \<open>\<open>accept\<close>, repeated on EINTR: the answer is that of the last attempt.\<close>

definition adb_socket_accept :: "int \<Rightarrow> world \<Rightarrow> (int \<times> world) outcome" where
  "adb_socket_accept fd w = Inr (call (SysAccept fd) w)"

text \<open>Handlers of an event of a listener. Setting the buffer size has no effect on the state.\<close>

definition ss_listener_event_func :: "int \<Rightarrow> u16 \<Rightarrow> addr \<Rightarrow> lstate \<Rightarrow> lstate outcome" where
  "ss_listener_event_func fd0 ev a st =
    (if \<not> has ev FDE_READ then Inr st
     else andthen (on_lw (adb_socket_accept fd0) st) (\<lambda>(fd, st1).
       if fd < 0 then Inr st1
       else on_ld (\<lambda>d. andthen (create_local_socket fd d) (\<lambda>(s, d1). connect_to_smartsocket s d1)) st1))"

definition listener_event_func :: "int \<Rightarrow> u16 \<Rightarrow> addr \<Rightarrow> lstate \<Rightarrow> lstate outcome" where
  "listener_event_func fd0 ev a st =
    (if \<not> has ev FDE_READ then Inr st
     else andthen (on_lw (adb_socket_accept fd0) st) (\<lambda>(fd, st1).
       if fd < 0 then Inr st1
       else andthen (get_lst a st1) (\<lambda>l. on_ld (\<lambda>d.
         andthen (create_local_socket fd d) (\<lambda>(s, d1).
         andthen (upd_sock s (\<lambda>x. x\<lparr>s_transport := l_transport l\<rparr>) d1) (connect_to_remote s (connect_to l)))) st1)))"

section \<open>Removing listeners\<close>

definition free_listener :: "addr \<Rightarrow> lstate \<Rightarrow> lstate outcome" where
  "free_listener a st = andthen (get_lst a st) (\<lambda>l.
     andthen (on_ld (on_evl (fdevent_remove a)) (st\<lparr>llist := remove1 a (llist st)\<rparr>)) (\<lambda>st1.
       let st2 = (if l_transport l \<noteq> 0 then st1\<lparr>ld := drop_disconnect (l_transport l) a (ld st1)\<rparr> else st1)
       in Inr (st2\<lparr>lsts := (lsts st2)(a := None)\<rparr>)))"

definition listener_disconnect :: "addr \<Rightarrow> addr \<Rightarrow> lstate \<Rightarrow> lstate outcome" where
  "listener_disconnect a t st = free_listener a st"

text \<open>The loop of \<open>remove_listener\<close> and of \<open>install_listener\<close>: the first listener with a name.\<close>

fun find_listener :: "string \<Rightarrow> addr list \<Rightarrow> lstate \<Rightarrow> addr option outcome" where
  "find_listener name [] st = Inr None"
| "find_listener name (a # as) st = andthen (get_lst a st) (\<lambda>l.
     if local_name l = name then Inr (Some a) else find_listener name as st)"

definition remove_listener :: "string \<Rightarrow> addr \<Rightarrow> lstate \<Rightarrow> (int \<times> lstate) outcome" where
  "remove_listener name transport st = andthen (find_listener name (llist st) st) (\<lambda>r. case r of
       None \<Rightarrow> Inr (-1, st)
     | Some a \<Rightarrow> andthen (get_lst a st) (\<lambda>l. andthen (listener_disconnect a (l_transport l) st) (\<lambda>st1. Inr (0, st1))))"

text \<open>A service of the daemon itself: its target starts with a star.\<close>

definition starred :: "alistener \<Rightarrow> bool" where
  "starred l \<longleftrightarrow> starts_with ''*'' (connect_to l)"

fun remove_listeners :: "addr list \<Rightarrow> lstate \<Rightarrow> lstate outcome" where
  "remove_listeners [] st = Inr st"
| "remove_listeners (a # as) st = andthen (get_lst a st) (\<lambda>l.
     if starred l then remove_listeners as st
     else andthen (listener_disconnect a (l_transport l) st) (remove_listeners as))"

definition remove_all_listeners :: "lstate \<Rightarrow> lstate outcome" where
  "remove_all_listeners st = remove_listeners (llist st) st"

section \<open>Installing listeners\<close>

definition INSTALL_STATUS_OK :: int where "INSTALL_STATUS_OK = 0"
definition INSTALL_STATUS_INTERNAL_ERROR :: int where "INSTALL_STATUS_INTERNAL_ERROR = -1"
definition INSTALL_STATUS_CANNOT_BIND :: int where "INSTALL_STATUS_CANNOT_BIND = -2"
definition INSTALL_STATUS_CANNOT_REBIND :: int where "INSTALL_STATUS_CANNOT_REBIND = -3"

lemmas install_status_defs = INSTALL_STATUS_OK_def INSTALL_STATUS_INTERNAL_ERROR_def INSTALL_STATUS_CANNOT_BIND_def
  INSTALL_STATUS_CANNOT_REBIND_def

definition local_name_to_fd :: "int \<Rightarrow> string \<Rightarrow> world \<Rightarrow> (int \<times> world) outcome" where
  "local_name_to_fd listen_all name w =
    (if starts_with ''tcp:'' name then
       let port = atoi (drop 4 name) in
       Inr (if listen_all > 0 then socket_inaddr_any_server port SOCK_STREAM w else socket_loopback_server port SOCK_STREAM w)
     else if starts_with ''local:'' name then socket_local_server (drop 6 name) ANDROID_SOCKET_NAMESPACE_ABSTRACT SOCK_STREAM w
     else if starts_with ''localabstract:'' name then socket_local_server (drop 14 name) ANDROID_SOCKET_NAMESPACE_ABSTRACT SOCK_STREAM w
     else if starts_with ''localfilesystem:'' name then socket_local_server (drop 16 name) ANDROID_SOCKET_NAMESPACE_FILESYSTEM SOCK_STREAM w
     else Inr (-1, w))"

text \<open>The listener is found: its target, and its transport, change.\<close>

definition rebind_listener :: "addr \<Rightarrow> alistener \<Rightarrow> string \<Rightarrow> addr \<Rightarrow> lstate \<Rightarrow> (int \<times> lstate) outcome" where
  "rebind_listener a l dest transport st =
    (let st1 = st\<lparr>lsts := (lsts st)(a := Some (l\<lparr>connect_to := dest\<rparr>))\<rparr> in
     if l_transport l = transport then Inr (INSTALL_STATUS_OK, st1)
     else if l_transport l = 0 then Inl NullDeref
     else
       let st2 = st1\<lparr>ld := drop_disconnect (l_transport l) a (ld st1),
                     lsts := (lsts st1)(a := Some (l\<lparr>connect_to := dest, l_transport := transport\<rparr>))\<rparr>
       in andthen (on_ld (add_disconnect transport a) st2) (\<lambda>st3. Inr (INSTALL_STATUS_OK, st3)))"

text \<open>It is not: a new one is bound and watched. \<open>Handler 3\<close> and \<open>Handler 4\<close> are the two event functions.\<close>

definition new_listener :: "string \<Rightarrow> string \<Rightarrow> addr \<Rightarrow> lstate \<Rightarrow> (int \<times> lstate) outcome" where
  "new_listener name dest transport st =
    (let a = fresh (ld st); st0 = st\<lparr>ld := (ld st)\<lparr>fresh := a + 1\<rparr>\<rparr> in
     andthen (on_lw (local_name_to_fd (gListenAll st) name) st0) (\<lambda>(fd, st1).
       if fd < 0 then Inr (INSTALL_STATUS_CANNOT_BIND, st1)
       else
         andthen (on_ld (on_evl (fdevent_install a fd (if dest = ''*smartsocket*'' then Handler 3 else Handler 4) a)) st1) (\<lambda>st2.
         andthen (on_ld (on_evl (fdevent_set a FDE_READ)) st2) (\<lambda>st3.
           let st4 = st3\<lparr>lsts := (lsts st3)(a := Some \<lparr>l_fd = fd, local_name = name, connect_to = dest, l_transport = transport\<rparr>),
                         llist := llist st3 @ [a]\<rparr>
           in if transport \<noteq> 0 then andthen (on_ld (add_disconnect transport a) st4) (\<lambda>st5. Inr (INSTALL_STATUS_OK, st5))
              else Inr (INSTALL_STATUS_OK, st4)))))"

definition install_listener :: "string \<Rightarrow> string \<Rightarrow> addr \<Rightarrow> bool \<Rightarrow> lstate \<Rightarrow> (int \<times> lstate) outcome" where
  "install_listener name dest transport no_rebind st = andthen (find_listener name (llist st) st) (\<lambda>r. case r of
       Some a \<Rightarrow> andthen (get_lst a st) (\<lambda>l.
         if starred l then Inr (INSTALL_STATUS_INTERNAL_ERROR, st)
         else if no_rebind then Inr (INSTALL_STATUS_CANNOT_REBIND, st)
         else rebind_listener a l dest transport st)
     | None \<Rightarrow> new_listener name dest transport st)"

section \<open>Listing\<close>

definition listener_line :: "alistener \<Rightarrow> string \<Rightarrow> string" where
  "listener_line l serial_name = serial_name @ '' '' @ local_name l @ '' '' @ connect_to l @ [CHR 0x0A]"

text \<open>\<open>format_listener\<close>: the length, and the buffer after the text was put at \<open>pos\<close>, if there is one.\<close>

definition format_listener :: "alistener \<Rightarrow> (bytes \<times> nat \<times> u64) option \<Rightarrow> lstate \<Rightarrow> (nat \<times> bytes option) outcome" where
  "format_listener l dest st =
    (if l_transport l = 0 then Inl NullDeref
     else case trans (ld st) (l_transport l) of
       None \<Rightarrow> Inl Dangling
     | Some x \<Rightarrow> (case serial x of
         None \<Rightarrow> Inl NullDeref
       | Some sn \<Rightarrow>
           let len = length (local_name l) + length (connect_to l) + length sn + 3 in
           (case dest of
              None \<Rightarrow> Inr (len, None)
            | Some (buf, pos, remaining) \<Rightarrow>
                andthen (snprintf_at buf pos remaining (listener_line l sn)) (\<lambda>(_, buf1). Inr (len, Some buf1)))))"

fun format_loop :: "addr list \<Rightarrow> (bytes \<times> nat \<times> u64) option \<Rightarrow> nat \<Rightarrow> lstate \<Rightarrow> (nat \<times> bytes option) outcome" where
  "format_loop [] dest result st = Inr (result, map_option fst dest)"
| "format_loop (a # as) dest result st = andthen (get_lst a st) (\<lambda>l.
     if starred l then format_loop as dest result st
     else andthen (format_listener l dest st) (\<lambda>(len, buf1). case dest of
         None \<Rightarrow> format_loop as None (result + len) st
       | Some (buf, pos, remaining) \<Rightarrow>
           let remaining1 = remaining - word_of_nat len in
           if remaining1 \<le> 0 then Inr (result + len, buf1)
           else format_loop as (Some (the buf1, pos + len, remaining1)) (result + len) st))"

definition format_listeners :: "bytes option \<Rightarrow> lstate \<Rightarrow> (nat \<times> bytes option) outcome" where
  "format_listeners buf st = format_loop (llist st) (map_option (\<lambda>b. (b, 0, word_of_nat (length b))) buf) 0 st"

section \<open>Requests\<close>

text \<open>\<open>%04x\<close> of any number.\<close>

fun hex :: "nat \<Rightarrow> string" where
  "hex n = (if n < 16 then [hex_digit n] else hex (n div 16) @ [hex_digit (n mod 16)])"

declare hex.simps [simp del]

definition hex_04 :: "nat \<Rightarrow> string" where
  "hex_04 n = (if n < 65536 then hex4 n else hex n)"

text \<open>\<open>mem n\<close> is the block \<open>malloc(n)\<close> returns, and the buffer has 4096 bytes. \<open>usb_cleanup\<close> is empty.\<close>

definition host_list :: "(nat \<Rightarrow> bytes) \<Rightarrow> int \<Rightarrow> lstate \<Rightarrow> (int \<times> lstate) outcome" where
  "host_list mem reply_fd st =
     andthen (format_listeners None st) (\<lambda>(buffer_size, _).
     andthen (format_listeners (Some (mem (buffer_size + 1))) st) (\<lambda>(_, buffer).
     andthen (on_lw (writex reply_fd (bytes_of (take 8 (''OKAY'' @ hex_04 buffer_size)))) st) (\<lambda>(_, st1).
     andthen (on_lw (writex reply_fd (take buffer_size (the buffer))) st1) (\<lambda>(_, st2). Inr (0, st2)))))"

definition reply_fail :: "int \<Rightarrow> string \<Rightarrow> lstate \<Rightarrow> (int \<times> lstate) outcome" where
  "reply_fail reply_fd reason st = andthen (on_lw (sendfailmsg reply_fd reason) st) (\<lambda>(_, st1). Inr (0, st1))"

text \<open>The local and the remote name of a forward request: \<open>Inl\<close> is a malformed one.\<close>

definition forward_names :: "bool \<Rightarrow> string \<Rightarrow> unit + string \<times> string" where
  "forward_names create nms = (case strchr nms (CHR '';'') of
       None \<Rightarrow> if create \<or> nms = [] then Inl () else Inr (nms, [])
     | Some r \<Rightarrow>
         if create then
           let loc = before_chr nms (CHR '';''); rem = tl r in
           if loc = [] \<or> rem = [] \<or> hd rem = CHR ''*'' then Inl () else Inr (loc, rem)
         else Inr (nms, []))"

definition host_forward :: "string \<Rightarrow> transport_type \<Rightarrow> string option \<Rightarrow> int \<Rightarrow> lstate \<Rightarrow> (int \<times> lstate) outcome" where
  "host_forward service ttype wanted reply_fd st =
    (let create = \<not> starts_with ''kill'' service;
         nms0 = tl (the (strchr service (CHR '':'')));
         no_rebind = (create \<and> starts_with ''norebind:'' nms0);
         nms = (if no_rebind then tl (the (strchr nms0 (CHR '':''))) else nms0)
     in case forward_names create nms of
          Inl _ \<Rightarrow> reply_fail reply_fd ''malformed forward spec'' st
        | Inr (loc, rem) \<Rightarrow>
            (case acquire_one_transport CS_ANY ttype wanted [transports_now (ld st)] of
               None \<Rightarrow> Inl Blocked
             | Some (Inl err) \<Rightarrow> reply_fail reply_fd err st
             | Some (Inr t) \<Rightarrow>
                 andthen (if create then install_listener loc rem t no_rebind st else remove_listener loc t st) (\<lambda>(r, st1).
                   if r = 0 then andthen (on_lw (writex reply_fd (bytes_of ''OKAYOKAY'')) st1) (\<lambda>(_, st2). Inr (0, st2))
                   else if create then
                     reply_fail reply_fd (if r = INSTALL_STATUS_CANNOT_BIND then ''cannot bind to socket''
                       else if r = INSTALL_STATUS_CANNOT_REBIND then ''cannot rebind existing socket'' else ''internal error'') st1
                   else reply_fail reply_fd ''cannot remove listener'' st1)))"

definition host_get_state :: "transport_type \<Rightarrow> string option \<Rightarrow> int \<Rightarrow> lstate \<Rightarrow> (int \<times> lstate) outcome" where
  "host_get_state ttype wanted reply_fd st =
    (case acquire_one_transport CS_ANY ttype wanted [transports_now (ld st)] of
       None \<Rightarrow> Inl Blocked
     | Some r \<Rightarrow>
         let state = connection_state_name (case r of Inl _ \<Rightarrow> None | Inr t \<Rightarrow> trans (ld st) t) in
         andthen (on_lw (writex reply_fd (bytes_of (''OKAY'' @ hex_04 (length state) @ state))) st) (\<lambda>(_, st1). Inr (0, st1)))"

definition handle_host_request ::
  "(nat \<Rightarrow> bytes) \<Rightarrow> string \<Rightarrow> transport_type \<Rightarrow> string option \<Rightarrow> int \<Rightarrow> lstate \<Rightarrow> (int \<times> lstate) outcome" where
  "handle_host_request mem service ttype wanted reply_fd st =
    (if service = ''kill'' then andthen (on_lw (adb_write reply_fd (bytes_of ''OKAY'')) st) (\<lambda>_. Inl (Exit 0))
     else if service = ''list-forward'' then host_list mem reply_fd st
     else if service = ''killforward-all'' then
       andthen (remove_all_listeners st) (\<lambda>st1.
       andthen (on_lw (adb_write reply_fd (bytes_of ''OKAYOKAY'')) st1) (\<lambda>(_, st2). Inr (0, st2)))
     else if starts_with ''forward:'' service \<or> starts_with ''killforward:'' service then host_forward service ttype wanted reply_fd st
     else if starts_with ''get-state'' service then host_get_state ttype wanted reply_fd st
     else Inr (-1, st))"

section \<open>The table of forwards\<close>

text \<open>What the listeners are for: a map from the name a client connects to, to the service and the
  transport it is connected with. This is the specification of the requests that change it. A request is
  answered by a status; a target that starts with a star cannot be replaced.\<close>

type_synonym forwards = "string \<rightharpoonup> string \<times> addr"

datatype forward_request =
    Install string string addr bool \<comment> \<open>name, target, transport, no_rebind\<close>
  | Remove string addr
  | RemoveAll

inductive fwd_step :: "forward_request \<Rightarrow> int \<Rightarrow> forwards \<Rightarrow> forwards \<Rightarrow> bool" where
  fwd_new: "m n = None \<Longrightarrow> fwd_step (Install n d t nr) 0 m (m(n \<mapsto> (d, t)))"
| fwd_no_bind: "m n = None \<Longrightarrow> fwd_step (Install n d t nr) (-2) m m"
| fwd_protected: "m n = Some (d', t') \<Longrightarrow> starts_with ''*'' d' \<Longrightarrow> fwd_step (Install n d t nr) (-1) m m"
| fwd_no_rebind: "m n = Some (d', t') \<Longrightarrow> \<not> starts_with ''*'' d' \<Longrightarrow> fwd_step (Install n d t True) (-3) m m"
| fwd_rebind: "m n = Some (d', t') \<Longrightarrow> \<not> starts_with ''*'' d' \<Longrightarrow> fwd_step (Install n d t False) 0 m (m(n \<mapsto> (d, t)))"
| fwd_remove: "m n \<noteq> None \<Longrightarrow> fwd_step (Remove n t) 0 m (m(n := None))"
| fwd_absent: "m n = None \<Longrightarrow> fwd_step (Remove n t) (-1) m m"
| fwd_clear: "fwd_step RemoveAll 0 m (\<lambda>n. case m n of Some (d, t) \<Rightarrow> if starts_with ''*'' d then Some (d, t) else None | None \<Rightarrow> None)"

inductive fwd_steps :: "forward_request list \<Rightarrow> int list \<Rightarrow> forwards \<Rightarrow> forwards \<Rightarrow> bool" where
  fwd_nil: "fwd_steps [] [] m m"
| fwd_cons: "fwd_step r i m m1 \<Longrightarrow> fwd_steps rs is m1 m2 \<Longrightarrow> fwd_steps (r # rs) (i # is) m m2"

inductive_cases fwd_steps_ConsE: "fwd_steps (r # rs) is m m'"

text \<open>A service of the daemon stays until a request names it.\<close>

lemma fwd_starred_stays:
  assumes "fwd_steps rs is m m'" and "m n = Some (d, t)" and "starts_with ''*'' d" and "\<forall>u. Remove n u \<notin> set rs"
  shows "m' n = Some (d, t)"
  using assms
proof (induction rule: fwd_steps.induct)
  case (fwd_cons r i m m1 rs "is" m2)
  have "m1 n = Some (d, t)" using fwd_cons.hyps(1) fwd_cons.prems
    by (cases rule: fwd_step.cases) (auto simp: fun_upd_def)
  with fwd_cons show ?case by simp
qed

text \<open>The code as a function of such requests.\<close>

fun run_request :: "forward_request \<Rightarrow> lstate \<Rightarrow> (int \<times> lstate) outcome" where
  "run_request (Install n d t nr) st = install_listener n d t nr st"
| "run_request (Remove n t) st = remove_listener n t st"
| "run_request RemoveAll st = andthen (remove_all_listeners st) (\<lambda>st1. Inr (0, st1))"

fun run_requests :: "(forward_request \<Rightarrow> 's \<Rightarrow> (int \<times> 's) outcome) \<Rightarrow> forward_request list \<Rightarrow> 's \<Rightarrow> (int list \<times> 's) outcome" where
  "run_requests step [] st = Inr ([], st)"
| "run_requests step (r # rs) st = andthen (step r st) (\<lambda>(i, st1).
     andthen (run_requests step rs st1) (\<lambda>(is, st2). Inr (i # is, st2)))"

text \<open>The contract of a table: each request is a step of the specification.\<close>

locale forward_table =
  fixes ok :: "'s \<Rightarrow> bool" and table :: "'s \<Rightarrow> forwards" and step :: "forward_request \<Rightarrow> 's \<Rightarrow> (int \<times> 's) outcome"
  assumes simulates: "ok st \<Longrightarrow> step r st = Inr (i, st') \<Longrightarrow> ok st' \<and> fwd_step r i (table st) (table st')"
begin

lemma runs_simulate:
  assumes "ok st" and "run_requests step rs st = Inr (is, st')"
  shows "ok st' \<and> fwd_steps rs is (table st) (table st')"
  using assms
proof (induction rs arbitrary: st "is")
  case Nil
  then show ?case by (auto intro: fwd_nil)
next
  case (Cons r rs)
  then obtain i st1 js where "step r st = Inr (i, st1)" "run_requests step rs st1 = Inr (js, st')" "is = i # js"
    by (auto simp: andthen_Inr_iff)
  with Cons simulates show ?case by (blast intro: fwd_cons)
qed

lemma starred_stays:
  assumes "ok st" and "run_requests step rs st = Inr (is, st')" and "table st n = Some (d, t)" and "starts_with ''*'' d"
    and "\<forall>u. Remove n u \<notin> set rs"
  shows "table st' n = Some (d, t)"
  using runs_simulate [OF assms(1,2)] fwd_starred_stays assms(3-5) by blast

end

section \<open>The listeners implement the table\<close>

definition lst :: "lstate \<Rightarrow> addr \<Rightarrow> alistener" where
  "lst st a = the (lsts st a)"

definition entry :: "lstate \<Rightarrow> addr \<Rightarrow> string \<times> string \<times> addr" where
  "entry st a = (local_name (lst st a), connect_to (lst st a), l_transport (lst st a))"

definition forward_map :: "lstate \<Rightarrow> forwards" where
  "forward_map st = map_of (map (entry st) (llist st))"

definition listed_ok :: "lstate \<Rightarrow> bool" where
  "listed_ok st \<longleftrightarrow> distinct (map (fst \<circ> entry st) (llist st)) \<and> 0 < fresh (ld st) \<and>
     (\<forall>a \<in> set (llist st). a \<noteq> 0 \<and> a < fresh (ld st) \<and> lsts st a \<noteq> None)"

lemma get_lst_listed: "listed_ok st \<Longrightarrow> a \<in> set (llist st) \<Longrightarrow> get_lst a st = Inr (lst st a)"
  by (auto simp: listed_ok_def get_lst_def lst_def)

lemma listed_distinct: "listed_ok st \<Longrightarrow> distinct (llist st)"
  by (simp add: listed_ok_def distinct_map)

lemma find_listener_spec:
  assumes "listed_ok st" and "set as \<subseteq> set (llist st)"
  shows "find_listener n as st = Inr (find (\<lambda>a. local_name (lst st a) = n) as)"
  using assms(2) by (induction as) (simp_all add: get_lst_listed [OF assms(1)])

lemma map_of_remove1:
  assumes "distinct (map (fst \<circ> e) xs)" and "a \<in> set xs"
  shows "map_of (map e (remove1 a xs)) = (map_of (map e xs))(fst (e a) := None)"
  using assms
proof (induction xs)
  case (Cons x xs)
  show ?case
  proof (cases "x = a")
    case True
    then have "fst (e a) \<notin> dom (map_of (map e xs))" using Cons.prems(1) by (auto simp: dom_map_of_conv_image_fst)
    with True show ?thesis by (cases "e a") (auto simp: fun_upd_idem)
  next
    case False
    with Cons have "fst (e x) \<noteq> fst (e a)" by auto
    with False Cons show ?thesis by (cases "e x") (auto simp: fun_upd_twist)
  qed
qed simp

lemma map_of_replace:
  assumes "distinct (map (fst \<circ> e) xs)" and "a \<in> set xs" and "fst (e' a) = fst (e a)" and "\<And>b. b \<noteq> a \<Longrightarrow> e' b = e b"
  shows "map_of (map e' xs) = (map_of (map e xs))(fst (e a) \<mapsto> snd (e' a))"
  using assms(1,2)
proof (induction xs)
  case (Cons x xs)
  show ?case
  proof (cases "x = a")
    case True
    then have "a \<notin> set xs" using Cons.prems(1) by auto
    then have "map_of (map e' xs) = map_of (map e xs)" using assms(4) by (metis map_cong)
    with True assms(3) show ?thesis by (cases "e' a"; cases "e a") (simp add: fun_eq_iff)
  next
    case False
    with Cons have "fst (e x) \<noteq> fst (e a)" by auto
    with False Cons assms(4) [OF False] show ?thesis by (cases "e x") (auto simp: fun_upd_twist)
  qed
qed simp

lemma forward_map_find:
  "forward_map st n = map_option (\<lambda>a. snd (entry st a)) (find (\<lambda>a. local_name (lst st a) = n) (llist st))"
proof -
  have "map_of (map (entry st) as) n = map_option (\<lambda>a. snd (entry st a)) (find (\<lambda>a. local_name (lst st a) = n) as)" for as
    by (induction as) (auto simp: entry_def)
  then show ?thesis by (simp add: forward_map_def)
qed

text \<open>Freeing one of them.\<close>

lemma free_listener_table:
  assumes ok: "listed_ok st" and a: "a \<in> set (llist st)" and f: "free_listener a st = Inr st'"
  shows "listed_ok st'" and "forward_map st' = (forward_map st)(local_name (lst st a) := None)"
    and "llist st' = remove1 a (llist st)" and "\<And>b. b \<noteq> a \<Longrightarrow> lst st' b = lst st b"
proof -
  have dist: "distinct (llist st)" "distinct (map (fst \<circ> entry st) (llist st))" using ok listed_distinct by (auto simp: listed_ok_def)
  have st': "llist st' = remove1 a (llist st)" "lsts st' = (lsts st)(a := None)" "fresh (ld st') = fresh (ld st)"
    using f get_lst_listed [OF ok a]
    by (auto simp: free_listener_def on_ld_def on_evl_def andthen_Inr_iff Let_def drop_disconnect_def split: if_splits)
  have same: "lst st' b = lst st b" if "b \<noteq> a" for b using that st'(2) by (simp add: lst_def)
  then have e: "entry st' b = entry st b" if "b \<noteq> a" for b using that by (simp add: entry_def)
  have "a \<notin> set (remove1 a (llist st))" using dist(1) by simp
  then have m: "map (entry st') (remove1 a (llist st)) = map (entry st) (remove1 a (llist st))" using e by (metis map_cong)
  then show "forward_map st' = (forward_map st)(local_name (lst st a) := None)"
    using map_of_remove1 [OF dist(2) a] unfolding forward_map_def st'(1) m by (simp add: entry_def)
  have "distinct (map (fst \<circ> entry st) (remove1 a (llist st)))"
    using dist by (simp add: distinct_map inj_on_def)
  then have "distinct (map (fst \<circ> entry st') (llist st'))" using m st'(1) by (metis map_map)
  with ok dist(1) show "listed_ok st'" by (auto simp: listed_ok_def st' dest: in_set_remove1 [THEN iffD1, rotated])
  show "llist st' = remove1 a (llist st)" by (rule st'(1))
  show "\<And>b. b \<noteq> a \<Longrightarrow> lst st' b = lst st b" by (rule same)
qed

lemma found_listener:
  assumes ok: "listed_ok st" and f: "find (\<lambda>a. local_name (lst st a) = n) (llist st) = Some a"
  shows "a \<in> set (llist st)" and "local_name (lst st a) = n" and "forward_map st n = Some (connect_to (lst st a), l_transport (lst st a))"
  using f forward_map_find [of st n] by (auto simp: find_Some_iff entry_def)

lemma remove_listener_table:
  assumes ok: "listed_ok st" and r: "remove_listener n t st = Inr (i, st')"
  shows "listed_ok st' \<and> fwd_step (Remove n t) i (forward_map st) (forward_map st')"
proof (cases "find (\<lambda>a. local_name (lst st a) = n) (llist st)")
  case None
  with r ok have "st' = st" "i = -1" by (auto simp: remove_listener_def find_listener_spec)
  moreover have "forward_map st n = None" using None forward_map_find [of st n] by simp
  ultimately show ?thesis using ok by (auto intro: fwd_absent)
next
  case (Some a)
  note a = found_listener [OF ok Some]
  with r ok Some have "free_listener a st = Inr st'" "i = 0"
    by (auto simp: remove_listener_def find_listener_spec get_lst_listed listener_disconnect_def andthen_Inr_iff)
  with free_listener_table [OF ok a(1)] a show ?thesis by (auto intro: fwd_remove)
qed

lemma remove_listeners_table:
  assumes "listed_ok st" and "set as \<subseteq> set (llist st)" and "distinct as" and "remove_listeners as st = Inr st'"
  shows "listed_ok st' \<and> forward_map st' = (\<lambda>n. case forward_map st n of None \<Rightarrow> None
    | Some v \<Rightarrow> if (\<exists>a \<in> set as. local_name (lst st a) = n) \<and> \<not> starts_with ''*'' (fst v) then None else Some v)"
  using assms
proof (induction as arbitrary: st)
  case Nil
  then show ?case by (auto split: option.split)
next
  case (Cons a as)
  have a: "a \<in> set (llist st)" "get_lst a st = Inr (lst st a)" using Cons.prems get_lst_listed by auto
  have only: "lst st b = lst st a" if "b \<in> set (llist st)" "local_name (lst st b) = local_name (lst st a)" for b
    using Cons.prems(1) that a(1) unfolding listed_ok_def by (auto simp: distinct_map inj_on_def entry_def)
  have val: "forward_map st (local_name (lst st a)) = Some (connect_to (lst st a), l_transport (lst st a))"
  proof -
    have "find (\<lambda>b. local_name (lst st b) = local_name (lst st a)) (llist st) \<noteq> None" using a(1) by (auto simp: find_None_iff)
    then obtain b where b: "find (\<lambda>b. local_name (lst st b) = local_name (lst st a)) (llist st) = Some b" by auto
    with found_listener [OF Cons.prems(1) b] only [of b] show ?thesis by simp
  qed
  show ?case
  proof (cases "starred (lst st a)")
    case True
    then have "remove_listeners as st = Inr st'" using Cons.prems(4) a(2) by simp
    from Cons.IH [OF Cons.prems(1) _ _ this] Cons.prems(2,3) True val show ?thesis
      by (auto simp: starred_def fun_eq_iff split: option.split)
  next
    case False
    then obtain st1 where st1: "free_listener a st = Inr st1" "remove_listeners as st1 = Inr st'"
      using Cons.prems(4) a(2) by (auto simp: listener_disconnect_def andthen_Inr_iff)
    note t = free_listener_table [OF Cons.prems(1) a(1) st1(1)]
    have sub: "set as \<subseteq> set (llist st1)" "distinct as" using Cons.prems(2,3) listed_distinct [OF Cons.prems(1)] by (auto simp: t(3))
    have "lst st1 b = lst st b" if "b \<in> set as" for b using that Cons.prems(3) t(4) [of b] by auto
    with Cons.IH [OF t(1) sub st1(2)] t(2) val False show ?thesis
      by (auto simp: starred_def fun_eq_iff split: option.split)
  qed
qed

lemma remove_all_table:
  assumes ok: "listed_ok st" and r: "remove_all_listeners st = Inr st'"
  shows "listed_ok st' \<and> fwd_step RemoveAll 0 (forward_map st) (forward_map st')"
proof -
  have t: "listed_ok st'" "forward_map st' = (\<lambda>n. case forward_map st n of None \<Rightarrow> None
    | Some v \<Rightarrow> if (\<exists>a \<in> set (llist st). local_name (lst st a) = n) \<and> \<not> starts_with ''*'' (fst v) then None else Some v)"
    using remove_listeners_table [OF ok subset_refl listed_distinct [OF ok]] r by (auto simp: remove_all_listeners_def)
  have named: "\<exists>a \<in> set (llist st). local_name (lst st a) = n" if "forward_map st n = Some v" for n v
  proof -
    from that forward_map_find [of st n] obtain a where "find (\<lambda>a. local_name (lst st a) = n) (llist st) = Some a" by auto
    from found_listener [OF ok this] show ?thesis by blast
  qed
  have "forward_map st' = (\<lambda>n. case forward_map st n of Some (d, t) \<Rightarrow> if starts_with ''*'' d then Some (d, t) else None | None \<Rightarrow> None)"
  proof
    fix n
    show "forward_map st' n = (case forward_map st n of Some (d, t) \<Rightarrow> if starts_with ''*'' d then Some (d, t) else None | None \<Rightarrow> None)"
    proof (cases "forward_map st n")
      case (Some v)
      with named [OF Some] show ?thesis by (cases v) (simp add: t(2))
    qed (simp add: t(2))
  qed
  then show ?thesis using t(1) fwd_clear [of "forward_map st"] by simp
qed

text \<open>Installing one. The address of a new listener is not in the list yet.\<close>

lemma on_lw_ok: "on_lw f st = Inr (r, st') \<Longrightarrow> lsts st' = lsts st \<and> llist st' = llist st \<and> fresh (ld st') = fresh (ld st)"
  by (auto simp: on_lw_def andthen_Inr_iff)

lemma on_evl_ok: "on_ld (on_evl f) st = Inr st' \<Longrightarrow> lsts st' = lsts st \<and> llist st' = llist st \<and> fresh (ld st') = fresh (ld st)"
  by (auto simp: on_ld_def on_evl_def andthen_Inr_iff)

lemma add_disconnect_ok:
  "on_ld (add_disconnect t a) st = Inr st' \<Longrightarrow> lsts st' = lsts st \<and> llist st' = llist st \<and> fresh (ld st') = fresh (ld st)"
  by (auto simp: on_ld_def add_disconnect_def andthen_Inr_iff split: if_splits option.splits)

lemma same_table:
  assumes "lsts st' = lsts st" and "llist st' = llist st"
  shows "forward_map st' = forward_map st" and "fresh (ld st) \<le> fresh (ld st') \<Longrightarrow> listed_ok st \<Longrightarrow> listed_ok st'"
proof -
  have e: "entry st' = entry st" using assms by (auto simp: entry_def lst_def fun_eq_iff)
  then show "forward_map st' = forward_map st" using assms by (simp add: forward_map_def)
  show "listed_ok st'" if "fresh (ld st) \<le> fresh (ld st')" "listed_ok st"
    using that e assms by (auto simp: listed_ok_def)
qed

lemma replaced_table:
  assumes ok: "listed_ok st" and a: "a \<in> set (llist st)"
    and s: "lsts st' = (lsts st)(a \<mapsto> l)" "llist st' = llist st" "fresh (ld st') = fresh (ld st)" "local_name l = local_name (lst st a)"
  shows "listed_ok st'" and "forward_map st' = (forward_map st)(local_name l \<mapsto> (connect_to l, l_transport l))"
proof -
  have e: "entry st' a = (local_name l, connect_to l, l_transport l)" "\<And>b. b \<noteq> a \<Longrightarrow> entry st' b = entry st b"
    using s by (simp_all add: entry_def lst_def)
  have "fst (entry st' b) = fst (entry st b)" for b using e s(4) by (cases "b = a") (simp_all add: entry_def)
  then have f: "fst \<circ> entry st' = fst \<circ> entry st" by (simp add: fun_eq_iff)
  then show "listed_ok st'" using ok s(1-3) unfolding listed_ok_def by auto
  show "forward_map st' = (forward_map st)(local_name l \<mapsto> (connect_to l, l_transport l))"
    using map_of_replace [of "entry st" "llist st" a "entry st'"] ok a e s
    by (simp add: listed_ok_def forward_map_def entry_def)
qed

lemma map_of_snoc: "k \<notin> fst ` set xs \<Longrightarrow> map_of (xs @ [(k, v)]) = (map_of xs)(k \<mapsto> v)"
  by (induction xs) (auto simp: fun_upd_twist)

lemma appended_table:
  assumes ok: "listed_ok st" and new: "forward_map st (local_name l) = None"
    and s: "lsts st' = (lsts st)(fresh (ld st) \<mapsto> l)" "llist st' = llist st @ [fresh (ld st)]" "fresh (ld st') = fresh (ld st) + 1"
  shows "listed_ok st'" and "forward_map st' = (forward_map st)(local_name l \<mapsto> (connect_to l, l_transport l))"
proof -
  let ?a = "fresh (ld st)"
  have e: "entry st' ?a = (local_name l, connect_to l, l_transport l)" "\<And>b. b \<in> set (llist st) \<Longrightarrow> entry st' b = entry st b"
    using s ok by (auto simp: entry_def lst_def listed_ok_def)
  then have m: "map (entry st') (llist st) = map (entry st) (llist st)" by simp
  have n: "local_name l \<notin> fst ` entry st ` set (llist st)"
    using new by (auto simp: forward_map_def map_of_eq_None_iff)
  have "distinct (map fst (map (entry st') (llist st')))" using ok n e(1) unfolding s(2) by (simp add: m listed_ok_def image_comp)
  then show "listed_ok st'" using ok s by (auto simp: listed_ok_def less_Suc_eq)
  show "forward_map st' = (forward_map st)(local_name l \<mapsto> (connect_to l, l_transport l))"
    using map_of_snoc [of "local_name l" "map (entry st) (llist st)"] n by (simp add: forward_map_def s(2) m e(1))
qed

lemma rebind_table:
  assumes ok: "listed_ok st" and a: "a \<in> set (llist st)" and r: "rebind_listener a (lst st a) d t st = Inr (i, st')"
  shows "listed_ok st' \<and> i = 0 \<and> forward_map st' = (forward_map st)(local_name (lst st a) \<mapsto> (d, t))"
proof -
  have "i = 0 \<and> lsts st' = (lsts st)(a \<mapsto> (lst st a)\<lparr>connect_to := d, l_transport := t\<rparr>) \<and> llist st' = llist st \<and> fresh (ld st') = fresh (ld st)"
  proof (cases "l_transport (lst st a) = t")
    case True
    with r have "i = 0" "st' = st\<lparr>lsts := (lsts st)(a \<mapsto> (lst st a)\<lparr>connect_to := d\<rparr>)\<rparr>"
      by (simp_all add: rebind_listener_def install_status_defs)
    moreover have "(lst st a)\<lparr>connect_to := d, l_transport := t\<rparr> = (lst st a)\<lparr>connect_to := d\<rparr>" using True by simp
    ultimately show ?thesis by simp
  next
    case False
    with r show ?thesis
      by (auto simp: rebind_listener_def install_status_defs Let_def andthen_Inr_iff drop_disconnect_def
          dest!: add_disconnect_ok split: if_splits)
  qed
  with replaced_table [OF ok a, of st' "(lst st a)\<lparr>connect_to := d, l_transport := t\<rparr>"] show ?thesis by simp
qed

lemma new_table:
  assumes ok: "listed_ok st" and new: "forward_map st n = None" and r: "new_listener n d t st = Inr (i, st')"
  shows "listed_ok st' \<and> (i = -2 \<and> forward_map st' = forward_map st \<or> i = 0 \<and> forward_map st' = (forward_map st)(n \<mapsto> (d, t)))"
proof -
  let ?a = "fresh (ld st)"
  let ?st0 = "st\<lparr>ld := (ld st)\<lparr>fresh := ?a + 1\<rparr>\<rparr>"
  obtain fd st1 where st1: "on_lw (local_name_to_fd (gListenAll st) n) ?st0 = Inr (fd, st1)"
    using r by (auto simp: new_listener_def Let_def andthen_Inr_iff)
  note s1 = on_lw_ok [OF st1]
  show ?thesis
  proof (cases "fd < 0")
    case True
    then have "i = -2" "st' = st1" using r st1 by (simp_all add: new_listener_def Let_def install_status_defs)
    with same_table [of st1 st] s1 ok show ?thesis by simp
  next
    case False
    let ?l = "\<lparr>l_fd = fd, local_name = n, connect_to = d, l_transport = t\<rparr>"
    have "i = 0 \<and> lsts st' = (lsts st)(?a \<mapsto> ?l) \<and> llist st' = llist st @ [?a] \<and> fresh (ld st') = ?a + 1"
      using False r st1 s1
      by (auto simp: new_listener_def Let_def install_status_defs andthen_Inr_iff
          dest!: on_evl_ok add_disconnect_ok split: if_splits)
    with appended_table [OF ok, of ?l st'] new show ?thesis by simp
  qed
qed

lemma install_table:
  assumes ok: "listed_ok st" and r: "install_listener n d t nr st = Inr (i, st')"
  shows "listed_ok st' \<and> fwd_step (Install n d t nr) i (forward_map st) (forward_map st')"
proof (cases "find (\<lambda>a. local_name (lst st a) = n) (llist st)")
  case None
  then have m: "forward_map st n = None" using forward_map_find [of st n] by simp
  from None r ok have "new_listener n d t st = Inr (i, st')" by (simp add: install_listener_def find_listener_spec)
  from new_table [OF ok m this] m show ?thesis by (auto intro: fwd_new fwd_no_bind)
next
  case (Some a)
  note a = found_listener [OF ok Some]
  have r1: "(if starred (lst st a) then Inr (-1, st) else if nr then Inr (-3, st) else rebind_listener a (lst st a) d t st) = Inr (i, st')"
    using r Some ok a(1) unfolding install_listener_def install_status_defs by (simp add: find_listener_spec get_lst_listed)
  consider "starred (lst st a)" | "\<not> starred (lst st a)" nr | "\<not> starred (lst st a)" "\<not> nr" by blast
  then show ?thesis
  proof cases
    case 3
    with r1 rebind_table [OF ok a(1)] have "listed_ok st'" "i = 0" "forward_map st' = (forward_map st)(n \<mapsto> (d, t))"
      by (simp_all add: a(2))
    with 3 a(3) show ?thesis by (auto simp: starred_def intro: fwd_rebind)
  qed (use r1 ok a(3) in \<open>auto simp: starred_def intro: fwd_protected fwd_no_rebind\<close>)
qed

interpretation listeners: forward_table listed_ok forward_map run_request
proof unfold_locales
  fix st r i st'
  assume ok: "listed_ok st" and run: "run_request r st = Inr (i, st')"
  show "listed_ok st' \<and> fwd_step r i (forward_map st) (forward_map st')"
  proof (cases r)
    case (Install n d t nr)
    with install_table [OF ok] run show ?thesis by simp
  next
    case (Remove n t)
    with remove_listener_table [OF ok] run show ?thesis by simp
  next
    case RemoveAll
    with run have "remove_all_listeners st = Inr st'" "i = 0" by (auto simp: andthen_Inr_iff)
    with RemoveAll remove_all_table [OF ok] show ?thesis by simp
  qed
qed

section \<open>Removal returns, and closes what it removes\<close>

text \<open>Each listener of the list is watched by the event loop, under its own address.\<close>

definition watched :: "lstate \<Rightarrow> bool" where
  "watched st \<longleftrightarrow> (\<exists>pend. loop_inv (evl (ld st)) pend) \<and>
     (\<forall>a \<in> set (llist st). active (fde_state (fdes (evl (ld st)) a)) \<and> fde_fd (fdes (evl (ld st)) a) = l_fd (lst st a))"

abbreviation closed_fds :: "lstate \<Rightarrow> int list" where
  "closed_fds st \<equiv> closed (evl (ld st))"

lemma free_listener_returns:
  assumes ok: "listed_ok st" and w: "watched st" and a: "a \<in> set (llist st)"
  obtains st' where "free_listener a st = Inr st'" and "watched st'" and "closed_fds st' = closed_fds st @ [l_fd (lst st a)]"
    and "wld (ld st') = wld (ld st)"
proof -
  obtain pend where inv: "loop_inv (evl (ld st)) pend" and act: "active (fde_state (fdes (evl (ld st)) a))"
    and fd: "fde_fd (fdes (evl (ld st)) a) = l_fd (lst st a)" using w a by (auto simp: watched_def)
  from fdevent_remove_promise [OF inv act] obtain l' pend' where r: "fdevent_remove a (evl (ld st)) = Inr l'" "loop_inv l' pend'"
    "loop_frame a (evl (ld st)) l'" "closed l' = closed (evl (ld st)) @ [l_fd (lst st a)]" using fd by metis
  let ?s1 = "st\<lparr>llist := remove1 a (llist st), ld := (ld st)\<lparr>evl := l'\<rparr>\<rparr>"
  define st' where "st' = (if l_transport (lst st a) \<noteq> 0 then ?s1\<lparr>ld := drop_disconnect (l_transport (lst st a)) a (ld ?s1)\<rparr> else ?s1)
    \<lparr>lsts := (lsts st)(a := None)\<rparr>"
  have f: "free_listener a st = Inr st'"
    using r(1) get_lst_listed [OF ok a] by (simp add: free_listener_def on_ld_def on_evl_def st'_def Let_def)
  have e: "evl (ld st') = l'" "llist st' = remove1 a (llist st)" by (simp_all add: st'_def drop_disconnect_def)
  have "b \<noteq> a \<and> b \<in> set (llist st)" if "b \<in> set (llist st')" for b
    using that listed_distinct [OF ok] by (simp add: e(2))
  moreover have "fdes l' b = fdes (evl (ld st)) b" "lst st' b = lst st b" if "b \<noteq> a" for b
    using that r(3) free_listener_table(4) [OF ok a f] by (simp_all add: loop_frame_def)
  ultimately have "watched st'" using w r(2) unfolding watched_def e(1) by auto
  moreover have "wld (ld st') = wld (ld st)" by (simp add: st'_def drop_disconnect_def)
  ultimately show ?thesis using that f r(4) by (simp add: e(1))
qed

lemma remove_listeners_returns:
  assumes "listed_ok st" and "watched st" and "set as \<subseteq> set (llist st)" and "distinct as"
  shows "\<exists>st'. remove_listeners as st = Inr st' \<and> watched st' \<and> wld (ld st') = wld (ld st) \<and>
    closed_fds st' = closed_fds st @ map (\<lambda>a. l_fd (lst st a)) (filter (\<lambda>a. \<not> starred (lst st a)) as) \<and>
    llist st' = filter (\<lambda>a. a \<in> set as \<longrightarrow> starred (lst st a)) (llist st)"
  using assms
proof (induction as arbitrary: st)
  case (Cons a as)
  have a: "a \<in> set (llist st)" "get_lst a st = Inr (lst st a)" using Cons.prems get_lst_listed by auto
  show ?case
  proof (cases "starred (lst st a)")
    case True
    moreover have "(b \<in> set (a # as) \<longrightarrow> starred (lst st b)) = (b \<in> set as \<longrightarrow> starred (lst st b))" for b using True by auto
    ultimately show ?thesis using Cons.IH [OF Cons.prems(1,2)] Cons.prems(3,4) a(2) by simp
  next
    case False
    obtain st1 where st1: "free_listener a st = Inr st1" "watched st1" "closed_fds st1 = closed_fds st @ [l_fd (lst st a)]"
      "wld (ld st1) = wld (ld st)" using free_listener_returns [OF Cons.prems(1,2) a(1)] by blast
    note t = free_listener_table [OF Cons.prems(1) a(1) st1(1)]
    have "set as \<subseteq> set (llist st1)" "distinct as" using Cons.prems(3,4) listed_distinct [OF Cons.prems(1)] by (auto simp: t(3))
    from Cons.IH [OF t(1) st1(2) this] obtain st' where st': "remove_listeners as st1 = Inr st'" "watched st'"
      "closed_fds st' = closed_fds st1 @ map (\<lambda>a. l_fd (lst st1 a)) (filter (\<lambda>a. \<not> starred (lst st1 a)) as)"
      "llist st' = filter (\<lambda>a. a \<in> set as \<longrightarrow> starred (lst st1 a)) (llist st1)" "wld (ld st') = wld (ld st1)" by blast
    have same: "lst st1 b = lst st b" if "b \<in> set as" for b using that Cons.prems(4) t(4) [of b] by auto
    have "llist st' = filter (\<lambda>b. b \<in> set (a # as) \<longrightarrow> starred (lst st b)) (llist st)"
      using False same Cons.prems(4) unfolding st'(4) t(3) distinct_remove1_removeAll [OF listed_distinct [OF Cons.prems(1)]] removeAll_filter_not_eq
      by (auto simp: filter_filter intro!: filter_cong)
    moreover have "map (\<lambda>a. l_fd (lst st1 a)) (filter (\<lambda>a. \<not> starred (lst st1 a)) as) = map (\<lambda>a. l_fd (lst st a)) (filter (\<lambda>a. \<not> starred (lst st a)) as)"
      using same by (auto intro!: map_cong filter_cong)
    ultimately show ?thesis using False a(2) st1(1,3,4) st'(1,2,3,5) by (auto simp: listener_disconnect_def)
  qed
qed simp

section \<open>The listing is complete\<close>

text \<open>The text of the listing: a line for each listener of the list that is not a service of the daemon.\<close>

definition serial_of :: "lstate \<Rightarrow> addr \<Rightarrow> string" where
  "serial_of st a = the (serial (the (trans (ld st) (l_transport (lst st a)))))"

definition listing :: "lstate \<Rightarrow> addr list \<Rightarrow> string" where
  "listing st as = concat (map (\<lambda>a. listener_line (lst st a) (serial_of st a)) (filter (\<lambda>a. \<not> starred (lst st a)) as))"

text \<open>Such a listener has a transport with a serial number.\<close>

definition named_ok :: "lstate \<Rightarrow> bool" where
  "named_ok st \<longleftrightarrow> (\<forall>a \<in> set (llist st). \<not> starred (lst st a) \<longrightarrow> l_transport (lst st a) \<noteq> 0 \<and>
     (\<exists>x sn. trans (ld st) (l_transport (lst st a)) = Some x \<and> serial x = Some sn))"

lemma listing_simps [simp]:
  "listing st [] = []"
  "starred (lst st a) \<Longrightarrow> listing st (a # as) = listing st as"
  "\<not> starred (lst st a) \<Longrightarrow> listing st (a # as) = listener_line (lst st a) (serial_of st a) @ listing st as"
  by (simp_all add: listing_def)

lemma length_listener_line: "length (listener_line l sn) = length (local_name l) + length (connect_to l) + length sn + 3"
  by (simp add: listener_line_def)

lemma format_listener_eq:
  assumes "listed_ok st" and "named_ok st" and "a \<in> set (llist st)" and "\<not> starred (lst st a)"
  shows "format_listener (lst st a) dest st =
    (let line = listener_line (lst st a) (serial_of st a) in case dest of
       None \<Rightarrow> Inr (length line, None)
     | Some (buf, pos, remaining) \<Rightarrow> andthen (snprintf_at buf pos remaining line) (\<lambda>(_, buf1). Inr (length line, Some buf1)))"
proof -
  obtain x sn where "l_transport (lst st a) \<noteq> 0" "trans (ld st) (l_transport (lst st a)) = Some x" "serial x = Some sn"
    using assms(2-4) by (auto simp: named_ok_def)
  then show ?thesis by (simp add: format_listener_def length_listener_line serial_of_def Let_def split: option.split)
qed

lemma format_size:
  assumes "listed_ok st" and "named_ok st" and "set as \<subseteq> set (llist st)"
  shows "format_loop as None result st = Inr (result + length (listing st as), None)"
  using assms(3)
proof (induction as arbitrary: result)
  case (Cons a as)
  then have "get_lst a st = Inr (lst st a)" using get_lst_listed [OF assms(1)] by simp
  with Cons show ?case
    by (cases "starred (lst st a)") (simp_all add: format_listener_eq [OF assms(1,2)] Let_def)
qed simp

lemma bytes_of_append: "bytes_of (s @ t) = bytes_of s @ bytes_of t"
  by (simp add: bytes_of_def)

lemma unat_u64: "n < 2 ^ 64 \<Longrightarrow> unat (word_of_nat n :: u64) = n"
  by (simp add: unat_of_nat take_bit_eq_mod)

lemma snprintf_fits:
  assumes "length s < unat r" and "pos + length s < length buf"
  shows "snprintf_at buf pos r s = Inr (word_of_nat (length s), take pos buf @ (bytes_of s @ [0]) @ drop (pos + length s + 1) buf)"
proof -
  have "r \<noteq> 0" "take (unat r - 1) s = s" using assms(1) by auto
  then show ?thesis using assms(2) by (simp add: snprintf_at_def Let_def)
qed

lemma format_text:
  assumes "listed_ok st" and "named_ok st" and "set as \<subseteq> set (llist st)"
    and "length buf = pos + length (listing st as) + 1" and "length (listing st as) + 1 < 2 ^ 64"
  shows "\<exists>buf'. format_loop as (Some (buf, pos, word_of_nat (length (listing st as) + 1))) result st =
      Inr (result + length (listing st as), Some buf') \<and> take (pos + length (listing st as)) buf' = take pos buf @ bytes_of (listing st as)"
  using assms(3-)
proof (induction as arbitrary: buf pos result)
  case (Cons a as)
  then have a: "a \<in> set (llist st)" "get_lst a st = Inr (lst st a)" using get_lst_listed [OF assms(1)] by auto
  show ?case
  proof (cases "starred (lst st a)")
    case True
    with Cons a show ?thesis by simp
  next
    case False
    let ?line = "listener_line (lst st a) (serial_of st a)" and ?rest = "listing st as"
    have l: "listing st (a # as) = ?line @ ?rest" using False by simp
    define buf1 where "buf1 = take pos buf @ (bytes_of ?line @ [0]) @ drop (pos + length ?line + 1) buf"
    have u: "unat (word_of_nat (length (?line @ ?rest) + 1) :: u64) = length ?line + length ?rest + 1"
      using unat_u64 [of "length (?line @ ?rest) + 1"] Cons.prems(3) unfolding l by simp
    have put: "snprintf_at buf pos (word_of_nat (length (?line @ ?rest) + 1)) ?line = Inr (word_of_nat (length ?line), buf1)"
      unfolding buf1_def by (rule snprintf_fits) (use u Cons.prems(2) l in auto)
    have b1: "length buf1 = pos + length ?line + length ?rest + 1" "take (pos + length ?line) buf1 = take pos buf @ bytes_of ?line"
      using Cons.prems(2) unfolding l buf1_def by simp_all
    have rem: "(word_of_nat (length (?line @ ?rest) + 1) :: u64) - word_of_nat (length ?line) = word_of_nat (length ?rest + 1)"
      by simp
    have pos: "\<not> (word_of_nat (length ?rest + 1) :: u64) \<le> 0"
      using unat_u64 [of "length ?rest + 1"] Cons.prems(3) unfolding l by (simp add: word_le_nat_alt)
    from Cons.IH [of buf1 "pos + length ?line" "result + length ?line"] Cons.prems(1,3) b1 l
    obtain buf' where "format_loop as (Some (buf1, pos + length ?line, word_of_nat (length ?rest + 1))) (result + length ?line) st =
        Inr (result + length ?line + length ?rest, Some buf')"
      "take (pos + length ?line + length ?rest) buf' = take pos buf @ bytes_of ?line @ bytes_of ?rest" by auto
    then show ?thesis using a(2) False put rem pos unfolding l
      by (simp add: format_listener_eq [OF assms(1,2) a(1) False] Let_def bytes_of_append add.assoc del: of_nat_add length_append)
        (simp add: add.assoc)
  qed
qed (simp add: bytes_of_def)

lemma host_list_writes:
  assumes ok: "listed_ok st" and nm: "named_ok st" and len: "length (listing st (llist st)) < 65536" and mem: "\<And>n. length (mem n) = n"
    and wr: "length (listing st (llist st)) + 8 \<le> wr_count (w_wr (wld (ld st)) fd)"
  shows "\<exists>st'. host_list mem fd st = Inr (0, st') \<and> w_out (wld (ld st')) fd = w_out (wld (ld st)) fd @
    bytes_of (''OKAY'' @ hex4 (length (listing st (llist st))) @ listing st (llist st))"
proof -
  let ?t = "listing st (llist st)" and ?w = "wld (ld st)"
  have s: "format_listeners None st = Inr (length ?t, None)" using format_size [OF ok nm] by (simp add: format_listeners_def)
  have m: "length (mem (length ?t + 1)) = length ?t + 1" by (rule mem)
  obtain buf where b: "format_listeners (Some (mem (length ?t + 1))) st = Inr (length ?t, Some buf)" "take (length ?t) buf = bytes_of ?t"
    using format_text [OF ok nm subset_refl, of "mem (length ?t + 1)" 0 0] m len by (auto simp: format_listeners_def)
  have h: "take 8 (''OKAY'' @ hex_04 (length ?t)) = ''OKAY'' @ hex4 (length ?t)" using len by (simp add: hex_04_def)
  have h8: "length (bytes_of (''OKAY'' @ hex4 (length ?t))) = 8" by simp
  obtain w1 where w1: "writex fd (bytes_of (''OKAY'' @ hex4 (length ?t))) ?w = Inr (True, w1)" "wr_count (w_wr ?w fd) \<le> wr_count (w_wr w1 fd) + 8"
    using writex_complete [of "bytes_of (''OKAY'' @ hex4 (length ?t))" ?w fd] wr h8 by fastforce
  obtain w2 where w2: "writex fd (bytes_of ?t) w1 = Inr (True, w2)" using writex_complete [of "bytes_of ?t" w1 fd] wr w1(2) by fastforce
  have "w_out w2 fd = w_out ?w fd @ bytes_of (''OKAY'' @ hex4 (length ?t) @ ?t)"
    using writex_out [OF w1(1)] writex_out [OF w2] by (auto simp: bytes_of_def)
  with s b h w1(1) w2 show ?thesis by (simp add: host_list_def on_lw_def)
qed

section \<open>Properties\<close>

text \<open>C10: the port forwards refine a map. Whatever sequence of requests to install (with or without
  permission to rebind), to remove, and to remove all forwards is run, each request answered is a step of the
  abstract table: a new name is added or the bind fails, a name of the daemon's own service is refused, an existing
  one is refused or replaced, and the answers are the statuses the specification gives. No name is ever listed
  twice, and no listener of the list is dangling.\<close>

theorem forwards_refine:
  assumes "listed_ok st" and "run_requests run_request rs st = Inr (is, st')"
  shows "listed_ok st' \<and> fwd_steps rs is (forward_map st) (forward_map st')"
  by (rule listeners.runs_simulate [OF assms])

text \<open>One forward, on descriptor 3 of the event loop.\<close>

abbreviation sample_listener :: alistener where
  "sample_listener \<equiv> \<lparr>l_fd = 3, local_name = ''tcp:6100'', connect_to = ''tcp:7100'', l_transport = 100\<rparr>"

definition sample_listeners :: lstate where
  "sample_listeners = \<lparr>ld = sample_daemon\<lparr>evl := sample_loop, wld := idle_world\<lparr>w_wr := (\<lambda>_. replicate 100 (WrAcc 50))\<rparr>,
       trans := (\<lambda>_. None)(100 := Some (zero_transport\<lparr>serial := Some ''usb''\<rparr>))\<rparr>,
     lsts = (\<lambda>_. None)(7 := Some sample_listener), llist = [7], gListenAll = 0\<rparr>"

lemma sample_listeners_ok: "listed_ok sample_listeners" "watched sample_listeners" "named_ok sample_listeners"
  using sample_loop_inv
  by (auto simp: listed_ok_def watched_def named_ok_def sample_listeners_def sample_daemon_def lst_def entry_def)

theorem forwards_refine_witness:
  "\<exists>st'. run_requests run_request [Install ''other'' ''tcp:9'' 100 False, Install ''tcp:6100'' ''tcp:8'' 100 True,
      Install ''tcp:6100'' ''tcp:8'' 100 False, Remove ''tcp:9'' 100] sample_listeners = Inr ([-2, -3, 0, -1], st') \<and>
    fwd_steps [Install ''other'' ''tcp:9'' 100 False, Install ''tcp:6100'' ''tcp:8'' 100 True,
      Install ''tcp:6100'' ''tcp:8'' 100 False, Remove ''tcp:9'' 100] [-2, -3, 0, -1] [''tcp:6100'' \<mapsto> (''tcp:7100'', 100)] (forward_map st')"
proof -
  let ?rs = "[Install ''other'' ''tcp:9'' 100 False, Install ''tcp:6100'' ''tcp:8'' 100 True,
      Install ''tcp:6100'' ''tcp:8'' 100 False, Remove ''tcp:9'' 100]"
  have m: "forward_map sample_listeners = [''tcp:6100'' \<mapsto> (''tcp:7100'', 100)]"
    by (simp add: forward_map_def sample_listeners_def entry_def lst_def)
  obtain st' where r: "run_requests run_request ?rs sample_listeners = Inr ([-2, -3, 0, -1], st')"
    by (simp add: sample_listeners_def sample_daemon_def install_listener_def remove_listener_def get_lst_def new_listener_def
        rebind_listener_def on_lw_def local_name_to_fd_def starts_with_def starred_def install_status_defs)
  from forwards_refine [OF sample_listeners_ok(1) r] r show ?thesis unfolding m by blast
qed

text \<open>C34: \<open>killforward-all\<close> always finishes: when every listener of the list is watched by the event loop and the
  client takes at least one byte, it removes every forward and none of the daemon's own services, closes exactly
  the descriptors of those forwards, in the order of the list and each once, and writes \<open>OKAYOKAY\<close> or as much of it as
  the client takes at once.\<close>

theorem killforward_all_closes:
  assumes "listed_ok st" and "watched st" and "0 < wr_count (w_wr (wld (ld st)) fd)"
  shows "\<exists>st' k. handle_host_request mem ''killforward-all'' ttype wanted fd st = Inr (0, st') \<and>
    llist st' = filter (\<lambda>a. starred (lst st a)) (llist st) \<and>
    closed (evl (ld st')) = closed (evl (ld st)) @ map (\<lambda>a. l_fd (lst st a)) (filter (\<lambda>a. \<not> starred (lst st a)) (llist st)) \<and>
    0 < k \<and> w_out (wld (ld st')) fd = w_out (wld (ld st)) fd @ take k (bytes_of ''OKAYOKAY'')"
proof -
  let ?ok = "bytes_of ''OKAYOKAY''"
  obtain st1 where st1: "remove_listeners (llist st) st = Inr st1" "wld (ld st1) = wld (ld st)"
    "closed_fds st1 = closed_fds st @ map (\<lambda>a. l_fd (lst st a)) (filter (\<lambda>a. \<not> starred (lst st a)) (llist st))"
    "llist st1 = filter (\<lambda>a. a \<in> set (llist st) \<longrightarrow> starred (lst st a)) (llist st)"
    using remove_listeners_returns [OF assms(1,2) subset_refl listed_distinct [OF assms(1)]] by blast
  have "?ok \<noteq> []" by (simp add: bytes_of_def)
  from adb_write_complete [OF assms(3) this] obtain k w where w: "adb_write fd ?ok (wld (ld st)) = Inr (Inr k, w)" "0 < k" by blast
  then have "w_out w fd = w_out (wld (ld st)) fd @ take k ?ok" using adb_write_spec [OF w(1)] by simp
  moreover have "llist st1 = filter (\<lambda>a. starred (lst st a)) (llist st)" unfolding st1(4) by (rule filter_cong) simp_all
  moreover have "handle_host_request mem ''killforward-all'' ttype wanted fd st = Inr (0, st1\<lparr>ld := (ld st1)\<lparr>wld := w\<rparr>\<rparr>)"
    using st1(1,2) w by (simp add: handle_host_request_def remove_all_listeners_def on_lw_def)
  ultimately show ?thesis using st1(3) w(2) by (intro exI [of _ "st1\<lparr>ld := (ld st1)\<lparr>wld := w\<rparr>\<rparr>"] exI [of _ k]) simp
qed

theorem killforward_all_closes_witness:
  "\<exists>st'. handle_host_request (\<lambda>n. replicate n 0) ''killforward-all'' kTransportAny None 9 sample_listeners = Inr (0, st') \<and>
    llist st' = [] \<and> closed (evl (ld st')) = closed sample_loop @ [3]"
proof -
  have "0 < wr_count (w_wr (wld (ld sample_listeners)) 9)" by (simp add: sample_listeners_def)
  from killforward_all_closes [OF sample_listeners_ok(1,2) this, of "\<lambda>n. replicate n 0" kTransportAny None] show ?thesis
    by (auto simp: sample_listeners_def lst_def starred_def starts_with_def)
qed

text \<open>\<open>list-forward\<close> answers the whole table: if the listing has fewer than 65536 characters and the client takes
  it, exactly \<open>OKAY\<close>, the length in four hexadecimal digits, and a line with serial number, local and remote name for every
  listener that is not a service of the daemon, in the order of the list, are written; the size computed first is
  the size of the text, so the buffer is never overrun and no line is cut.\<close>

lemma list_forward_reply:
  assumes "listed_ok st" and "named_ok st" and "length (listing st (llist st)) < 65536" and "\<And>n. length (mem n) = n"
    and "length (listing st (llist st)) + 8 \<le> wr_count (w_wr (wld (ld st)) fd)"
  shows "\<exists>st'. handle_host_request mem ''list-forward'' ttype wanted fd st = Inr (0, st') \<and>
    w_out (wld (ld st')) fd = w_out (wld (ld st)) fd @
      bytes_of (''OKAY'' @ hex4 (length (listing st (llist st))) @ listing st (llist st))"
  using host_list_writes [OF assms] by (simp add: handle_host_request_def)

lemma list_forward_sample:
  "\<exists>st'. handle_host_request (\<lambda>n. replicate n 0) ''list-forward'' kTransportAny None 9 sample_listeners = Inr (0, st') \<and>
    w_out (wld (ld st')) 9 = bytes_of (''OKAY0016usb tcp:6100 tcp:7100'' @ [CHR 0x0A])"
proof -
  have l: "listing sample_listeners (llist sample_listeners) = ''usb tcp:6100 tcp:7100'' @ [CHR 0x0A]"
    by (simp add: listing_def sample_listeners_def lst_def serial_of_def listener_line_def starred_def starts_with_def)
  have w: "w_wr (wld (ld sample_listeners)) 9 = replicate 100 (WrAcc 50)" "w_out (wld (ld sample_listeners)) 9 = []"
    by (simp_all add: sample_listeners_def idle_world_def)
  show ?thesis using list_forward_reply [OF sample_listeners_ok(1,3), of "\<lambda>n. replicate n 0" 9 kTransportAny None]
    by (simp add: l w hex4_def hex_digit_def char_of_def bit_Suc_0_iff)
qed

end
