(* ===== verification/Usb.thy ===== *)
theory Usb
  imports Packet Endpoints FileSync
begin

text \<open>
  The USB side of the daemon (\<open>usb_linux_client.c\<close>, \<open>transport_usb.c\<close>, the structures of \<open>functionfs.h\<close>): the
  descriptors it gives the kernel, opening and closing the endpoints, and the transfer of packets over them. The three
  function pointers of a handle are set together: one name stands for the set. A thread that opens
  endpoints is modelled one round at a time; the round returns the handle it registers. The lock of the handle is
  free whenever these functions take it.
\<close>

section \<open>Descriptors\<close>

definition le16 :: "u16 \<Rightarrow> bytes" where
  "le16 w = [ucast w, ucast (drop_bit 8 w)]"

definition FUNCTIONFS_DESCRIPTORS_MAGIC :: u32 where "FUNCTIONFS_DESCRIPTORS_MAGIC = 1"
definition FUNCTIONFS_STRINGS_MAGIC :: u32 where "FUNCTIONFS_STRINGS_MAGIC = 2"
definition FUNCTIONFS_CLEAR_HALT :: nat where "FUNCTIONFS_CLEAR_HALT = 0x6703"
definition MAX_PACKET_SIZE_FS :: u16 where "MAX_PACKET_SIZE_FS = 64"
definition MAX_PACKET_SIZE_HS :: u16 where "MAX_PACKET_SIZE_HS = 512"
definition ADB_CLASS :: u8 where "ADB_CLASS = 0xff"
definition ADB_SUBCLASS :: u8 where "ADB_SUBCLASS = 0x42"
definition ADB_PROTOCOL :: u8 where "ADB_PROTOCOL = 1"
definition USB_DT_INTERFACE :: u8 where "USB_DT_INTERFACE = 4"
definition USB_DT_ENDPOINT :: u8 where "USB_DT_ENDPOINT = 5"
definition USB_DIR_OUT :: u8 where "USB_DIR_OUT = 0"
definition USB_DIR_IN :: u8 where "USB_DIR_IN = 0x80"
definition USB_ENDPOINT_XFER_BULK :: u8 where "USB_ENDPOINT_XFER_BULK = 2"

lemmas usb_consts = FUNCTIONFS_DESCRIPTORS_MAGIC_def FUNCTIONFS_STRINGS_MAGIC_def MAX_PACKET_SIZE_FS_def MAX_PACKET_SIZE_HS_def
  ADB_CLASS_def ADB_SUBCLASS_def ADB_PROTOCOL_def USB_DT_INTERFACE_def USB_DT_ENDPOINT_def USB_DIR_OUT_def USB_DIR_IN_def
  USB_ENDPOINT_XFER_BULK_def

text \<open>The head of both blocks: magic, total length and two counts.\<close>

record ffs_head =
  ffs_magic :: u32
  ffs_length :: u32
  ffs_count1 :: u32
  ffs_count2 :: u32

definition head_bytes :: "ffs_head \<Rightarrow> bytes" where
  "head_bytes h = le32 (ffs_magic h) @ le32 (ffs_length h) @ le32 (ffs_count1 h) @ le32 (ffs_count2 h)"

record usb_interface_descriptor =
  if_bLength :: u8
  if_bDescriptorType :: u8
  bInterfaceNumber :: u8
  bAlternateSetting :: u8
  bNumEndpoints :: u8
  bInterfaceClass :: u8
  bInterfaceSubClass :: u8
  bInterfaceProtocol :: u8
  iInterface :: u8

definition interface_bytes :: "usb_interface_descriptor \<Rightarrow> bytes" where
  "interface_bytes i = [if_bLength i, if_bDescriptorType i, bInterfaceNumber i, bAlternateSetting i, bNumEndpoints i,
     bInterfaceClass i, bInterfaceSubClass i, bInterfaceProtocol i, iInterface i]"

record usb_endpoint_descriptor_no_audio =
  ep_bLength :: u8
  ep_bDescriptorType :: u8
  bEndpointAddress :: u8
  bmAttributes :: u8
  wMaxPacketSize :: u16
  bInterval :: u8

definition endpoint_bytes :: "usb_endpoint_descriptor_no_audio \<Rightarrow> bytes" where
  "endpoint_bytes e = [ep_bLength e, ep_bDescriptorType e, bEndpointAddress e, bmAttributes e] @ le16 (wMaxPacketSize e) @ [bInterval e]"

text \<open>The two descriptor sets differ in the packet size only. Fields that are not named are zero.\<close>

definition speed_descs :: "u16 \<Rightarrow> usb_interface_descriptor \<times> usb_endpoint_descriptor_no_audio \<times> usb_endpoint_descriptor_no_audio" where
  "speed_descs packet_size =
    (\<lparr>if_bLength = 9, if_bDescriptorType = USB_DT_INTERFACE, bInterfaceNumber = 0, bAlternateSetting = 0, bNumEndpoints = 2,
      bInterfaceClass = ADB_CLASS, bInterfaceSubClass = ADB_SUBCLASS, bInterfaceProtocol = ADB_PROTOCOL, iInterface = 1\<rparr>,
     \<lparr>ep_bLength = 7, ep_bDescriptorType = USB_DT_ENDPOINT, bEndpointAddress = 1 OR USB_DIR_OUT,
      bmAttributes = USB_ENDPOINT_XFER_BULK, wMaxPacketSize = packet_size, bInterval = 0\<rparr>,
     \<lparr>ep_bLength = 7, ep_bDescriptorType = USB_DT_ENDPOINT, bEndpointAddress = 2 OR USB_DIR_IN,
      bmAttributes = USB_ENDPOINT_XFER_BULK, wMaxPacketSize = packet_size, bInterval = 0\<rparr>)"

definition speed_bytes :: "u16 \<Rightarrow> bytes" where
  "speed_bytes packet_size = (case speed_descs packet_size of (intf, source, sink) \<Rightarrow>
     interface_bytes intf @ endpoint_bytes source @ endpoint_bytes sink)"

definition descriptors :: bytes where
  "descriptors = head_bytes \<lparr>ffs_magic = FUNCTIONFS_DESCRIPTORS_MAGIC, ffs_length = 62, ffs_count1 = 3, ffs_count2 = 3\<rparr> @
     speed_bytes MAX_PACKET_SIZE_FS @ speed_bytes MAX_PACKET_SIZE_HS"

definition STR_INTERFACE :: string where "STR_INTERFACE = ''ADB Interface''"

definition interface_strings :: bytes where
  "interface_strings = head_bytes \<lparr>ffs_magic = FUNCTIONFS_STRINGS_MAGIC, ffs_length = 32, ffs_count1 = 1, ffs_count2 = 1\<rparr> @
     le16 0x0409 @ bytes_of STR_INTERFACE @ [0]"

section \<open>Handles\<close>

datatype usb_fn = UsbAdb | UsbFfs

record usb_handle =
  u_fn :: usb_fn
  u_fd :: int
  control :: int
  bulk_out :: int
  bulk_in :: int

definition USB_FFS_ADB_EP0 :: string where "USB_FFS_ADB_EP0 = ''/dev/usb-ffs/adb/ep0''"
definition USB_FFS_ADB_OUT :: string where "USB_FFS_ADB_OUT = ''/dev/usb-ffs/adb/ep1''"
definition USB_FFS_ADB_IN :: string where "USB_FFS_ADB_IN = ''/dev/usb-ffs/adb/ep2''"
definition O_RDWR :: nat where "O_RDWR = 2"

text \<open>\<open>adb_write\<close> whose result is only compared with zero.\<close>

definition write_fails :: "int \<Rightarrow> bytes \<Rightarrow> world \<Rightarrow> (bool \<times> world) outcome" where
  "write_fails fd bs w = andthen (adb_write fd bs w) (\<lambda>(r, w1). Inr (isl r, w1))"

text \<open>The label \<open>err\<close> of \<open>init_functionfs\<close>.\<close>

definition init_err :: "usb_handle \<Rightarrow> world \<Rightarrow> usb_handle \<times> world" where
  "init_err h w =
    (let (h1, w1) = (if bulk_in h > 0 then (h\<lparr>bulk_in := -1\<rparr>, do_call (SysClose (bulk_in h)) w) else (h, w));
         (h2, w2) = (if bulk_out h1 > 0 then (h1\<lparr>bulk_out := -1\<rparr>, do_call (SysClose (bulk_out h1)) w1) else (h1, w1))
     in if control h2 > 0 then (h2\<lparr>control := -1\<rparr>, do_call (SysClose (control h2)) w2) else (h2, w2))"

text \<open>Its last part: the two bulk endpoints.\<close>

definition open_bulk :: "usb_handle \<Rightarrow> world \<Rightarrow> usb_handle \<times> world" where
  "open_bulk h w =
    (let (o1, w1) = adb_open USB_FFS_ADB_OUT O_RDWR w; h1 = h\<lparr>bulk_out := o1\<rparr> in
     if o1 < 0 then init_err h1 w1
     else
       let (i1, w2) = adb_open USB_FFS_ADB_IN O_RDWR w1; h2 = h1\<lparr>bulk_in := i1\<rparr> in
       if i1 < 0 then init_err h2 w2 else (h2, w2))"

definition init_functionfs :: "usb_handle \<Rightarrow> world \<Rightarrow> (usb_handle \<times> world) outcome" where
  "init_functionfs h w =
    (let (c, w1) = adb_open USB_FFS_ADB_EP0 O_RDWR w; h1 = h\<lparr>control := c\<rparr> in
     if c < 0 then Inr (init_err h1 w1)
     else andthen (write_fails c descriptors w1) (\<lambda>(bad, w2).
       if bad then Inr (init_err h1 w2)
       else andthen (write_fails c interface_strings w2) (\<lambda>(bad, w3).
         if bad then Inr (init_err h1 w3) else Inr (open_bulk h1 w3))))"

text \<open>One round of \<open>usb_ffs_open_thread\<close>: it waits until the handle is closed, then tries until it is open.
  \<open>fuel\<close> bounds the attempts, \<open>None\<close> is that it is used up.\<close>

fun ffs_attempts :: "nat \<Rightarrow> usb_handle \<Rightarrow> world \<Rightarrow> (usb_handle \<times> world) outcome option" where
  "ffs_attempts 0 h w = None"
| "ffs_attempts (Suc fuel) h w = (case init_functionfs h w of
       Inl e \<Rightarrow> Some (Inl e)
     | Inr (h1, w1) \<Rightarrow> if control h1 \<ge> 0 then Some (Inr (h1, w1)) else ffs_attempts fuel h1 w1)"

definition usb_ffs_open_round :: "nat \<Rightarrow> usb_handle \<Rightarrow> world \<Rightarrow> (usb_handle \<times> world) outcome option" where
  "usb_ffs_open_round fuel h w = (if control h \<noteq> -1 then Some (Inl Blocked) else ffs_attempts fuel h w)"

text \<open>The same of \<open>usb_adb_open_thread\<close>, for the older kernel interface.\<close>

fun adb_attempts :: "nat \<Rightarrow> world \<Rightarrow> (int \<times> world) option" where
  "adb_attempts 0 w = None"
| "adb_attempts (Suc fuel) w =
    (let (fd, w1) = call (SysOpen ''/dev/android_adb'' O_RDWR 0) w;
         (fd1, w2) = (if fd < 0 then call (SysOpen ''/dev/android'' O_RDWR 0) w1 else (fd, w1))
     in if fd1 < 0 then adb_attempts fuel w2 else Some (fd1, w2))"

definition usb_adb_open_round :: "nat \<Rightarrow> usb_handle \<Rightarrow> world \<Rightarrow> (usb_handle \<times> world) outcome option" where
  "usb_adb_open_round fuel h w =
    (if u_fd h \<noteq> -1 then Some (Inl Blocked)
     else map_option (\<lambda>(fd, w1). Inr (h\<lparr>u_fd := fd\<rparr>, w1)) (adb_attempts fuel w))"

text \<open>The handle each \<open>init\<close> function makes: \<open>calloc\<close>, then the assignments.\<close>

definition zero_handle :: usb_handle where
  "zero_handle = \<lparr>u_fn = UsbAdb, u_fd = 0, control = 0, bulk_out = 0, bulk_in = 0\<rparr>"

definition adb_handle :: usb_handle where
  "adb_handle = zero_handle\<lparr>u_fn := UsbAdb, u_fd := -1\<rparr>"

definition ffs_handle :: usb_handle where
  "ffs_handle = zero_handle\<lparr>u_fn := UsbFfs, control := -1, bulk_out := -1, bulk_out := -1\<rparr>"

text \<open>Starting the thread that opens the endpoints ends each \<open>init\<close> function.\<close>

definition usb_thread :: "usb_handle \<Rightarrow> world \<Rightarrow> (usb_handle \<times> world) outcome" where
  "usb_thread h w = (let (r, w1) = call SysThread w in if r \<noteq> 0 then fatal_errno else Inr (h, w1))"

definition usb_adb_init :: "world \<Rightarrow> (usb_handle \<times> world) outcome" where
  "usb_adb_init w = usb_thread adb_handle (do_call (SysOpen ''/dev/android_adb_enable'' O_RDWR 0) w)"

definition usb_ffs_init :: "world \<Rightarrow> (usb_handle \<times> world) outcome" where
  "usb_ffs_init w = usb_thread ffs_handle w"

definition usb_init :: "world \<Rightarrow> (usb_handle \<times> world) outcome" where
  "usb_init w = (let (r, w1) = call (SysAccess USB_FFS_ADB_EP0 0) w in if r = 0 then usb_ffs_init w1 else usb_adb_init w1)"

section \<open>Transfers\<close>

text \<open>The loop of \<open>bulk_write\<close>: \<open>bs\<close> is what is left. A transfer of no bytes is repeated. The result is whether the
  count returned is the length asked for.\<close>

function bulk_write :: "int \<Rightarrow> bytes \<Rightarrow> world \<Rightarrow> (bool \<times> world) outcome" where
  "bulk_write fd bs w = andthen (adb_write fd bs w) (\<lambda>(r, w1). case r of
       Inr k \<Rightarrow> if k < length bs then bulk_write fd (drop k bs) w1 else Inr (True, w1)
     | Inl e \<Rightarrow> if e \<noteq> EINTR then Inr (False, w1) else bulk_write fd bs w1)"
  by pat_completeness auto
termination
  by (relation "measure (\<lambda>(fd, bs, w). length (w_wr w fd))") (auto dest: adb_write_shorter)

text \<open>The same of \<open>bulk_read\<close>: \<open>n\<close> is what is missing.\<close>

function bulk_read :: "int \<Rightarrow> nat \<Rightarrow> world \<Rightarrow> (bytes option \<times> world) outcome" where
  "bulk_read fd n w = andthen (adb_read fd n w) (\<lambda>(r, w1). case r of
       Inr bs \<Rightarrow>
         if length bs < n then andthen (bulk_read fd (n - length bs) w1) (\<lambda>(q, w2). Inr (map_option (\<lambda>rest. bs @ rest) q, w2))
         else Inr (Some bs, w1)
     | Inl e \<Rightarrow> if e \<noteq> EINTR then Inr (None, w1) else bulk_read fd n w1)"
  by pat_completeness auto
termination
  by (relation "measure (\<lambda>(fd, n, w). rd_left fd w)") (auto dest: adb_read_left adb_read_no_EINTR)

declare bulk_write.simps [simp del] bulk_read.simps [simp del]

definition usb_ffs_write :: "usb_handle \<Rightarrow> bytes \<Rightarrow> world \<Rightarrow> (bool \<times> world) outcome" where
  "usb_ffs_write h bs w = bulk_write (bulk_in h) bs w"

definition usb_ffs_read :: "usb_handle \<Rightarrow> nat \<Rightarrow> world \<Rightarrow> (bytes option \<times> world) outcome" where
  "usb_ffs_read h n w = bulk_read (bulk_out h) n w"

text \<open>The older interface takes and gives whole transfers.\<close>

definition usb_adb_write :: "usb_handle \<Rightarrow> bytes \<Rightarrow> world \<Rightarrow> (bool \<times> world) outcome" where
  "usb_adb_write h bs w = andthen (adb_write (u_fd h) bs w) (\<lambda>(r, w1). Inr (r = Inr (length bs), w1))"

definition usb_adb_read :: "usb_handle \<Rightarrow> nat \<Rightarrow> world \<Rightarrow> (bytes option \<times> world) outcome" where
  "usb_adb_read h n w = andthen (adb_read (u_fd h) n w) (\<lambda>(r, w1). case r of
       Inr bs \<Rightarrow> Inr (if length bs = n then Some bs else None, w1) | Inl e \<Rightarrow> Inr (None, w1))"

definition usb_write :: "usb_handle \<Rightarrow> bytes \<Rightarrow> world \<Rightarrow> (bool \<times> world) outcome" where
  "usb_write h bs w = (case u_fn h of UsbAdb \<Rightarrow> usb_adb_write h bs w | UsbFfs \<Rightarrow> usb_ffs_write h bs w)"

definition usb_read :: "usb_handle \<Rightarrow> nat \<Rightarrow> world \<Rightarrow> (bytes option \<times> world) outcome" where
  "usb_read h n w = (case u_fn h of UsbAdb \<Rightarrow> usb_adb_read h n w | UsbFfs \<Rightarrow> usb_ffs_read h n w)"

definition usb_adb_kick :: "usb_handle \<Rightarrow> world \<Rightarrow> usb_handle \<times> world" where
  "usb_adb_kick h w = (h\<lparr>u_fd := -1\<rparr>, do_call (SysClose (u_fd h)) w)"

definition usb_ffs_kick :: "usb_handle \<Rightarrow> world \<Rightarrow> usb_handle \<times> world" where
  "usb_ffs_kick h w =
    (let w1 = do_call (SysIoctl (bulk_out h) FUNCTIONFS_CLEAR_HALT) (do_call (SysIoctl (bulk_in h) FUNCTIONFS_CLEAR_HALT) w);
         w2 = do_call (SysClose (bulk_in h)) (do_call (SysClose (bulk_out h)) (do_call (SysClose (control h)) w1))
     in (h\<lparr>control := -1, bulk_out := -1, bulk_in := -1\<rparr>, w2))"

definition usb_kick :: "usb_handle \<Rightarrow> world \<Rightarrow> usb_handle \<times> world" where
  "usb_kick h w = (case u_fn h of UsbAdb \<Rightarrow> usb_adb_kick h w | UsbFfs \<Rightarrow> usb_ffs_kick h w)"

section \<open>Packets\<close>

text \<open>\<open>remote_read\<close> of \<open>transport_usb.c\<close>: as over TCP, but an empty payload is not asked for.\<close>

definition usb_get :: "usb_handle \<Rightarrow> nat \<Rightarrow> world \<Rightarrow> (bytes option \<times> world) outcome" where
  "usb_get h n w = (if n = 0 then Inr (Some [], w) else usb_read h n w)"

definition usb_remote_read :: "usb_handle \<Rightarrow> apacket \<Rightarrow> world \<Rightarrow> (int \<times> apacket \<times> world) outcome" where
  "usb_remote_read h p w = recv_packet (usb_get h) p w"

text \<open>\<open>remote_write\<close>: the header, then the payload; reading past the packet is undefined.\<close>

definition usb_remote_write :: "usb_handle \<Rightarrow> apacket \<Rightarrow> world \<Rightarrow> (int \<times> world) outcome" where
  "usb_remote_write h p w = (let size = unat (data_length (a_msg p)) in
     andthen (usb_write h (amessage_bytes (a_msg p)) w) (\<lambda>(ok, w1).
       if \<not> ok then Inr (-1, w1)
       else if size = 0 then Inr (0, w1)
       else if length (a_data p) < size then Inl OutOfBounds
       else andthen (usb_write h (take size (a_data p)) w1) (\<lambda>(ok, w2). Inr (if ok then 0 else -1, w2))))"

section \<open>Lemmas: bulk transfers\<close>

text \<open>What a bulk endpoint delivers: transfers of no bytes and EINTRs in between do not matter.\<close>

fun usb_bytes :: "rd_ans list \<Rightarrow> bytes" where
  "usb_bytes [] = []"
| "usb_bytes (RdErr e # as) = (if e = EINTR then usb_bytes as else [])"
| "usb_bytes (RdData bs # as) = bs @ usb_bytes as"

definition usb_avail :: "int \<Rightarrow> world \<Rightarrow> bytes" where
  "usb_avail fd w = usb_bytes (w_rd w fd)"

lemma usb_adb_read_sound: "adb_read fd n w = Inr (r, w') \<Longrightarrow> r = Inr bs \<Longrightarrow> usb_avail fd w = bs @ usb_avail fd w'"
  by (induction rule: adb_read_induct) (auto simp: sys_read_def usb_avail_def split: list.splits rd_ans.splits)

lemma usb_sys_read:
  assumes "usb_avail fd w \<noteq> []"
  obtains r w1 where "sys_read fd n w = Inr (r, w1)" "r = Inl EINTR \<and> usb_avail fd w1 = usb_avail fd w \<or> (\<exists>bs. r = Inr bs)"
proof (cases "w_rd w fd")
  case (Cons a as)
  with assms that show ?thesis by (cases a) (auto simp: usb_avail_def sys_read_def split: if_splits)
qed (use assms in \<open>simp add: usb_avail_def\<close>)

lemma usb_adb_read_complete: "usb_avail fd w \<noteq> [] \<Longrightarrow> \<exists>bs w'. adb_read fd n w = Inr (Inr bs, w')"
proof (induction "length (w_rd w fd)" arbitrary: w rule: less_induct)
  case less
  obtain r w1 where s: "sys_read fd n w = Inr (r, w1)" "r = Inl EINTR \<and> usb_avail fd w1 = usb_avail fd w \<or> (\<exists>bs. r = Inr bs)"
    by (rule usb_sys_read [OF less.prems])
  show ?case
  proof (cases "r = Inl EINTR")
    case True
    with s sys_read_shorter [of fd n w EINTR w1] less show ?thesis by (subst adb_read.simps) simp
  next
    case False
    with s show ?thesis by (subst adb_read.simps) auto
  qed
qed

lemma bulk_read_sound: "bulk_read fd n w = Inr (Some bs, w') \<Longrightarrow> length bs = n \<and> usb_avail fd w = bs @ usb_avail fd w'"
proof (induction fd n w arbitrary: bs w' rule: bulk_read.induct)
  case (1 fd n w)
  from "1.prems" obtain r w1 where a: "adb_read fd n w = Inr (r, w1)" by (subst (asm) bulk_read.simps) (auto simp: andthen_Inr_iff)
  from "1.prems" a adb_read_no_EINTR [OF a] obtain cs where r: "r = Inr cs"
    by (subst (asm) bulk_read.simps) (auto split: sum.splits if_splits)
  note cs = usb_adb_read_sound [OF a r] adb_read_length [OF a [unfolded r]]
  show ?case
  proof (cases "length cs < n")
    case True
    with "1.prems" a r obtain q w2 where "bulk_read fd (n - length cs) w1 = Inr (Some q, w')" "bs = cs @ q"
      by (subst (asm) bulk_read.simps) (auto simp: andthen_Inr_iff)
    with "1.IH"(2) [OF a refl r True] cs True show ?thesis by fastforce
  next
    case False
    with "1.prems" a r cs show ?thesis by (subst (asm) bulk_read.simps) auto
  qed
qed

lemma bulk_read_complete: "0 < n \<Longrightarrow> n \<le> length (usb_avail fd w) \<Longrightarrow> \<exists>bs w'. bulk_read fd n w = Inr (Some bs, w')"
proof (induction fd n w rule: bulk_read.induct)
  case (1 fd n w)
  from "1.prems" obtain cs w1 where a: "adb_read fd n w = Inr (Inr cs, w1)" using usb_adb_read_complete [of fd w n] by fastforce
  show ?case
  proof (cases "length cs < n")
    case True
    with usb_adb_read_sound [OF a refl] "1.prems" have "0 < n - length cs" "n - length cs \<le> length (usb_avail fd w1)" by auto
    with "1.IH"(2) [OF a refl refl True] a True show ?thesis by (subst bulk_read.simps) auto
  next
    case False
    with a show ?thesis by (subst bulk_read.simps) simp
  qed
qed

text \<open>A bulk endpoint is a byte source, and the other one a byte sink, for requests that are not empty.\<close>

interpretation ffs_source: byte_source "\<lambda>n w. if n = 0 then Inr (Some [], w) else bulk_read fd n w" "usb_avail fd" for fd
  by unfold_locales (auto intro: bulk_read_complete dest: bulk_read_sound split: if_splits)

lemma bulk_write_out:
  "bulk_write fd bs w = Inr (r, w') \<Longrightarrow> bs \<noteq> [] \<Longrightarrow>
    \<exists>k. w_out w' fd = w_out w fd @ take k bs \<and> (if r then k = length bs else k < length bs)"
proof (induction fd bs w arbitrary: r w' rule: bulk_write.induct)
  case (1 fd bs w)
  from "1.prems"(1) obtain q w1 where a: "adb_write fd bs w = Inr (q, w1)" by (subst (asm) bulk_write.simps) (auto simp: andthen_Inr_iff)
  note o = adb_write_spec [OF a]
  consider e where "q = Inl e" "e \<noteq> EINTR" | k where "q = Inr k" "k < length bs" | k where "q = Inr k" "k = length bs"
    using o by (cases q) force+
  then show ?case
  proof cases
    case (2 k)
    then have "bulk_write fd (drop k bs) w1 = Inr (r, w')" using "1.prems"(1) a by (subst (asm) bulk_write.simps) simp
    moreover have "drop k bs \<noteq> []" using 2 by simp
    ultimately obtain j where j: "w_out w' fd = w_out w1 fd @ take j (drop k bs)"
      "if r then j = length (drop k bs) else j < length (drop k bs)" using "1.IH"(2) [OF a refl 2] by blast
    with o 2 show ?thesis by (intro exI [of _ "k + j"]) (auto simp: take_add split: if_splits)
  qed (use "1.prems" a o in \<open>(subst (asm) bulk_write.simps, fastforce)+\<close>)
qed

lemma bulk_write_complete:
  "bs \<noteq> [] \<Longrightarrow> length bs \<le> wr_count (w_wr w fd) \<Longrightarrow>
    \<exists>w'. bulk_write fd bs w = Inr (True, w') \<and> wr_count (w_wr w fd) \<le> wr_count (w_wr w' fd) + length bs"
proof (induction fd bs w rule: bulk_write.induct)
  case (1 fd bs w)
  then have "0 < wr_count (w_wr w fd)" by (cases bs) auto
  from adb_write_complete [OF this "1.prems"(1)] obtain k w1 where a: "adb_write fd bs w = Inr (Inr k, w1)" "0 < k"
    "wr_count (w_wr w fd) = Suc (wr_count (w_wr w1 fd))" by blast
  show ?case
  proof (cases "k < length bs")
    case True
    have "\<exists>w'. bulk_write fd (drop k bs) w1 = Inr (True, w') \<and> wr_count (w_wr w1 fd) \<le> wr_count (w_wr w' fd) + length (drop k bs)"
      by (rule "1.IH"(2) [OF a(1) refl refl True]) (use True a "1.prems" in auto)
    with a True show ?thesis by (subst bulk_write.simps) auto
  next
    case False
    with a "1.prems" show ?thesis by (subst bulk_write.simps) (cases bs, auto)
  qed
qed

interpretation ffs_sink: byte_sink "\<lambda>bs w. if bs = [] then Inr (True, w) else bulk_write fd bs w" "\<lambda>w. w_out w fd" "\<lambda>w. wr_count (w_wr w fd)" for fd
proof unfold_locales
  fix bs s s'
  show "w_out s' fd = w_out s fd @ bs" if "(if bs = [] then Inr (True, s) else bulk_write fd bs s) = Inr (True, s')"
    using that bulk_write_out [of fd bs s True s'] by (auto split: if_splits)
  show "\<exists>k<length bs. w_out s' fd = w_out s fd @ take k bs" if "(if bs = [] then Inr (True, s) else bulk_write fd bs s) = Inr (False, s')"
    using that bulk_write_out [of fd bs s False s'] by (auto split: if_splits)
qed (use bulk_write_complete in auto)

lemma ffs_get: "u_fn h = UsbFfs \<Longrightarrow> usb_get h = (\<lambda>n w. if n = 0 then Inr (Some [], w) else bulk_read (bulk_out h) n w)"
  by (simp add: usb_get_def usb_read_def usb_ffs_read_def fun_eq_iff)

lemma ffs_remote_write:
  assumes ffs: "u_fn h = UsbFfs" and p: "packet_ok p" and r: "usb_remote_write h p w = Inr (0, w')"
  shows "w_out w' (bulk_in h) = w_out w (bulk_in h) @ wire p"
proof -
  let ?d = "take (unat (data_length (a_msg p))) (a_data p)"
  have e: "?d = [] \<longleftrightarrow> unat (data_length (a_msg p)) = 0" "\<not> length (a_data p) < unat (data_length (a_msg p))"
    using p by (auto simp: packet_ok_def MAX_PAYLOAD_def)
  from r obtain w1 where w1: "bulk_write (bulk_in h) (amessage_bytes (a_msg p)) w = Inr (True, w1)"
    and d: "(if ?d = [] then Inr (True, w1) else bulk_write (bulk_in h) ?d w1) = Inr (True, w')"
    using ffs unfolding e(1) by (auto simp: usb_remote_write_def usb_write_def usb_ffs_write_def andthen_Inr_iff Let_def e(2) split: if_splits)
  have "w_out w1 (bulk_in h) = w_out w (bulk_in h) @ amessage_bytes (a_msg p)"
    using bulk_write_out [OF w1] length_amessage_bytes [of "a_msg p"] by (cases "amessage_bytes (a_msg p)") auto
  with ffs_sink.wx_ok [OF d] show ?thesis by (simp add: wire_def)
qed

lemma ffs_remote_write_complete:
  assumes ffs: "u_fn h = UsbFfs" and p: "packet_ok p" and room: "length (wire p) \<le> wr_count (w_wr w (bulk_in h))"
  shows "\<exists>w'. usb_remote_write h p w = Inr (0, w')"
proof -
  let ?d = "take (unat (data_length (a_msg p))) (a_data p)" and ?h = "amessage_bytes (a_msg p)" and ?fd = "bulk_in h"
  have ne: "?h \<noteq> []" using length_amessage_bytes [of "a_msg p"] by (metis list.size(3) zero_neq_numeral)
  obtain w1 where w1: "bulk_write ?fd ?h w = Inr (True, w1)" "wr_count (w_wr w ?fd) \<le> wr_count (w_wr w1 ?fd) + 24"
    using bulk_write_complete [OF ne, of w ?fd] room by (auto simp: wire_def)
  have "length ?d \<le> wr_count (w_wr w1 ?fd)" using w1(2) room by (simp add: wire_def)
  from ffs_sink.wx_complete [OF this] w1(1) ffs p show ?thesis
    by (auto simp: usb_remote_write_def usb_write_def usb_ffs_write_def Let_def packet_ok_def split: if_splits)
qed

section \<open>Lemmas: opening the endpoints\<close>

text \<open>The descriptors that are open after a sequence of calls (newest first): those the kernel has given out and
  that were not closed since. \<open>kern\<close> is the kernel.\<close>

fun held :: "(syscall list \<Rightarrow> syscall \<Rightarrow> sysans) \<Rightarrow> syscall list \<Rightarrow> int list" where
  "held kern [] = []"
| "held kern (c # older) = (case c of
       SysOpen path flags mode \<Rightarrow> (let r = ret_of (kern (rev older) c) in if r > 0 then r # held kern older else held kern older)
     | SysClose fd \<Rightarrow> remove1 fd (held kern older)
     | _ \<Rightarrow> held kern older)"

definition open_now :: "world \<Rightarrow> int list" where
  "open_now w = held (w_kern w) (rev (w_log w))"

lemma open_now_close: "open_now (do_call (SysClose fd) w) = remove1 fd (open_now w)"
  by (simp add: open_now_def do_call_def sys_call_def Let_def)

lemma open_now_open:
  "adb_open path flags w = (fd, w') \<Longrightarrow> w_kern w' = w_kern w \<and> open_now w' = (if fd > 0 then fd # open_now w else open_now w) \<and> -1 \<le> fd \<and>
    (fd = 0 \<longrightarrow> ret_of (w_kern w (w_log w) (SysOpen path flags 0)) = 0)"
  by (auto simp: adb_open_def open_now_def sys_call_def Let_def split: if_splits)

lemma write_fails_keeps:
  "write_fails fd bs w = Inr (bad, w') \<Longrightarrow> w_kern w' = w_kern w \<and> open_now w' = open_now w \<and>
    (\<exists>k. w_out w' fd = w_out w fd @ take k bs)"
  by (auto simp: write_fails_def andthen_Inr_iff open_now_def wr_only_def dest!: adb_write_spec split: sum.splits)

text \<open>The error path closes what is open and nothing else.\<close>

definition endpoints :: "usb_handle \<Rightarrow> int list" where
  "endpoints h = filter (\<lambda>fd. fd > 0) [bulk_in h, bulk_out h, control h]"

lemma init_err_closes:
  assumes "init_err h w = (h', w')" and "open_now w = endpoints h @ rest"
  shows "open_now w' = rest" and "control h \<noteq> 0 \<Longrightarrow> control h' < 0" and "endpoints h' = []"
  using assms by (auto simp: init_err_def Let_def endpoints_def open_now_close split: if_splits prod.splits)

text \<open>All the endpoints are open, or none.\<close>

definition all_or_none :: "int list \<Rightarrow> usb_handle \<Rightarrow> world \<Rightarrow> bool" where
  "all_or_none before h w \<longleftrightarrow>
     control h < 0 \<and> endpoints h = [] \<and> open_now w = before \<or>
     control h > 0 \<and> bulk_out h > 0 \<and> bulk_in h > 0 \<and> open_now w = endpoints h @ before"

lemma init_err_none: "init_err h w = (h', w') \<Longrightarrow> open_now w = endpoints h @ before \<Longrightarrow> control h \<noteq> 0 \<Longrightarrow> all_or_none before h' w'"
  using init_err_closes [of h w h' w' before] by (simp add: all_or_none_def)

text \<open>The kernel does not give out descriptor 0.\<close>

definition std_open :: "world \<Rightarrow> bool" where
  "std_open w \<longleftrightarrow> (\<forall>log path flags m. ret_of (w_kern w log (SysOpen path flags m)) \<noteq> 0)"

lemma open_bulk_all:
  assumes r: "open_bulk h w = (h', w')" and h: "bulk_out h \<le> 0" "bulk_in h \<le> 0" "control h > 0"
    and k: "std_open w" and n: "open_now w = endpoints h @ before"
  shows "all_or_none before h' w'"
proof -
  obtain o1 w1 where o1: "adb_open USB_FFS_ADB_OUT O_RDWR w = (o1, w1)" by force
  obtain i1 w2 where i1: "adb_open USB_FFS_ADB_IN O_RDWR w1 = (i1, w2)" by force
  note oo = open_now_open [OF o1] and oi = open_now_open [OF i1]
  have nz: "o1 \<noteq> 0" "i1 \<noteq> 0" using oo oi k unfolding std_open_def by metis+
  have e: "endpoints h = [control h]" using h by (simp add: endpoints_def)
  from r o1 i1 nz consider "o1 < 0" "init_err (h\<lparr>bulk_out := o1\<rparr>) w1 = (h', w')"
    | "o1 > 0" "i1 < 0" "init_err (h\<lparr>bulk_out := o1, bulk_in := i1\<rparr>) w2 = (h', w')"
    | "o1 > 0" "i1 > 0" "h' = h\<lparr>bulk_out := o1, bulk_in := i1\<rparr>" "w' = w2"
    by (auto simp: open_bulk_def Let_def split: if_splits)
  then show ?thesis
  proof cases
    case 1
    from 1(2) show ?thesis by (rule init_err_none) (use 1 oo n e h in \<open>auto simp: endpoints_def\<close>)
  next
    case 2
    from 2(3) show ?thesis by (rule init_err_none) (use 2 oo oi n e h in \<open>auto simp: endpoints_def\<close>)
  next
    case 3
    with oo oi n e h show ?thesis by (simp add: endpoints_def all_or_none_def)
  qed
qed

lemma init_functionfs_all:
  assumes r: "init_functionfs h w = Inr (h', w')" and h: "bulk_out h \<le> 0" "bulk_in h \<le> 0" and k: "std_open w"
  shows "all_or_none (open_now w) h' w'"
proof -
  obtain c w1 where c: "adb_open USB_FFS_ADB_EP0 O_RDWR w = (c, w1)" by force
  let ?h = "h\<lparr>control := c\<rparr>"
  note oc = open_now_open [OF c]
  have c0: "c \<noteq> 0" using oc k unfolding std_open_def by metis
  have e: "endpoints ?h = (if c > 0 then [c] else [])" using h by (simp add: endpoints_def)
  consider "init_err ?h w1 = (h', w')" | w2 where "c > 0" "write_fails c descriptors w1 = Inr (True, w2)" "init_err ?h w2 = (h', w')"
    | w2 w3 where "c > 0" "write_fails c descriptors w1 = Inr (False, w2)" "write_fails c interface_strings w2 = Inr (True, w3)" "init_err ?h w3 = (h', w')"
    | w2 w3 where "c > 0" "write_fails c descriptors w1 = Inr (False, w2)" "write_fails c interface_strings w2 = Inr (False, w3)" "open_bulk ?h w3 = (h', w')"
    using r c c0 by (auto simp: init_functionfs_def Let_def andthen_Inr_iff split: if_splits)
  then show ?thesis
  proof cases
    case (4 w2 w3)
    note k2 = write_fails_keeps [OF 4(2)] write_fails_keeps [OF 4(3)]
    from 4(4) show ?thesis by (rule open_bulk_all) (use 4(1) k2 oc h k e in \<open>auto simp: std_open_def\<close>)
  qed (use oc e c0 init_err_none in \<open>auto dest!: write_fails_keeps\<close>)
qed

text \<open>The length fields are the sizes of the blocks.\<close>

lemma descriptor_sizes: "length descriptors = 62" "length interface_strings = 32"
  by (simp_all add: descriptors_def interface_strings_def head_bytes_def speed_bytes_def speed_descs_def interface_bytes_def
      endpoint_bytes_def le16_def STR_INTERFACE_def)

section \<open>Properties\<close>

text \<open>Round trip over USB. A packet prepared as \<open>send_packet\<close> does is written whole by the transport when the
  bulk endpoint accepts that many transfers, and whatever handle reads the bytes at the other end, cut into transfers in
  any way, with transfers of no bytes and EINTRs in between, receives the same header and payload; the bytes after it
  stay in the stream.\<close>

lemma usb_packet_roundtrip:
  assumes "packet_ok p" and "seal_packet p = Inr q" and "u_fn h = UsbFfs" and "u_fn h' = UsbFfs"
    and "length (wire q) \<le> wr_count (w_wr w (bulk_in h))" and "length (a_data b) = MAX_PAYLOAD"
  shows "\<exists>w1 bs. usb_remote_write h q w = Inr (0, w1) \<and> w_out w1 (bulk_in h) = w_out w (bulk_in h) @ bs \<and>
    (\<forall>v rest. usb_avail (bulk_out h') v = bs @ rest \<longrightarrow>
      (\<exists>b' v'. usb_remote_read h' b v = Inr (0, b', v') \<and> command (a_msg b') = command (a_msg p) \<and>
        arg0 (a_msg b') = arg0 (a_msg p) \<and> arg1 (a_msg b') = arg1 (a_msg p) \<and> data_length (a_msg b') = data_length (a_msg p) \<and>
        take (unat (data_length (a_msg p))) (a_data b') = take (unat (data_length (a_msg p))) (a_data p) \<and>
        usb_avail (bulk_out h') v' = rest))"
proof -
  from seal_packet_sealed [OF assms(1)] assms(2)
  have q: "packet_ok q" "check_header q = 0" "check_data q = Inr 0" "a_data q = a_data p"
    "command (a_msg q) = command (a_msg p)" "arg0 (a_msg q) = arg0 (a_msg p)"
    "arg1 (a_msg q) = arg1 (a_msg p)" "data_length (a_msg q) = data_length (a_msg p)"
    by auto
  obtain w1 where w1: "usb_remote_write h q w = Inr (0, w1)" using ffs_remote_write_complete [OF assms(3) q(1) assms(5)] by blast
  have "\<exists>b' v'. usb_remote_read h' b v = Inr (0, b', v') \<and> a_msg b' = a_msg q \<and>
      take (unat (data_length (a_msg q))) (a_data b') = take (unat (data_length (a_msg q))) (a_data q) \<and> usb_avail (bulk_out h') v' = rest"
    if "usb_avail (bulk_out h') v = wire q @ rest" for v rest
    using ffs_source.recv_wire [OF q(1-3) assms(6) that] by (auto simp: usb_remote_read_def ffs_get [OF assms(4)])
  with w1 ffs_remote_write [OF assms(3) q(1) w1] q(4-) show ?thesis by (intro exI [of _ w1] exI [of _ "wire q"]) fastforce
qed

text \<open>C23: the USB endpoints are opened all together or not at all. Starting from a handle whose bulk endpoints are closed,
  and a kernel that does not give out descriptor 0, \<open>init_functionfs\<close> ends with the control and both bulk endpoints open
  and nothing else opened, or with a handle that is closed (the control endpoint negative, so that the
  thread tries again) and every descriptor it opened closed again, whichever call failed.\<close>

theorem ffs_all_or_none:
  assumes "init_functionfs h w = Inr (h', w')" and "bulk_out h \<le> 0" and "bulk_in h \<le> 0" and "std_open w"
  shows "control h' < 0 \<and> endpoints h' = [] \<and> open_now w' = open_now w \<or>
    control h' > 0 \<and> bulk_out h' > 0 \<and> bulk_in h' > 0 \<and> open_now w' = [bulk_in h', bulk_out h', control h'] @ open_now w"
proof -
  have "endpoints h' = [bulk_in h', bulk_out h', control h']" if "control h' > 0" "bulk_out h' > 0" "bulk_in h' > 0"
    using that by (simp add: endpoints_def)
  then show ?thesis using init_functionfs_all [OF assms] unfolding all_or_none_def by metis
qed

text \<open>A kernel that has the first two endpoints only.\<close>

definition two_endpoints :: world where
  "two_endpoints = idle_world\<lparr>w_wr := (\<lambda>_. [WrAcc 100, WrAcc 100]), w_kern := (\<lambda>log c. case c of
     SysOpen path _ _ \<Rightarrow> if path = USB_FFS_ADB_EP0 then SRet 5 else if path = USB_FFS_ADB_OUT then SRet 6 else SErr (EOther 2)
   | _ \<Rightarrow> SRet 0)\<rparr>"

theorem ffs_all_or_none_witness:
  "\<exists>h' w'. init_functionfs ffs_handle two_endpoints = Inr (h', w') \<and>
    control h' = -1 \<and> bulk_out h' = -1 \<and> open_now w' = open_now two_endpoints"
proof -
  let ?h = ffs_handle
  have k: "std_open two_endpoints" by (simp add: std_open_def two_endpoints_def ret_of_def USB_FFS_ADB_EP0_def USB_FFS_ADB_OUT_def)
  obtain h' w' where r: "init_functionfs ?h two_endpoints = Inr (h', w')" "control h' = -1" "bulk_out h' = -1"
    by (simp add: init_functionfs_def open_bulk_def init_err_def write_fails_def adb_write.simps sys_write_def adb_open_def sys_call_def do_call_def
        ret_of_def ffs_handle_def zero_handle_def two_endpoints_def idle_world_def USB_FFS_ADB_EP0_def USB_FFS_ADB_OUT_def USB_FFS_ADB_IN_def Let_def)
  have "bulk_out ?h \<le> 0" "bulk_in ?h \<le> 0" by (simp_all add: ffs_handle_def zero_handle_def)
  from ffs_all_or_none [OF r(1) this k] r show ?thesis by auto
qed

end
