(* ===== verification/Jdwp.thy ===== *)
theory Jdwp
  imports Listeners
begin

text \<open>
  The service of \<open>jdwp_service.c\<close>: Java processes connect to a control socket and announce their process number;
  a client of the daemon can list them, follow changes of the list, and be connected to one of them. The processes live
  in a store by address; \<open>_jdwp_list\<close> and \<open>_jdwp_trackers_list\<close> are the lists their rings represent. The sockets of
  the two list services are sockets of the daemon whose function pointers are those of this file. A process's event
  structure is allocated after the process. Allocation does not fail.
\<close>

section \<open>State\<close>

definition MAX_OUT_FDS :: nat where "MAX_OUT_FDS = 4"

record JdwpProcess =
  pid :: int
  p_socket :: int
  p_fde :: addr
  in_buff :: bytes \<comment> \<open>the first \<open>in_len\<close> bytes\<close>
  out_fds :: "int list" \<comment> \<open>all \<open>MAX_OUT_FDS\<close> entries\<close>
  out_count :: nat

datatype jdwp_service = JdwpSocket bool \<comment> \<open>\<open>pass\<close>\<close> | JdwpTracker bool \<comment> \<open>\<open>need_update\<close>\<close>

record jstate =
  jd :: dstate
  procs :: "addr \<Rightarrow> JdwpProcess option"
  jdwp_list :: "addr list"
  services :: "addr \<Rightarrow> jdwp_service option"
  trackers :: "addr list"
  listen_socket :: int
  control_fde :: addr

definition get_proc :: "addr \<Rightarrow> jstate \<Rightarrow> JdwpProcess outcome" where
  "get_proc a st = (if a = 0 then Inl NullDeref else case procs st a of None \<Rightarrow> Inl Dangling | Some p \<Rightarrow> Inr p)"

abbreviation set_proc :: "addr \<Rightarrow> JdwpProcess \<Rightarrow> jstate \<Rightarrow> jstate" where
  "set_proc a p st \<equiv> st\<lparr>procs := (procs st)(a \<mapsto> p)\<rparr>"

definition on_jd :: "(dstate \<Rightarrow> dstate outcome) \<Rightarrow> jstate \<Rightarrow> jstate outcome" where
  "on_jd f st = andthen (f (jd st)) (\<lambda>d. Inr (st\<lparr>jd := d\<rparr>))"

definition on_jw :: "(world \<Rightarrow> 'r \<times> world) \<Rightarrow> jstate \<Rightarrow> 'r \<times> jstate" where
  "on_jw f st = (let (r, w) = f (wld (jd st)) in (r, st\<lparr>jd := (jd st)\<lparr>wld := w\<rparr>\<rparr>))"

definition close_fd :: "int \<Rightarrow> jstate \<Rightarrow> jstate" where
  "close_fd fd st = st\<lparr>jd := (jd st)\<lparr>evl := adb_close fd (evl (jd st))\<rparr>\<rparr>"

section \<open>The list\<close>

definition pid_line :: "int \<Rightarrow> string" where
  "pid_line n = dec_int n @ [CHR 0x0A]"

text \<open>The loop of \<open>jdwp_process_list\<close>: \<open>pos\<close> is \<open>p\<close>, \<open>lim\<close> is \<open>end\<close>.\<close>

fun pid_loop :: "addr list \<Rightarrow> bytes \<Rightarrow> nat \<Rightarrow> nat \<Rightarrow> jstate \<Rightarrow> (nat \<times> bytes) outcome" where
  "pid_loop [] buf pos lim st = Inr (pos, buf)"
| "pid_loop (a # as) buf pos lim st = andthen (get_proc a st) (\<lambda>proc.
     if pid proc < 0 then pid_loop as buf pos lim st
     else andthen (snprintf_at buf pos (word_of_nat (lim - pos)) (pid_line (pid proc))) (\<lambda>(_, buf1).
       let len = length (pid_line (pid proc)) in
       if lim \<le> pos + len then Inr (pos, buf1) else pid_loop as buf1 (pos + len) lim st))"

text \<open>The list goes into the buffer from \<open>start\<close> on, up to its end: the length and the buffer.\<close>

definition jdwp_process_list :: "bytes \<Rightarrow> nat \<Rightarrow> jstate \<Rightarrow> (nat \<times> bytes) outcome" where
  "jdwp_process_list buf start st = andthen (pid_loop (jdwp_list st) buf start (length buf) st) (\<lambda>(pos, buf1).
     andthen (put_at buf1 pos [0]) (\<lambda>buf2. Inr (pos - start, buf2)))"

definition jdwp_process_list_msg :: "bytes \<Rightarrow> jstate \<Rightarrow> (nat \<times> bytes) outcome" where
  "jdwp_process_list_msg buf st = andthen (jdwp_process_list buf 4 st) (\<lambda>(len, buf1).
     andthen (put_at buf1 0 (bytes_of (take 4 (hex_04 len)))) (\<lambda>buf2. Inr (len + 4, buf2)))"

section \<open>The list services\<close>

text \<open>A message to the peer of the service socket \<open>a\<close>.\<close>

definition send_to_peer :: "addr \<Rightarrow> apacket \<Rightarrow> jstate \<Rightarrow> jstate outcome" where
  "send_to_peer a p st = on_jd (\<lambda>d. andthen (get_sock a d) (\<lambda>s. andthen (sock_enqueue (peer s) p d) (\<lambda>(_, d1). Inr d1))) st"

fun update_trackers :: "addr list \<Rightarrow> bytes \<Rightarrow> nat \<Rightarrow> jstate \<Rightarrow> jstate outcome" where
  "update_trackers [] buffer len st = Inr st"
| "update_trackers (t # ts) buffer len st = andthen (new_packet (jd st)) (\<lambda>p.
     andthen (put_at (a_data p) 0 (take len buffer)) (\<lambda>d.
     andthen (send_to_peer t (p\<lparr>a_data := d, a_len := word_of_nat len\<rparr>) st) (update_trackers ts buffer len)))"

text \<open>\<open>mem\<close> is what the buffer on the stack holds.\<close>

definition jdwp_process_list_updated :: "bytes \<Rightarrow> jstate \<Rightarrow> jstate outcome" where
  "jdwp_process_list_updated mem st = andthen (jdwp_process_list_msg mem st) (\<lambda>(len, buffer).
     update_trackers (trackers st) buffer len st)"

text \<open>\<open>peer->peer=NULL; peer->close(peer)\<close>, if there is a peer.\<close>

definition close_peer :: "addr \<Rightarrow> dstate \<Rightarrow> dstate outcome" where
  "close_peer q d = (if q = 0 then Inr d else andthen (upd_sock q (\<lambda>x. x\<lparr>peer := 0\<rparr>) d) (close_sock q))"

definition jdwp_socket_close :: "addr \<Rightarrow> jstate \<Rightarrow> jstate outcome" where
  "jdwp_socket_close a st = andthen (get_sock a (jd st)) (\<lambda>s.
     andthen (on_jd (remove_socket a) st) (\<lambda>st1.
     andthen (on_jd (close_peer (peer s)) st1) (\<lambda>st2.
       Inr (st2\<lparr>jd := free_sock a (jd st2), services := (services st2)(a := None)\<rparr>))))"

definition jdwp_tracker_close :: "addr \<Rightarrow> jstate \<Rightarrow> jstate outcome" where
  "jdwp_tracker_close a st = andthen (get_sock a (jd st)) (\<lambda>s.
     andthen (on_jd (close_peer (peer s)) st) (\<lambda>st1.
     andthen (on_jd (remove_socket a) st1) (\<lambda>st2.
       Inr (st2\<lparr>trackers := remove1 a (trackers st2), jd := free_sock a (jd st2), services := (services st2)(a := None)\<rparr>))))"

text \<open>Nobody writes to these services: the packet is dropped, and the peer is closed.\<close>

definition jdwp_socket_enqueue :: "addr \<Rightarrow> apacket \<Rightarrow> jstate \<Rightarrow> (int \<times> jstate) outcome" where
  "jdwp_socket_enqueue a p st =
    andthen (get_sock a (jd st)) (\<lambda>s. andthen (on_jd (close_sock (peer s)) st) (\<lambda>st1. Inr (-1, st1)))"

definition jdwp_tracker_enqueue :: "addr \<Rightarrow> apacket \<Rightarrow> jstate \<Rightarrow> (int \<times> jstate) outcome" where
  "jdwp_tracker_enqueue a p st =
    andthen (get_sock a (jd st)) (\<lambda>s. andthen (on_jd (close_sock (peer s)) st) (\<lambda>st1. Inr (-1, st1)))"

definition jdwp_socket_ready :: "addr \<Rightarrow> bool \<Rightarrow> jstate \<Rightarrow> jstate outcome" where
  "jdwp_socket_ready a pass st = andthen (get_sock a (jd st)) (\<lambda>s.
     if \<not> pass then
       andthen (new_packet (jd st)) (\<lambda>p.
       andthen (jdwp_process_list (a_data p) 0 st) (\<lambda>(len, d).
       andthen (send_to_peer a (p\<lparr>a_data := d, a_len := word_of_nat len\<rparr>) st) (\<lambda>st1.
         Inr (st1\<lparr>services := (services st1)(a \<mapsto> JdwpSocket True)\<rparr>))))
     else on_jd (close_sock (peer s)) st)"

definition jdwp_tracker_ready :: "addr \<Rightarrow> bool \<Rightarrow> jstate \<Rightarrow> jstate outcome" where
  "jdwp_tracker_ready a need_update st =
    (if \<not> need_update then Inr st
     else andthen (new_packet (jd st)) (\<lambda>p.
       andthen (jdwp_process_list_msg (a_data p) st) (\<lambda>(len, d).
         send_to_peer a (p\<lparr>a_data := d, a_len := word_of_nat len\<rparr>) (st\<lparr>services := (services st)(a \<mapsto> JdwpTracker False)\<rparr>))))"

text \<open>\<open>s->enqueue(s,p)\<close>, \<open>s->ready(s)\<close> and \<open>s->close(s)\<close> of such a socket.\<close>

definition jdwp_enqueue :: "addr \<Rightarrow> apacket \<Rightarrow> jstate \<Rightarrow> (int \<times> jstate) outcome" where
  "jdwp_enqueue a p st = (case services st a of
       None \<Rightarrow> Inl Dangling
     | Some (JdwpSocket _) \<Rightarrow> jdwp_socket_enqueue a p st
     | Some (JdwpTracker _) \<Rightarrow> jdwp_tracker_enqueue a p st)"

definition jdwp_ready :: "addr \<Rightarrow> jstate \<Rightarrow> jstate outcome" where
  "jdwp_ready a st = (case services st a of
       None \<Rightarrow> Inl Dangling
     | Some (JdwpSocket pass) \<Rightarrow> jdwp_socket_ready a pass st
     | Some (JdwpTracker need_update) \<Rightarrow> jdwp_tracker_ready a need_update st)"

definition jdwp_close :: "addr \<Rightarrow> jstate \<Rightarrow> jstate outcome" where
  "jdwp_close a st = (case services st a of
       None \<Rightarrow> Inl Dangling
     | Some (JdwpSocket _) \<Rightarrow> jdwp_socket_close a st
     | Some (JdwpTracker _) \<Rightarrow> jdwp_tracker_close a st)"

definition new_service_socket :: "jdwp_service \<Rightarrow> jstate \<Rightarrow> (addr \<times> jstate) outcome" where
  "new_service_socket k st =
    (let a = fresh (jd st);
         st1 = st\<lparr>jd := (jd st)\<lparr>fresh := a + 1, socks := (socks (jd st))(a \<mapsto> zero_socket)\<rparr>\<rparr>
     in andthen (on_jd (install_local_socket a) st1) (\<lambda>st2. Inr (a, st2\<lparr>services := (services st2)(a \<mapsto> k)\<rparr>)))"

definition create_jdwp_service_socket :: "jstate \<Rightarrow> (addr \<times> jstate) outcome" where
  "create_jdwp_service_socket st = new_service_socket (JdwpSocket False) st"

definition create_jdwp_tracker_service_socket :: "jstate \<Rightarrow> (addr \<times> jstate) outcome" where
  "create_jdwp_tracker_service_socket st =
    new_service_socket (JdwpTracker True) (st\<lparr>trackers := trackers st @ [fresh (jd st)]\<rparr>)"

section \<open>Processes\<close>

definition jdwp_process_free :: "bytes \<Rightarrow> addr \<Rightarrow> jstate \<Rightarrow> jstate outcome" where
  "jdwp_process_free mem a st =
    (if a = 0 then Inr st
     else andthen (get_proc a st) (\<lambda>proc.
       let st1 = st\<lparr>jdwp_list := remove1 a (jdwp_list st)\<rparr>;
           st2 = (if p_socket proc \<ge> 0
                  then close_fd (p_socket proc) (snd (on_jw (call (SysShutdown (p_socket proc))) st1)) else st1)
       in andthen (if p_fde proc \<noteq> 0 then on_jd (on_evl (fdevent_destroy (p_fde proc))) st2 else Inr st2) (\<lambda>st3.
            let st4 = fold close_fd (take (out_count proc) (out_fds proc)) st3
            in jdwp_process_list_updated mem (st4\<lparr>procs := (procs st4)(a := None)\<rparr>))))"

definition jdwp_process_alloc :: "int \<Rightarrow> jstate \<Rightarrow> (addr \<times> jstate) outcome" where
  "jdwp_process_alloc sock st =
    (let a = fresh (jd st); f = a + 1;
         st1 = st\<lparr>jd := (jd st)\<lparr>fresh := a + 2\<rparr>\<rparr>
     in andthen (fdevent_create f sock (Handler 5) a (evl (jd st1))) (\<lambda>(fde, l1).
          let l2 = upd_fde fde (\<lambda>x. x\<lparr>fde_state := fde_state x OR FDE_DONT_CLOSE\<rparr>) l1;
              st2 = st1\<lparr>jd := (jd st1)\<lparr>evl := l2\<rparr>,
                procs := (procs st1)(a \<mapsto> \<lparr>pid = -1, p_socket = sock, p_fde = fde, in_buff = [], out_fds = replicate MAX_OUT_FDS 0, out_count = 0\<rparr>),
                jdwp_list := jdwp_list st1 @ [a]\<rparr>
          in andthen (on_jd (on_evl (fdevent_add fde FDE_READ)) st2) (\<lambda>st3. Inr (a, st3))))"

text \<open>The receive loop for the process number: \<open>got\<close> is \<open>in_buff\<close>.\<close>

datatype recv_end = RecvAll | RecvLater | RecvFailed

function recv_pid :: "int \<Rightarrow> bytes \<Rightarrow> world \<Rightarrow> (recv_end \<times> bytes \<times> world) outcome" where
  "recv_pid fd got w =
    (if 4 \<le> length got then Inr (RecvAll, got, w)
     else andthen (sys_read fd (4 - length got) w) (\<lambda>(r, w1). case r of
         Inl e \<Rightarrow> if e = EINTR then recv_pid fd got w1 else Inr (if e = EAGAIN then RecvLater else RecvFailed, got, w1)
       | Inr bs \<Rightarrow> if bs = [] then Inr (RecvFailed, got, w1) else recv_pid fd (got @ bs) w1))"
  by pat_completeness auto
termination
  by (relation "measure (\<lambda>(fd, got, w). rd_left fd w)") (auto dest: sys_read_left)

text \<open>The other loop: what a known process sends is ignored. \<open>True\<close> is that it has ended.\<close>

function recv_ignore :: "int \<Rightarrow> world \<Rightarrow> (bool \<times> world) outcome" where
  "recv_ignore fd w = andthen (sys_read fd 32 w) (\<lambda>(r, w1). case r of
       Inl e \<Rightarrow> if e = EINTR then recv_ignore fd w1 else Inr (e \<noteq> EAGAIN, w1)
     | Inr bs \<Rightarrow> if bs = [] then Inr (True, w1) else recv_ignore fd w1)"
  by pat_completeness auto
termination
  by (relation "measure (\<lambda>(fd, w). rd_left fd w)") (auto dest: sys_read_left)

declare recv_pid.simps [simp del] recv_ignore.simps [simp del]

text \<open>\<open>sscanf(temp,"%04x",&pid)\<close>: at most four characters after white space, a sign, a prefix, digits;
  \<open>None\<close> is that nothing was converted. The value is stored in an \<open>int\<close>.\<close>

definition scan_hex :: "string \<Rightarrow> int option" where
  "scan_hex s =
    (let (neg, u) = strip_sign (take 4 (dropWhile is_space s));
         d = (if starts_with ''0x'' u \<or> starts_with ''0X'' u then drop 2 u else u)
     in if d = [] \<or> \<not> digit_value (hd d) < 16 then None
        else let v = word_of_nat (read_digits 16 0 d) :: u32 in Some (sint (if neg then - v else v)))"

definition F_GETFL :: nat where "F_GETFL = 3"
definition F_SETFL :: nat where "F_SETFL = 4"
definition O_NONBLOCK :: int where "O_NONBLOCK = 2048"

text \<open>Sending the first descriptor that waits. \<open>sendmsg\<close> is repeated on EINTR: the answer is the last one.\<close>

definition send_out_fd :: "bytes \<Rightarrow> addr \<Rightarrow> JdwpProcess \<Rightarrow> jstate \<Rightarrow> jstate outcome" where
  "send_out_fd mem a proc st =
    (let fd = out_fds proc ! 0;
         (flags, st1) = on_jw (call (SysFcntl (p_socket proc) F_GETFL 0)) st
     in if flags = -1 then jdwp_process_free mem a st1
        else
          let (r, st2) = on_jw (call (SysFcntl (p_socket proc) F_SETFL (nat (flags AND NOT O_NONBLOCK)))) st1
          in if r = -1 then jdwp_process_free mem a st2
             else
               let (r, st3) = on_jw (call (SysSendFd (p_socket proc) fd)) st2
               in if r < 0 then jdwp_process_free mem a st3
                  else
                    let st4 = close_fd fd st3;
                        proc1 = proc\<lparr>out_fds := take (out_count proc - 1) (drop 1 (out_fds proc)) @ drop (out_count proc - 1) (out_fds proc)\<rparr>;
                        (r, st5) = on_jw (call (SysFcntl (p_socket proc) F_SETFL (nat flags))) (set_proc a proc1 st4)
                    in if r = -1 then jdwp_process_free mem a st5
                       else
                         let proc2 = proc1\<lparr>out_count := out_count proc1 - 1\<rparr>;
                             st6 = set_proc a proc2 st5
                         in if out_count proc2 = 0 then on_jd (on_evl (fdevent_del (p_fde proc2) FDE_WRITE)) st6 else Inr st6)"

text \<open>The part for \<open>FDE_READ\<close>: \<open>True\<close> is that the function goes on to the part for \<open>FDE_WRITE\<close>.\<close>

definition read_event :: "bytes \<Rightarrow> int \<Rightarrow> addr \<Rightarrow> JdwpProcess \<Rightarrow> jstate \<Rightarrow> (bool \<times> jstate) outcome" where
  "read_event mem sock a proc st =
    (if pid proc < 0 then
       andthen (recv_pid sock (in_buff proc) (wld (jd st))) (\<lambda>(r, got, w).
         let proc1 = proc\<lparr>in_buff := got\<rparr>;
             st1 = set_proc a proc1 (st\<lparr>jd := (jd st)\<lparr>wld := w\<rparr>\<rparr>)
         in case r of
              RecvLater \<Rightarrow> Inr (False, st1)
            | RecvFailed \<Rightarrow> andthen (jdwp_process_free mem a st1) (\<lambda>st2. Inr (False, st2))
            | RecvAll \<Rightarrow> andthen (cstr (got @ [0])) (\<lambda>temp. case scan_hex temp of
                  None \<Rightarrow> andthen (jdwp_process_free mem a st1) (\<lambda>st2. Inr (False, st2))
                | Some n \<Rightarrow> andthen (jdwp_process_list_updated mem (set_proc a (proc1\<lparr>pid := n\<rparr>) st1)) (\<lambda>st2. Inr (True, st2))))
     else
       andthen (recv_ignore sock (wld (jd st))) (\<lambda>(ended, w).
         let st1 = st\<lparr>jd := (jd st)\<lparr>wld := w\<rparr>\<rparr>
         in if ended then andthen (jdwp_process_free mem a st1) (\<lambda>st2. Inr (False, st2)) else Inr (False, st1)))"

definition jdwp_process_event :: "bytes \<Rightarrow> int \<Rightarrow> u16 \<Rightarrow> addr \<Rightarrow> jstate \<Rightarrow> jstate outcome" where
  "jdwp_process_event mem sock events a st = andthen (get_proc a st) (\<lambda>proc.
     andthen (if has events FDE_READ then read_event mem sock a proc st else Inr (True, st)) (\<lambda>(go_on, st1).
       if \<not> go_on \<or> \<not> has events FDE_WRITE then Inr st1
       else andthen (get_proc a st1) (\<lambda>proc1. if out_count proc1 > 0 then send_out_fd mem a proc1 st1 else Inr st1)))"

section \<open>Connecting to a process\<close>

fun find_pid :: "int \<Rightarrow> addr list \<Rightarrow> jstate \<Rightarrow> addr option outcome" where
  "find_pid n [] st = Inr None"
| "find_pid n (a # as) st = andthen (get_proc a st) (\<lambda>proc. if pid proc = n then Inr (Some a) else find_pid n as st)"

definition create_jdwp_connection_fd :: "int \<Rightarrow> jstate \<Rightarrow> (int \<times> jstate) outcome" where
  "create_jdwp_connection_fd n st = andthen (find_pid n (jdwp_list st) st) (\<lambda>r. case r of
       None \<Rightarrow> Inr (-1, st)
     | Some a \<Rightarrow> andthen (get_proc a st) (\<lambda>proc.
         if out_count proc \<ge> MAX_OUT_FDS then Inr (-1, st)
         else case sys_call SysSocketpair (wld (jd st)) of
             (SPair x y, w) \<Rightarrow>
               (let st1 = st\<lparr>jd := (jd st)\<lparr>wld := w\<rparr>\<rparr>;
                    proc1 = proc\<lparr>out_fds := (out_fds proc)[out_count proc := y], out_count := out_count proc + 1\<rparr>;
                    st2 = set_proc a proc1 st1
                in if out_count proc1 = 1
                   then andthen (on_jd (on_evl (fdevent_add (p_fde proc1) FDE_WRITE)) st2) (\<lambda>st3. Inr (x, st3))
                   else Inr (x, st2))
           | (_, w) \<Rightarrow> Inr (-1, st\<lparr>jd := (jd st)\<lparr>wld := w\<rparr>\<rparr>)))"

section \<open>The control socket\<close>

definition JDWP_CONTROL_NAME :: bytes where "JDWP_CONTROL_NAME = 0 # bytes_of ''jdwp-control''"

definition jdwp_control_init :: "bytes \<Rightarrow> jstate \<Rightarrow> (int \<times> jstate) outcome" where
  "jdwp_control_init sockname st =
    (if length sockname \<ge> sizeof_sun_path then Inr (-1, st)
     else
       let (s, st1) = on_jw (call (SysSocket AF_LOCAL SOCK_STREAM)) st in
       if s < 0 then Inr (-1, st1)
       else
         let (r, st2) = on_jw (call (SysBind s (AddrUn sockname))) st1 in
         if r < 0 then Inr (-1, close_fd s st2)
         else
           let (r, st3) = on_jw (call (SysListen s 4)) st2 in
           if r < 0 then Inr (-1, close_fd s st3)
           else
             let f = fresh (jd st3); st4 = st3\<lparr>jd := (jd st3)\<lparr>fresh := f + 1\<rparr>, listen_socket := s\<rparr> in
             andthen (fdevent_create f s (Handler 6) 0 (evl (jd st4))) (\<lambda>(fde, l).
             andthen (on_jd (on_evl (fdevent_add fde FDE_READ)) (st4\<lparr>jd := (jd st4)\<lparr>evl := l\<rparr>, control_fde := fde\<rparr>)) (\<lambda>st5. Inr (0, st5))))"

definition jdwp_control_event :: "int \<Rightarrow> u16 \<Rightarrow> jstate \<Rightarrow> jstate outcome" where
  "jdwp_control_event s0 events st =
    (if \<not> has events FDE_READ then Inr st
     else andthen (adb_socket_accept (listen_socket st) (wld (jd st))) (\<lambda>(s, w).
       let st1 = st\<lparr>jd := (jd st)\<lparr>wld := w\<rparr>\<rparr> in
       if s < 0 then Inr st1 else andthen (jdwp_process_alloc s st1) (\<lambda>(_, st2). Inr st2)))"

definition init_jdwp :: "jstate \<Rightarrow> (int \<times> jstate) outcome" where
  "init_jdwp st = jdwp_control_init JDWP_CONTROL_NAME (st\<lparr>jdwp_list := [], trackers := []\<rparr>)"

section \<open>Lemmas\<close>

text \<open>The lines that fit into a buffer together with the zero byte: the first that does not ends the list.\<close>

fun fit :: "nat \<Rightarrow> string list \<Rightarrow> string" where
  "fit room [] = []"
| "fit room (l # ls) = (if room \<le> length l then [] else l @ fit (room - length l) ls)"

lemma fit_length: "0 < room \<Longrightarrow> length (fit room ls) < room"
  by (induction room ls rule: fit.induct) auto

lemma fit_all: "length (concat ls) < room \<Longrightarrow> fit room ls = concat ls"
  by (induction room ls rule: fit.induct) auto

definition proc :: "jstate \<Rightarrow> addr \<Rightarrow> JdwpProcess" where
  "proc st a = the (procs st a)"

definition procs_ok :: "jstate \<Rightarrow> bool" where
  "procs_ok st \<longleftrightarrow> (\<forall>a \<in> set (jdwp_list st). a \<noteq> 0 \<and> procs st a \<noteq> None)"

definition pid_lines :: "jstate \<Rightarrow> addr list \<Rightarrow> string list" where
  "pid_lines st as = map (\<lambda>a. pid_line (pid (proc st a))) (filter (\<lambda>a. 0 \<le> pid (proc st a)) as)"

lemma get_proc_listed: "procs_ok st \<Longrightarrow> a \<in> set (jdwp_list st) \<Longrightarrow> get_proc a st = Inr (proc st a)"
  by (auto simp: procs_ok_def get_proc_def proc_def)

text \<open>A text that does not fit is cut, inside the buffer.\<close>

lemma snprintf_cut:
  assumes "0 < r" and "pos + r = length buf" and "r < 2 ^ 64" and "r \<le> length s"
  shows "\<exists>buf'. snprintf_at buf pos (word_of_nat r) s = Inr (word_of_nat (length s), buf') \<and> length buf' = length buf \<and> take pos buf' = take pos buf"
proof -
  have "unat (word_of_nat r :: u64) = r" using unat_u64 assms(3) by blast
  moreover from this have "(word_of_nat r :: u64) \<noteq> 0" using assms(1) by (metis less_irrefl unat_0)
  ultimately show ?thesis using assms by (auto simp: snprintf_at_def Let_def)
qed

lemma pid_loop_fit:
  assumes "procs_ok st" and "set as \<subseteq> set (jdwp_list st)" and "pos < length buf" and "length buf < 2 ^ 64"
  shows "\<exists>buf'. pid_loop as buf pos (length buf) st = Inr (pos + length (fit (length buf - pos) (pid_lines st as)), buf') \<and>
    length buf' = length buf \<and>
    take (pos + length (fit (length buf - pos) (pid_lines st as))) buf' = take pos buf @ bytes_of (fit (length buf - pos) (pid_lines st as))"
  using assms(2-)
proof (induction as arbitrary: buf pos)
  case Nil
  then show ?case by (simp add: pid_lines_def bytes_of_def)
next
  case (Cons a as)
  have a: "get_proc a st = Inr (proc st a)" using get_proc_listed [OF assms(1)] Cons.prems(1) by simp
  show ?case
  proof (cases "pid (proc st a) < 0")
    case True
    then have "pid_lines st (a # as) = pid_lines st as" by (simp add: pid_lines_def)
    with True a Cons show ?thesis by simp
  next
    case False
    let ?l = "pid_line (pid (proc st a))" and ?r = "length buf - pos"
    have ls: "pid_lines st (a # as) = ?l # pid_lines st as" using False by (simp add: pid_lines_def)
    show ?thesis
    proof (cases "?r \<le> length ?l")
      case True
      have "0 < ?r" "pos + ?r = length buf" "?r < 2 ^ 64" using Cons.prems(2,3) by auto
      from snprintf_cut [OF this True] obtain buf1 where "snprintf_at buf pos (word_of_nat ?r) ?l = Inr (word_of_nat (length ?l), buf1)"
        "length buf1 = length buf" "take pos buf1 = take pos buf" by blast
      moreover have "length buf \<le> pos + length ?l" using True by simp
      ultimately show ?thesis using True False a Cons.prems(2) by (simp add: ls Let_def bytes_of_def)
    next
      case fits: False
      define buf1 where "buf1 = take pos buf @ (bytes_of ?l @ [0]) @ drop (pos + length ?l + 1) buf"
      have u: "unat (word_of_nat ?r :: u64) = ?r" using unat_u64 Cons.prems(3) by simp
      have put: "snprintf_at buf pos (word_of_nat ?r) ?l = Inr (word_of_nat (length ?l), buf1)"
        unfolding buf1_def by (rule snprintf_fits) (use fits u in auto)
      have b1: "length buf1 = length buf" "take (pos + length ?l) buf1 = take pos buf @ bytes_of ?l" using fits by (simp_all add: buf1_def)
      let ?t = "fit (?r - length ?l) (pid_lines st as)"
      have "length buf1 - (pos + length ?l) = ?r - length ?l" "pos + length ?l < length buf1" using b1(1) fits by auto
      with Cons.IH [of "pos + length ?l" buf1] Cons.prems b1 obtain buf' where
        "pid_loop as buf1 (pos + length ?l) (length buf) st = Inr (pos + length ?l + length ?t, buf')" "length buf' = length buf"
        "take (pos + length ?l + length ?t) buf' = take pos buf @ bytes_of ?l @ bytes_of ?t" by auto
      moreover have "\<not> length buf \<le> pos + length ?l" using fits by simp
      ultimately show ?thesis using put a False fits by (simp add: ls Let_def bytes_of_append add.assoc)
    qed
  qed
qed

lemma list_msg_fit:
  assumes "procs_ok st" and "4 < length buf" and "length buf \<le> 65540"
  shows "\<exists>buf'. jdwp_process_list_msg buf st = Inr (length (fit (length buf - 4) (pid_lines st (jdwp_list st))) + 4, buf') \<and>
    length buf' = length buf \<and>
    take (length (fit (length buf - 4) (pid_lines st (jdwp_list st))) + 4) buf' =
      bytes_of (hex4 (length (fit (length buf - 4) (pid_lines st (jdwp_list st)))) @ fit (length buf - 4) (pid_lines st (jdwp_list st)))"
proof -
  let ?t = "fit (length buf - 4) (pid_lines st (jdwp_list st))"
  obtain buf1 where b1: "pid_loop (jdwp_list st) buf 4 (length buf) st = Inr (4 + length ?t, buf1)" "length buf1 = length buf"
    "take (4 + length ?t) buf1 = take 4 buf @ bytes_of ?t"
    using pid_loop_fit [OF assms(1) subset_refl assms(2)] assms(3) by auto
  have t: "length ?t < length buf - 4" using fit_length assms(2) by simp
  then have "length ?t < 65536" using assms(3) by simp
  then have h: "take 4 (hex_04 (length ?t)) = hex4 (length ?t)" by (simp add: hex_04_def)
  let ?b2 = "take (4 + length ?t) buf1 @ [0] @ drop (4 + length ?t + 1) buf1"
  have l: "jdwp_process_list buf 4 st = Inr (length ?t, ?b2)"
    using b1(1,2) t by (simp add: jdwp_process_list_def put_at_def)
  let ?b3 = "bytes_of (hex4 (length ?t)) @ drop 4 ?b2"
  have "jdwp_process_list_msg buf st = Inr (length ?t + 4, ?b3)"
    using l b1(2) t by (simp add: jdwp_process_list_msg_def h put_at_def)
  moreover have "length ?b3 = length buf" using b1(2) t by simp
  moreover have "take (length ?t + 4) ?b3 = bytes_of (hex4 (length ?t) @ ?t)"
    using b1(2,3) t assms(2) by (simp add: bytes_of_append)
  ultimately show ?thesis by blast
qed

text \<open>The flag of a new process makes its first \<open>fdevent_add\<close> fail.\<close>

lemma alloc_exits:
  assumes inv: "loop_inv (evl (jd st)) pend" and f: "\<not> active (fde_state (fdes (evl (jd st)) (fresh (jd st) + 1)))" "0 < fresh (jd st)"
    and fd: "n \<le> 32000" "\<And>b. active (fde_state (fdes (evl (jd st)) b)) \<Longrightarrow> fde_fd (fdes (evl (jd st)) b) \<noteq> int n" and ep: "epoll_ok (evl (jd st))"
  shows "jdwp_process_alloc (int n) st = Inl (Exit 1)"
proof -
  let ?f = "fresh (jd st) + 1"
  obtain l1 where l1: "fdevent_install ?f (int n) (Handler 5) (fresh (jd st)) (evl (jd st)) = Inr l1" "loop_inv l1 pend"
    "fde_state (fdes l1 ?f) = FDE_ACTIVE" "fde_fd (fdes l1 ?f) = int n" "interest l1 = interest (evl (jd st))"
    using fdevent_install_inv [OF inv f(1) _ _ fd ep, of "Handler 5" "fresh (jd st)"] f(2) by (auto simp: list_pending_def)
  let ?l = "upd_fde ?f (\<lambda>x. x\<lparr>fde_state := fde_state x OR FDE_DONT_CLOSE\<rparr>)
    (upd_fde ?f (\<lambda>x. x\<lparr>fde_state := fde_state x OR FDE_CREATED\<rparr>) l1)"
  have "interest l1 (int n) = None"
    using interest_active [OF l1(2), of ?f] l1(3,4) by (simp add: asked_def want_def fde_consts active_def)
  then have "fdevent_add ?f FDE_READ ?l = Inl (Exit 1)"
    by (intro dont_close_add_exits) (simp_all add: l1(3,4) [simplified] fde_consts active_def bit_simps)
  with l1(1) show ?thesis by (simp add: jdwp_process_alloc_def fdevent_create_def on_jd_def on_evl_def Let_def)
qed

section \<open>Properties\<close>

text \<open>C35: the message with the Java processes is exact. Into any buffer of 5 to 65540 bytes (those of the code have 1024
  and 4096), \<open>jdwp_process_list_msg\<close> writes four hexadecimal digits and then, in the order of the list, a line with
  the number of every process that has announced one, as long as the lines fit with the zero byte; the digits
  are the length of those lines, the length returned is the length of the message, and nothing is written
  outside the buffer. When all lines fit, none is missing.\<close>

theorem jdwp_list_exact:
  assumes "procs_ok st" and "4 < length buf" and "length buf \<le> 65540"
    and "t = fit (length buf - 4) (map (\<lambda>a. pid_line (pid (proc st a))) (filter (\<lambda>a. 0 \<le> pid (proc st a)) (jdwp_list st)))"
  shows "(\<exists>buf'. jdwp_process_list_msg buf st = Inr (length t + 4, buf') \<and> length buf' = length buf \<and>
      take (length t + 4) buf' = bytes_of (hex4 (length t) @ t)) \<and>
    (length (concat (pid_lines st (jdwp_list st))) < length buf - 4 \<longrightarrow> t = concat (pid_lines st (jdwp_list st)))"
  using list_msg_fit [OF assms(1-3)] assms(4) fit_all by (auto simp: pid_lines_def)

definition sample_jdwp :: jstate where
  "sample_jdwp = \<lparr>jd = sample_daemon\<lparr>wld := idle_world\<lparr>w_kern := (\<lambda>_ _. SRet 9)\<rparr>\<rparr>,
     procs = (\<lambda>_. None)(11 := Some \<lparr>pid = 42, p_socket = 5, p_fde = 12, in_buff = [], out_fds = [0, 0, 0, 0], out_count = 0\<rparr>,
       13 := Some \<lparr>pid = -1, p_socket = 6, p_fde = 14, in_buff = [], out_fds = [0, 0, 0, 0], out_count = 0\<rparr>,
       15 := Some \<lparr>pid = 1234, p_socket = 7, p_fde = 16, in_buff = [], out_fds = [0, 0, 0, 0], out_count = 0\<rparr>),
     jdwp_list = [11, 13, 15], services = (\<lambda>_. None), trackers = [], listen_socket = 4, control_fde = 17\<rparr>"

theorem jdwp_list_exact_witness:
  "\<exists>buf'. jdwp_process_list_msg (replicate 1024 0) sample_jdwp = Inr (12, buf') \<and>
    take 12 buf' = bytes_of (''000842'' @ [CHR 0x0A] @ ''1234'' @ [CHR 0x0A])"
proof -
  let ?b = "replicate 1024 0 :: bytes"
  let ?t = "fit (length ?b - 4) (map (\<lambda>a. pid_line (pid (proc sample_jdwp a))) (filter (\<lambda>a. 0 \<le> pid (proc sample_jdwp a)) (jdwp_list sample_jdwp)))"
  have d: "dec 42 = ''42''" "dec 1234 = ''1234''" by (simp_all add: dec.simps char_of_def bit_Suc_0_iff)
  have t: "?t = ''42'' @ [CHR 0x0A] @ ''1234'' @ [CHR 0x0A]"
    by (simp add: sample_jdwp_def proc_def pid_line_def dec_int_def d)
  have ok: "procs_ok sample_jdwp" by (simp add: procs_ok_def sample_jdwp_def)
  have "hex4 8 = ''0008''" by (simp add: hex4_def hex_digit_def char_of_def bit_Suc_0_iff)
  moreover have l: "length (''42'' @ [CHR 0x0A] @ ''1234'' @ [CHR 0x0A]) = 8" by simp
  ultimately show ?thesis using jdwp_list_exact [OF ok _ _ refl, of ?b, unfolded t l] by auto
qed

text \<open>C39: no Java process can be debugged through this daemon: as soon as the kernel accepts a connection on the
  control socket (a descriptor that is not watched yet and below the limit of 32000), the daemon exits. The new event
  structure is marked \<open>FDE_DONT_CLOSE\<close>, which lies inside the mask of the events, so the event loop takes it for a member of
  the epoll set and the change of the missing entry fails.\<close>

theorem jdwp_connection_exits:
  assumes "loop_inv (evl (jd st)) pend" and "0 < fresh (jd st)" and "\<not> active (fde_state (fdes (evl (jd st)) (fresh (jd st) + 1)))"
    and "epoll_ok (evl (jd st))" and "has events FDE_READ"
    and "w_kern (wld (jd st)) (w_log (wld (jd st))) (SysAccept (listen_socket st)) = SRet (int n)" and "n \<le> 32000"
    and "\<And>b. active (fde_state (fdes (evl (jd st)) b)) \<Longrightarrow> fde_fd (fdes (evl (jd st)) b) \<noteq> int n"
  shows "jdwp_control_event s events st = Inl (Exit 1)"
proof -
  have "adb_socket_accept (listen_socket st) (wld (jd st)) = Inr (int n, (wld (jd st))\<lparr>w_log := w_log (wld (jd st)) @ [SysAccept (listen_socket st)]\<rparr>)"
    using assms(6) by (simp add: adb_socket_accept_def call_def sys_call_def ret_of_def)
  moreover have "jdwp_process_alloc (int n) (st\<lparr>jd := (jd st)\<lparr>wld := w\<rparr>\<rparr>) = Inl (Exit 1)" for w
    by (rule alloc_exits [where pend = pend]) (use assms in auto)
  ultimately show ?thesis using assms(5) by (simp add: jdwp_control_event_def)
qed

theorem jdwp_connection_exits_witness:
  "jdwp_control_event 4 FDE_READ sample_jdwp = Inl (Exit 1)"
  by (rule jdwp_connection_exits [where pend = "[]" and n = 9])
    (use loop_inv_start in \<open>auto simp: sample_jdwp_def sample_daemon_def fdevent_start_def zero_fde_def fde_consts active_def\<close>)

end
