(* ===== verification/Workers.thy ===== *)
theory Workers
  imports FileSync Usb
begin

text \<open>
  The services that run in a thread of their own: \<open>recover_service\<close>, \<open>restart_tcp_service\<close>, \<open>restart_usb_service\<close>,
  \<open>reboot_service\<close> and \<open>subproc_waiter_service\<close> of \<open>services.c\<close>, and those of \<open>log_service.c\<close>, \<open>remount_service.c\<close> and
  \<open>framebuffer_service.c\<close>. Each gets the descriptor of the client, its argument and the world. Strings
  that are passed by pointer live in a heap of their own, so that reading or freeing one that was freed shows.
  The file transfer service has its own theory.
\<close>

section \<open>Strings on the heap\<close>

type_synonym heap = "addr \<Rightarrow> string option"

definition load_str :: "addr \<Rightarrow> heap \<Rightarrow> string outcome" where
  "load_str a h = (if a = 0 then Inl NullDeref else case h a of None \<Rightarrow> Inl Dangling | Some s \<Rightarrow> Inr s)"

text \<open>\<open>free\<close>: of the null pointer it does nothing, of a freed block it is undefined.\<close>

definition free_str :: "addr \<Rightarrow> heap \<Rightarrow> heap outcome" where
  "free_str a h = (if a = 0 then Inr h else if h a = None then Inl Dangling else Inr (h(a := None)))"

section \<open>Copying a block\<close>

text \<open>\<open>readx(src,buf,n)||writex(fd,buf,n)\<close>: \<open>False\<close> is that one of them failed.\<close>

definition pass_block :: "int \<Rightarrow> int \<Rightarrow> nat \<Rightarrow> world \<Rightarrow> (bool \<times> world) outcome" where
  "pass_block src fd n w = andthen (readx src n w) (\<lambda>(r, w1). case r of
       None \<Rightarrow> Inr (False, w1) | Some bs \<Rightarrow> writex fd bs w1)"

lemma pass_block_left: "pass_block src fd n w = Inr (ok, w') \<Longrightarrow> 0 < n \<Longrightarrow> rd_left src w' < rd_left src w"
  unfolding pass_block_def
  by (auto simp: andthen_Inr_iff wr_only_def rd_left_def split: option.splits dest!: readx_left writex_wr_only)

text \<open>What is copied from one stream to another: nothing else changes.\<close>

definition copied :: "int \<Rightarrow> int \<Rightarrow> nat \<Rightarrow> world \<Rightarrow> world \<Rightarrow> bool" where
  "copied src fd n w w' \<longleftrightarrow> w_out w' = (w_out w)(fd := w_out w fd @ take n (avail src w)) \<and> avail src w' = drop n (avail src w) \<and>
     wr_count (w_wr w fd) \<le> wr_count (w_wr w' fd) + n \<and> (\<forall>x. x \<noteq> fd \<longrightarrow> w_wr w' x = w_wr w x) \<and> w_kern w' = w_kern w \<and> w_log w' = w_log w"

lemma copied_refl: "copied src fd 0 w w"
  by (simp add: copied_def)

lemma copied_trans:
  "copied src fd m w w1 \<Longrightarrow> copied src fd n w1 w2 \<Longrightarrow> m + n = k \<Longrightarrow> copied src fd k w w2"
  by (auto simp: copied_def take_add add.commute)

lemma pass_block_copies:
  assumes "n \<le> length (avail src w)" and "n \<le> wr_count (w_wr w fd)"
  shows "\<exists>w'. pass_block src fd n w = Inr (True, w') \<and> copied src fd n w w'"
proof -
  from readx.rx_take [OF assms(1)] obtain w1 where w1: "readx src n w = Inr (Some (take n (avail src w)), w1)"
    "avail src w1 = drop n (avail src w)" by blast
  note r = readx_rd_only [OF w1(1)]
  have l: "length (take n (avail src w)) = n" using assms(1) by simp
  obtain w2 where w2: "writex fd (take n (avail src w)) w1 = Inr (True, w2)" "wr_count (w_wr w1 fd) \<le> wr_count (w_wr w2 fd) + n"
    using writex_complete [of "take n (avail src w)" w1 fd] assms(2) r l by (auto simp: rd_only_def)
  have o: "w_out w2 fd = w_out w1 fd @ take n (avail src w)" using writex.wx_ok [OF w2(1)] .
  have "wr_only fd w1 w2" by (rule writex_wr_only [OF w2(1)])
  then have "copied src fd n w w2"
    using r o w1(2) w2(2) by (auto simp: copied_def rd_only_def wr_only_def avail_def fun_eq_iff)
  with w1(1) w2(1) show ?thesis by (auto simp: pass_block_def)
qed

section \<open>services.c\<close>

definition adb_creat :: "string \<Rightarrow> nat \<Rightarrow> world \<Rightarrow> int \<times> world" where
  "adb_creat path mode w = (let (fd, w1) = call (SysOpen path 577 mode) w in (if fd < 0 then -1 else fd, w1))"

text \<open>The copy loop of \<open>recover_service\<close>: what is left of \<open>count\<close> at its end.\<close>

function recover_loop :: "int \<Rightarrow> int \<Rightarrow> nat \<Rightarrow> world \<Rightarrow> (nat \<times> world) outcome" where
  "recover_loop s fd count w =
    (if count = 0 then Inr (0, w)
     else
       let xfer = (if count > 4096 then 4096 else count) in
       andthen (pass_block s fd xfer w) (\<lambda>(ok, w1).
         if \<not> ok then Inr (count, w1) else recover_loop s fd (count - xfer) w1))"
  by pat_completeness auto
termination
  by (relation "measure (\<lambda>(s, fd, count, w). count)") (auto simp: Let_def split: if_splits)

declare recover_loop.simps [simp del]

definition recover_service :: "int \<Rightarrow> int \<Rightarrow> world \<Rightarrow> world outcome" where
  "recover_service s cookie w =
    (let count = unat (word_of_int cookie :: u32);
         (fd, w1) = adb_creat ''/tmp/update'' 420 w
     in if fd < 0 then Inr (do_call (SysClose s) w1)
        else andthen (recover_loop s fd count w1) (\<lambda>(left, w2).
          andthen (writex s (bytes_of (if left \<noteq> 0 then ''OKAY'' else ''FAIL'')) w2) (\<lambda>(_, w3).
            let w4 = do_call (SysClose s) (do_call (SysClose fd) w3);
                (fd2, w5) = adb_creat ''/tmp/update.begin'' 420 w4
            in Inr (do_call (SysClose fd2) w5))))"

text \<open>A short text to the client, who is then closed. The text fits the buffer of 100 bytes.\<close>

definition say_and_close :: "int \<Rightarrow> string \<Rightarrow> world \<Rightarrow> world outcome" where
  "say_and_close fd txt w = andthen (writex fd (bytes_of (take 99 txt)) w) (\<lambda>(_, w1). Inr (do_call (SysClose fd) w1))"

definition restart_tcp_service :: "int \<Rightarrow> int \<Rightarrow> world \<Rightarrow> world outcome" where
  "restart_tcp_service fd port w =
    (if port \<le> 0 then say_and_close fd (''invalid port'' @ [CHR 0x0A]) w
     else say_and_close fd (''restarting in TCP mode port: '' @ dec_int port @ [CHR 0x0A]) w)"

definition restart_usb_service :: "int \<Rightarrow> world \<Rightarrow> world outcome" where
  "restart_usb_service fd w = say_and_close fd (''restarting in USB mode'' @ [CHR 0x0A]) w"

text \<open>The child of \<open>reboot_service\<close> ends; \<open>execl\<close> returns only when it fails.\<close>

definition reboot_service :: "int \<Rightarrow> addr \<Rightarrow> heap \<Rightarrow> world \<Rightarrow> (heap \<times> world) outcome" where
  "reboot_service fd arg h w =
    (let (child, w2) = call SysFork (do_call SysSync w) in
     if child = 0 then
       andthen (load_str arg h) (\<lambda>s.
         let (r, w3) = call (SysExec ''/usr/bin/reboot'' [''reboot'', s]) w2 in Inl (Exit 0))
     else
       let w3 = (if child > 0 then do_call (SysWaitpid child) w2 else w2)
       in andthen (free_str arg h) (\<lambda>h1. Inr (h1, do_call (SysClose fd) w3)))"

text \<open>\<open>subproc_waiter_service\<close>: it waits until the kernel reports this child; \<open>fuel\<close> bounds the calls. Then it tells the
  event loop, through \<open>notify_fd\<close>, which descriptor has ended.\<close>

fun wait_child :: "nat \<Rightarrow> int \<Rightarrow> world \<Rightarrow> world option" where
  "wait_child 0 child w = None"
| "wait_child (Suc fuel) child w =
    (let (a, w1) = sys_call (SysWaitpid child) w
     in if (case a of SPair p status \<Rightarrow> p = child | SRet p \<Rightarrow> p = child | _ \<Rightarrow> False) then Some w1 else wait_child fuel child w1)"

definition subproc_waiter_service :: "nat \<Rightarrow> int \<Rightarrow> int \<Rightarrow> int \<Rightarrow> world \<Rightarrow> world outcome option" where
  "subproc_waiter_service fuel notify_fd fd child w = map_option (\<lambda>w1.
     if notify_fd \<ge> 0 then andthen (writex notify_fd (le32 (word_of_int fd)) w1) (\<lambda>(_, w2). Inr w2) else Inr w1)
     (wait_child fuel child w)"

section \<open>log\_service.c\<close>

definition LOGGER_ENTRY_MAX_LEN :: nat where "LOGGER_ENTRY_MAX_LEN = 5 * 1024"
definition LOG_FILE_DIR :: string where "LOG_FILE_DIR = ''/var/log/''"
definition sizeof_logger_entry :: nat where "sizeof_logger_entry = 20"

fun of_le16 :: "bytes \<Rightarrow> nat" where
  "of_le16 (a # b # _) = unat a + 256 * unat b"
| "of_le16 _ = 0"

definition get_log_file_path :: "string \<Rightarrow> string" where
  "get_log_file_path log_name = LOG_FILE_DIR @ log_name"

text \<open>\<open>write_log_entry\<close>: the header and \<open>len\<close> bytes of the buffer.\<close>

definition write_log_entry :: "int \<Rightarrow> bytes \<Rightarrow> world \<Rightarrow> world outcome" where
  "write_log_entry fd buf w = (let size = sizeof_logger_entry + of_le16 buf in
     if length buf < size then Inl OutOfBounds else andthen (writex fd (take size buf) w) (\<lambda>(_, w1). Inr w1))"

lemma write_log_entry_rd: "write_log_entry fd buf w = Inr w' \<Longrightarrow> rd_left fd' w' = rd_left fd' w"
  unfolding write_log_entry_def Let_def rd_left_def
  by (auto simp: andthen_Inr_iff wr_only_def dest!: writex_wr_only split: if_splits)

definition put_zero :: "bytes \<Rightarrow> nat \<Rightarrow> bytes outcome" where
  "put_zero buf i = (if i < length buf then Inr (buf[i := 0]) else Inl OutOfBounds)"

text \<open>The loop: one read is one entry. The client and the log have different descriptors.\<close>

function log_loop :: "int \<Rightarrow> int \<Rightarrow> bytes \<Rightarrow> world \<Rightarrow> world outcome" where
  "log_loop fd logfd buf w = andthen (sys_read logfd LOGGER_ENTRY_MAX_LEN w) (\<lambda>(r, w1). case r of
       Inl e \<Rightarrow> if e = EINTR \<or> e = EAGAIN then log_loop fd logfd buf w1 else Inr w1
     | Inr bs \<Rightarrow>
         if bs = [] then Inr w1
         else
           let buf1 = bs @ drop (length bs) buf in
           andthen (put_zero buf1 (sizeof_logger_entry + of_le16 buf1)) (\<lambda>buf2.
           andthen (write_log_entry fd buf2 w1) (log_loop fd logfd buf2)))"
  by pat_completeness auto
termination
  by (relation "measure (\<lambda>(fd, logfd, buf, w). rd_left logfd w)")
    (auto simp: LOGGER_ENTRY_MAX_LEN_def write_log_entry_rd dest: sys_read_left)

declare log_loop.simps [simp del]

definition log_service :: "bytes \<Rightarrow> int \<Rightarrow> addr \<Rightarrow> heap \<Rightarrow> world \<Rightarrow> (heap \<times> world) outcome" where
  "log_service mem fd cookie h w = andthen (load_str cookie h) (\<lambda>path.
     let (logfd, w1) = call (SysOpen path 0 0) w in
     andthen (if logfd < 0 then Inr w1 else log_loop fd logfd mem w1) (\<lambda>w2.
     andthen (free_str cookie h) (\<lambda>h1. Inr (h1, do_call (SysClose fd) w2))))"

section \<open>remount\_service.c\<close>

text \<open>The conversions of \<open>sscanf\<close> used there: a word of at most \<open>n\<close> characters, and a number; each with the text after it.\<close>

definition scan_word :: "nat \<Rightarrow> string \<Rightarrow> (string \<times> string) option" where
  "scan_word n s = (let t = dropWhile is_space s; v = take n (takeWhile (\<lambda>c. \<not> is_space c) t)
     in if v = [] then None else Some (v, drop (length v) t))"

definition scan_int :: "string \<Rightarrow> string option" where
  "scan_int s = (let (neg, t) = strip_sign s
     in if t = [] \<or> \<not> is_digit (hd t) then None else Some (dropWhile is_digit t))"

text \<open>\<open>sscanf(token,"%255s %255s %*s %*s %d %d",...)\<close> when all four are assigned: device and directory. A word
  that is not assigned has any length.\<close>

definition scan_mount :: "string \<Rightarrow> (string \<times> string) option" where
  "scan_mount token = Option.bind (scan_word 255 token) (\<lambda>(dev, s1). Option.bind (scan_word 255 s1) (\<lambda>(dir, s2).
     Option.bind (scan_word (length s2) s2) (\<lambda>(_, s3). Option.bind (scan_word (length s3) s3) (\<lambda>(_, s4).
     Option.bind (scan_int s4) (\<lambda>s5. Option.bind (scan_int s5) (\<lambda>_. Some (dev, dir)))))))"

fun mount_of :: "string \<Rightarrow> string list \<Rightarrow> string option" where
  "mount_of dir [] = None"
| "mount_of dir (token # ts) = (case scan_mount token of
       None \<Rightarrow> mount_of dir ts
     | Some (mdev, mdir) \<Rightarrow> if mdir = dir then Some mdev else mount_of dir ts)"

text \<open>\<open>mem\<close> is what the buffer of 4096 bytes holds: only its last byte is set before the read.\<close>

definition find_mount :: "bytes \<Rightarrow> string \<Rightarrow> world \<Rightarrow> (string option \<times> world) outcome" where
  "find_mount mem dir w =
    (let (fd, w1) = call (SysOpen ''/proc/mounts'' 0 0) w in
     if fd < 0 then Inr (None, w1)
     else andthen (adb_read fd 4095 w1) (\<lambda>(r, w2).
       let w3 = do_call (SysClose fd) w2;
           got = (case r of Inr bs \<Rightarrow> bs | Inl _ \<Rightarrow> []);
           buf = got @ drop (length got) (take 4095 mem) @ [0]
       in andthen (cstr buf) (\<lambda>text. Inr (mount_of dir (tokens (CHR 0x0A) text), w3))))"

text \<open>\<open>ro\<close> is the variable \<open>system_ro\<close>.\<close>

definition remount_system :: "bytes \<Rightarrow> int \<Rightarrow> world \<Rightarrow> (int \<times> int \<times> world) outcome" where
  "remount_system mem ro w =
    (if ro = 0 then Inr (0, ro, w)
     else andthen (find_mount mem ''/system'' w) (\<lambda>(r, w1). case r of
         None \<Rightarrow> Inr (-1, ro, w1)
       | Some mdev \<Rightarrow> (let (r, w2) = call (SysMount mdev ''/system'') w1 in Inr (r, r, w2))))"

definition write_string :: "int \<Rightarrow> string \<Rightarrow> world \<Rightarrow> world outcome" where
  "write_string fd str w = andthen (writex fd (bytes_of str) w) (\<lambda>(_, w1). Inr w1)"

text \<open>\<open>strerror\<close> stands for what \<open>%m\<close> prints.\<close>

definition remount_service :: "(errno \<Rightarrow> string) \<Rightarrow> bytes \<Rightarrow> int \<Rightarrow> int \<Rightarrow> world \<Rightarrow> (int \<times> world) outcome" where
  "remount_service strerror mem fd ro w = andthen (remount_system mem ro w) (\<lambda>(r, ro1, w1).
     andthen (write_string fd (if r = 0 then ''remount succeeded'' @ [CHR 0x0A]
         else take 199 (''remount failed: '' @ strerror (w_errno w1) @ [CHR 0x0A])) w1) (\<lambda>w2.
       Inr (ro1, do_call (SysClose fd) w2)))"

section \<open>framebuffer\_service.c\<close>

definition DDMS_RAWIMAGE_VERSION :: u32 where "DDMS_RAWIMAGE_VERSION = 1"

record fbinfo =
  fb_version :: u32
  fb_bpp :: u32
  fb_size :: u32
  fb_width :: u32
  fb_height :: u32
  fb_red :: "u32 \<times> u32" \<comment> \<open>offset and length\<close>
  fb_blue :: "u32 \<times> u32"
  fb_green :: "u32 \<times> u32"
  fb_alpha :: "u32 \<times> u32"

definition fbinfo_bytes :: "fbinfo \<Rightarrow> bytes" where
  "fbinfo_bytes i = le32 (fb_version i) @ le32 (fb_bpp i) @ le32 (fb_size i) @ le32 (fb_width i) @ le32 (fb_height i) @
     concat (map (\<lambda>(off, len). le32 off @ le32 len) [fb_red i, fb_blue i, fb_green i, fb_alpha i])"

text \<open>The switch over the format.\<close>

definition fb_layout :: "u32 \<Rightarrow> u32 \<Rightarrow> u32 \<Rightarrow> fbinfo option" where
  "fb_layout w h f =
    (let info = (\<lambda>bpp bytes red green blue alpha. Some \<lparr>fb_version = DDMS_RAWIMAGE_VERSION, fb_bpp = bpp, fb_size = w * h * bytes,
           fb_width = w, fb_height = h, fb_red = red, fb_blue = blue, fb_green = green, fb_alpha = alpha\<rparr>)
     in if f = 1 then info 32 4 (0, 8) (8, 8) (16, 8) (24, 8)
        else if f = 2 then info 32 4 (0, 8) (8, 8) (16, 8) (24, 0)
        else if f = 3 then info 24 3 (0, 8) (8, 8) (16, 8) (24, 0)
        else if f = 4 then info 16 2 (11, 5) (5, 6) (0, 5) (0, 0)
        else if f = 5 then info 32 4 (16, 8) (8, 8) (0, 8) (24, 8)
        else None)"

definition sizeof_fb_buf :: nat where "sizeof_fb_buf = 640"

text \<open>The loop over the \<open>unsigned\<close> \<open>i\<close>. It ends because every round takes a block from the program.\<close>

function pass_blocks :: "u32 \<Rightarrow> u32 \<Rightarrow> int \<Rightarrow> int \<Rightarrow> world \<Rightarrow> (bool \<times> world) outcome" where
  "pass_blocks i len src fd w =
    (if \<not> i < len then Inr (True, w)
     else andthen (pass_block src fd sizeof_fb_buf w) (\<lambda>(ok, w1).
       if ok then pass_blocks (i + word_of_nat sizeof_fb_buf) len src fd w1 else Inr (False, w1)))"
  by pat_completeness auto
termination
  by (relation "measure (\<lambda>(i, len, src, fd, w). rd_left src w)") (auto simp: sizeof_fb_buf_def dest: pass_block_left)

declare pass_blocks.simps [simp del]

definition fb_send :: "int \<Rightarrow> int \<Rightarrow> world \<Rightarrow> world outcome" where
  "fb_send src fd w = andthen (readx src 4 w) (\<lambda>(a, w1). case a of None \<Rightarrow> Inr w1 | Some wb \<Rightarrow>
     andthen (readx src 4 w1) (\<lambda>(b, w2). case b of None \<Rightarrow> Inr w2 | Some hb \<Rightarrow>
     andthen (readx src 4 w2) (\<lambda>(c, w3). case c of None \<Rightarrow> Inr w3 | Some fb \<Rightarrow>
       (case fb_layout (of_le32 wb) (of_le32 hb) (of_le32 fb) of
          None \<Rightarrow> Inr w3
        | Some info \<Rightarrow> andthen (writex fd (fbinfo_bytes info) w3) (\<lambda>(ok, w4).
            if \<not> ok then Inr w4
            else andthen (pass_blocks 0 (fb_size info) src fd w4) (\<lambda>(ok, w5).
              if \<not> ok then Inr w5
              else andthen (pass_block src fd (unat (fb_size info) mod sizeof_fb_buf) w5) (\<lambda>(_, w6). Inr w6)))))))"

text \<open>The child runs the program and does not return. The pipe's descriptors are not initialised when \<open>pipe\<close> fails:
  \<open>mem\<close> is what they hold then.\<close>

definition framebuffer_service :: "int \<times> int \<Rightarrow> int \<Rightarrow> world \<Rightarrow> world outcome" where
  "framebuffer_service mem fd w =
    (let fin = (\<lambda>fds child w. do_call (SysClose fd) (do_call (SysClose (snd fds)) (do_call (SysClose (fst fds))
           (do_call (SysWaitpid child) w))))
     in case sys_call SysPipe w of
          (SPair x y, w1) \<Rightarrow>
            (let (child, w2) = call SysFork w1 in
             if child < 0 then Inr (fin (x, y) child w2)
             else if child = 0 then
               (let w3 = do_call (SysExec ''screencap'' [''screncap'']) (do_call (SysClose y) (do_call (SysClose x) (do_call (SysDup2 y 1) w2)))
                in Inl (Exit 1))
             else andthen (fb_send x fd w2) (\<lambda>w3. Inr (fin (x, y) child w3)))
        | (_, w1) \<Rightarrow> Inr (fin mem (-1) w1))"

section \<open>Lemmas\<close>

lemma recover_loop_copies:
  "count \<le> length (avail s w) \<Longrightarrow> count \<le> wr_count (w_wr w fd) \<Longrightarrow>
    \<exists>w'. recover_loop s fd count w = Inr (0, w') \<and> copied s fd count w w'"
proof (induction s fd count w rule: recover_loop.induct)
  case (1 s fd count w)
  show ?case
  proof (cases "count = 0")
    case True
    then show ?thesis by (subst recover_loop.simps) (simp add: copied_refl)
  next
    case False
    let ?x = "if count > 4096 then 4096 else count"
    have x: "?x \<le> count" by simp
    obtain w1 where w1: "pass_block s fd ?x w = Inr (True, w1)" "copied s fd ?x w w1"
      using pass_block_copies [of ?x s w fd] "1.prems" x by (meson order_trans)
    have "\<exists>w'. recover_loop s fd (count - ?x) w1 = Inr (0, w') \<and> copied s fd (count - ?x) w1 w'"
      by (rule "1.IH" [OF False refl w1(1) refl]) (use w1(2) "1.prems" in \<open>auto simp: copied_def\<close>)
    then obtain w' where w': "recover_loop s fd (count - ?x) w1 = Inr (0, w')" "copied s fd (count - ?x) w1 w'" by blast
    have "copied s fd count w w'" by (rule copied_trans [OF w1(2) w'(2)]) auto
    with w1(1) w'(1) False show ?thesis by (subst recover_loop.simps) (auto simp: Let_def)
  qed
qed

text \<open>A stream that delivers data and nothing else, no error and no end of file.\<close>

definition pure_data :: "int \<Rightarrow> world \<Rightarrow> bool" where
  "pure_data fd w \<longleftrightarrow> (\<forall>a \<in> set (w_rd w fd). case a of RdData bs \<Rightarrow> bs \<noteq> [] | RdErr e \<Rightarrow> e = EINTR)"

lemma pure_data_read: "adb_read fd n w = Inr (r, w') \<Longrightarrow> pure_data fd w \<Longrightarrow> 0 < n \<Longrightarrow> pure_data fd w' \<and> (\<exists>bs. r = Inr bs \<and> bs \<noteq> [])"
proof (induction rule: adb_read_induct)
  case (stop v r v')
  then show ?case by (auto simp: sys_read_def pure_data_def split: list.splits rd_ans.splits if_splits)
next
  case (retry v v' r v'')
  then have "pure_data fd v'" by (auto simp: sys_read_def pure_data_def split: list.splits rd_ans.splits)
  with retry show ?case by simp
qed

lemma pure_data_readx: "readx fd n w = Inr (r, w') \<Longrightarrow> pure_data fd w \<Longrightarrow> pure_data fd w' \<and> r \<noteq> None"
proof (induction fd n w arbitrary: r w' rule: readx.induct)
  case (1 fd n w)
  show ?case
  proof (cases "n = 0")
    case True
    with "1.prems" show ?thesis by (subst (asm) readx.simps) auto
  next
    case False
    with "1.prems"(1) obtain q w1 where a: "adb_read fd n w = Inr (q, w1)" by (subst (asm) readx.simps) (auto simp: andthen_Inr_iff)
    with pure_data_read [OF a "1.prems"(2)] False obtain bs where q: "q = Inr bs" "bs \<noteq> []" "pure_data fd w1" by auto
    with "1.prems"(1) False a obtain p where p: "readx fd (n - length bs) w1 = Inr (p, w')" "r = map_option (\<lambda>rest. bs @ rest) p"
      by (subst (asm) readx.simps) (auto simp: andthen_Inr_iff)
    from "1.IH"(2) [OF False a refl q(1,2) p(1) q(3)] p(2) show ?thesis by simp
  qed
qed

text \<open>Asking such a stream for more than it has blocks for ever.\<close>

lemma pure_data_blocks:
  assumes "pure_data fd w" and "length (avail fd w) < n"
  shows "readx fd n w = Inl Blocked"
proof (cases "readx fd n w")
  case (Inl e)
  with readx_stops show ?thesis by simp
next
  case (Inr p)
  obtain r w' where p: "p = (r, w')" by (cases p)
  with pure_data_readx [OF _ assms(1)] Inr obtain bs where "r = Some bs" by fastforce
  with readx.rx_short [OF assms(2)] Inr p show ?thesis by blast
qed

lemma pass_block_pure: "pass_block src fd n w = Inr (ok, w') \<Longrightarrow> pure_data src w \<Longrightarrow> pure_data src w'"
  by (auto simp: pass_block_def andthen_Inr_iff pure_data_def wr_only_def split: option.splits
      dest!: pure_data_readx [unfolded pure_data_def] writex_wr_only)

lemma unat_u32: "n < 2 ^ 32 \<Longrightarrow> unat (word_of_nat n :: u32) = n"
  by (simp add: unat_of_nat take_bit_eq_mod)

text \<open>The first rounds of the loop copy whole blocks.\<close>

lemma pass_blocks_rounds:
  assumes "i + 640 * k \<le> unat len" and "640 * k \<le> length (avail src w)" and "640 * k \<le> wr_count (w_wr w fd)"
  shows "\<exists>w'. pass_blocks (word_of_nat i) len src fd w = pass_blocks (word_of_nat (i + 640 * k)) len src fd w' \<and>
    copied src fd (640 * k) w w' \<and> (pure_data src w \<longrightarrow> pure_data src w')"
  using assms
proof (induction k arbitrary: i w)
  case 0
  then show ?case using copied_refl by auto
next
  case (Suc k)
  obtain w1 where w1: "pass_block src fd 640 w = Inr (True, w1)" "copied src fd 640 w w1"
    using pass_block_copies [of 640 src w fd] Suc.prems by auto
  have "unat len < 2 ^ 32" using unsigned_less [of len] by simp
  then have "unat (word_of_nat i :: u32) = i" using Suc.prems(1) by (intro unat_u32) linarith
  then have lt: "word_of_nat i < len" using Suc.prems(1) by (simp add: word_less_nat_alt)
  have "\<exists>w'. pass_blocks (word_of_nat (i + 640)) len src fd w1 = pass_blocks (word_of_nat (i + 640 + 640 * k)) len src fd w' \<and>
      copied src fd (640 * k) w1 w' \<and> (pure_data src w1 \<longrightarrow> pure_data src w')"
    by (rule Suc.IH) (use Suc.prems w1(2) in \<open>auto simp: copied_def\<close>)
  then obtain w' where w': "pass_blocks (word_of_nat (i + 640)) len src fd w1 = pass_blocks (word_of_nat (i + 640 + 640 * k)) len src fd w'"
    "copied src fd (640 * k) w1 w'" "pure_data src w1 \<longrightarrow> pure_data src w'" by blast
  have "copied src fd (640 * Suc k) w w'" by (rule copied_trans [OF w1(2) w'(2)]) simp
  moreover have "pass_blocks (word_of_nat i) len src fd w = pass_blocks (word_of_nat (i + 640)) len src fd w1"
    using lt w1(1) by (subst pass_blocks.simps) (simp add: sizeof_fb_buf_def)
  ultimately show ?case using w' pass_block_pure [OF w1(1)] by (auto simp: add.assoc)
qed

text \<open>The header of the picture, up to the first block.\<close>

lemma length_fbinfo_bytes: "length (fbinfo_bytes info) = 52"
  by (simp add: fbinfo_bytes_def split: prod.split)

lemma fb_send_head:
  assumes a: "avail src w = le32 wd @ le32 ht @ le32 f @ pixels" and l: "fb_layout wd ht f = Some info"
    and room: "52 \<le> wr_count (w_wr w fd)"
  shows "\<exists>w'. fb_send src fd w = andthen (pass_blocks 0 (fb_size info) src fd w') (\<lambda>(ok, w5).
        if \<not> ok then Inr w5 else andthen (pass_block src fd (unat (fb_size info) mod 640) w5) (\<lambda>(_, w6). Inr w6)) \<and>
      avail src w' = pixels \<and> w_out w' fd = w_out w fd @ fbinfo_bytes info \<and> wr_count (w_wr w fd) \<le> wr_count (w_wr w' fd) + 52 \<and>
      (pure_data src w \<longrightarrow> pure_data src w')"
proof -
  obtain w1 where w1: "readx src 4 w = Inr (Some (le32 wd), w1)" "avail src w1 = le32 ht @ le32 f @ pixels"
    using readx.rx_append [OF a, of 4] by auto
  obtain w2 where w2: "readx src 4 w1 = Inr (Some (le32 ht), w2)" "avail src w2 = le32 f @ pixels"
    using readx.rx_append [OF w1(2), of 4] by auto
  obtain w3 where w3: "readx src 4 w2 = Inr (Some (le32 f), w3)" "avail src w3 = pixels"
    using readx.rx_append [OF w2(2), of 4] by auto
  have k: "w_wr w3 = w_wr w" "w_out w3 = w_out w" using readx_rd_only [OF w1(1)] readx_rd_only [OF w2(1)] readx_rd_only [OF w3(1)]
    by (auto simp: rd_only_def)
  obtain w4 where w4: "writex fd (fbinfo_bytes info) w3 = Inr (True, w4)" "wr_count (w_wr w3 fd) \<le> wr_count (w_wr w4 fd) + 52"
    using writex_complete [of "fbinfo_bytes info" w3 fd] room k by (auto simp: length_fbinfo_bytes)
  have p: "pure_data src w4" if "pure_data src w"
    using that pure_data_readx [OF w1(1)] pure_data_readx [OF w2(1)] pure_data_readx [OF w3(1)] writex_wr_only [OF w4(1)]
    by (auto simp: pure_data_def wr_only_def)
  have "avail src w4 = pixels" using writex_wr_only [OF w4(1)] w3(2) by (simp add: wr_only_def avail_def)
  with w1(1) w2(1) w3(1) w4 l k p writex.wx_ok [OF w4(1)] show ?thesis
    unfolding fb_send_def sizeof_fb_buf_def by (intro exI [of _ w4]) simp
qed

section \<open>Properties\<close>

text \<open>An update is stored whole, and the answer is wrong. When the client sends at least as many bytes as announced
  and the file takes them, \<open>recover_service\<close> writes exactly the announced number of bytes to the file, in their order and
  wherever the stream is cut, and then answers \<open>FAIL\<close>, the answer meant for a transfer that was cut short.\<close>

lemma recover_stores_update:
  assumes "w_kern w (w_log w) (SysOpen ''/tmp/update'' 577 420) = SRet fd" and "0 \<le> fd" and "fd \<noteq> s"
    and "unat (word_of_int n :: u32) \<le> length (avail s w)" and "unat (word_of_int n :: u32) \<le> wr_count (w_wr w fd)"
    and "4 \<le> wr_count (w_wr w s)"
  shows "\<exists>w'. recover_service s n w = Inr w' \<and>
    w_out w' fd = w_out w fd @ take (unat (word_of_int n :: u32)) (avail s w) \<and> w_out w' s = w_out w s @ bytes_of ''FAIL''"
proof -
  let ?n = "unat (word_of_int n :: u32)" and ?w1 = "w\<lparr>w_log := w_log w @ [SysOpen ''/tmp/update'' 577 420]\<rparr>"
  have o: "adb_creat ''/tmp/update'' 420 w = (fd, ?w1)" using assms(1,2) by (simp add: adb_creat_def call_def sys_call_def ret_of_def)
  obtain w2 where w2: "recover_loop s fd ?n ?w1 = Inr (0, w2)" "copied s fd ?n ?w1 w2"
    using recover_loop_copies [of ?n s ?w1 fd] assms(4,5) by (auto simp: avail_def)
  obtain w3 where w3: "writex s (bytes_of ''FAIL'') w2 = Inr (True, w3)"
    using writex_complete [of "bytes_of ''FAIL''" w2 s] assms(3,6) w2(2) by (auto simp: copied_def)
  have "w_out w3 s = w_out w2 s @ bytes_of ''FAIL''" "w_out w3 fd = w_out w2 fd"
    using writex.wx_ok [OF w3] writex_wr_only [OF w3] assms(3) by (auto simp: wr_only_def)
  moreover have "w_out w2 s = w_out w s" "w_out w2 fd = w_out w fd @ take ?n (avail s w)"
    using w2(2) assms(3) by (simp_all add: copied_def avail_def)
  ultimately show ?thesis using o w2(1) w3 assms(2)
    by (auto simp: recover_service_def adb_creat_def call_def do_call_def sys_call_def Let_def split: prod.splits)
qed

text \<open>A picture is passed on whole only when its size is a multiple of 640 bytes. The program delivers width, height and
  format, then the pixels. If the size is a multiple of the buffer, the client gets the description and exactly
  the pixels. Otherwise the loop asks for a full last block, and since the service itself holds the other end of the pipe
  open there is no end of file: the service waits for ever.\<close>

lemma framebuffer_passes_blocks:
  assumes "avail src w = le32 wd @ le32 ht @ le32 f @ pixels" and "fb_layout wd ht f = Some info"
    and "length pixels = unat (fb_size info)" and "52 + length pixels \<le> wr_count (w_wr w fd)"
  shows "(length pixels mod 640 = 0 \<longrightarrow> (\<exists>w'. fb_send src fd w = Inr w' \<and> w_out w' fd = w_out w fd @ fbinfo_bytes info @ pixels)) \<and>
    (length pixels mod 640 \<noteq> 0 \<longrightarrow> pure_data src w \<longrightarrow> fb_send src fd w = Inl Blocked)"
proof -
  let ?k = "length pixels div 640" and ?len = "fb_size info"
  obtain w1 where w1: "fb_send src fd w = andthen (pass_blocks 0 ?len src fd w1) (\<lambda>(ok, w5).
        if \<not> ok then Inr w5 else andthen (pass_block src fd (unat ?len mod 640) w5) (\<lambda>(_, w6). Inr w6))"
    "avail src w1 = pixels" "w_out w1 fd = w_out w fd @ fbinfo_bytes info" "wr_count (w_wr w fd) \<le> wr_count (w_wr w1 fd) + 52"
    "pure_data src w \<longrightarrow> pure_data src w1"
    using fb_send_head [OF assms(1,2)] assms(4) by force
  have dm: "640 * ?k + length pixels mod 640 = length pixels" by (rule mult_div_mod_eq)
  then have k: "640 * ?k \<le> length pixels" by linarith
  have "640 * ?k \<le> wr_count (w_wr w1 fd)" using k assms(4) w1(4) by linarith
  then obtain w2 where w2: "pass_blocks 0 ?len src fd w1 = pass_blocks (word_of_nat (640 * ?k)) ?len src fd w2"
    "copied src fd (640 * ?k) w1 w2" "pure_data src w1 \<longrightarrow> pure_data src w2"
    using pass_blocks_rounds [of 0 ?k ?len src w1 fd] k assms(3,4) w1(2,4) by auto
  have "unat ?len < 2 ^ 32" using unsigned_less [of ?len] by simp
  then have u: "unat (word_of_nat (640 * ?k) :: u32) = 640 * ?k" using k assms(3) by (intro unat_u32) linarith
  show ?thesis
  proof (cases "length pixels mod 640 = 0")
    case True
    then have e: "640 * ?k = length pixels" using dm by linarith
    then have "\<not> word_of_nat (640 * ?k) < ?len" using u assms(3) by (simp add: word_less_nat_alt)
    then have "pass_blocks 0 ?len src fd w1 = Inr (True, w2)" unfolding w2(1) by (subst pass_blocks.simps) simp
    moreover have "pass_block src fd (unat ?len mod 640) w2 = Inr (True, w2)"
      using True assms(3) by (simp add: pass_block_def readx.simps writex.simps)
    ultimately show ?thesis using True w1(1,2,3) w2(2) e by (simp add: copied_def)
  next
    case False
    then have lt: "640 * ?k < length pixels" using dm by linarith
    then have "word_of_nat (640 * ?k) < ?len" using u assms(3) by (simp add: word_less_nat_alt)
    moreover have "length (avail src w2) < 640" using w2(2) w1(2) by (simp add: copied_def minus_mult_div_eq_mod)
    ultimately have "pure_data src w2 \<longrightarrow> pass_blocks 0 ?len src fd w1 = Inl Blocked" unfolding w2(1)
      using pure_data_blocks [of src w2 640] by (subst pass_blocks.simps) (simp add: sizeof_fb_buf_def pass_block_def)
    with False w1(1,5) w2(3) show ?thesis by simp
  qed
qed

text \<open>An entry of a log file that claims to be longer than the buffer makes the log service write outside it.\<close>

lemma log_entry_overrun:
  assumes "length buf = LOGGER_ENTRY_MAX_LEN + 1" and "w_rd w logfd = RdData bs # as" and "2 \<le> length bs"
    and "length bs \<le> LOGGER_ENTRY_MAX_LEN" and "5101 \<le> of_le16 bs"
  shows "log_loop fd logfd buf w = Inl OutOfBounds"
proof -
  obtain x y r where bs: "bs = x # y # r" using assms(3) by (cases bs; cases "tl bs") auto
  then show ?thesis using assms
    by (subst log_loop.simps) (simp add: sys_read_def put_zero_def sizeof_logger_entry_def LOGGER_ENTRY_MAX_LEN_def Let_def)
qed

end
