(* ===== verification/Services.thy ===== *)
theory Services
  imports Workers Jdwp
begin

text \<open>
  The dispatch of \<open>services.c\<close>: \<open>service_to_fd\<close> turns the name of a service into a descriptor: a connection, a device, or
  one end of a socket pair whose other end a new thread serves. A thread that was started is recorded with its
  function, its descriptor and its argument; what it then does is the function of that name in the theory
  \<open>Workers\<close>. Strings passed to a thread live in a heap. Of a program started under a terminal only the side of the daemon
  is modelled: the child runs in its own process.
\<close>

section \<open>State\<close>

datatype svc_func = FramebufferService | RecoverService | LogService | FileSyncService | RemountService | RebootService
  | RestartTcpService | RestartUsbService | SubprocWaiterService

datatype cookie = CNull | CInt int | CPtr addr

record sstate =
  sj :: jstate
  strs :: heap
  next_str :: addr
  threads :: "(svc_func \<times> int \<times> cookie) list"
  HOST :: bool
  recovery_mode :: bool
  shell :: string

definition on_sw :: "(world \<Rightarrow> 'r \<times> world) \<Rightarrow> sstate \<Rightarrow> 'r \<times> sstate" where
  "on_sw f st = (let (r, j) = on_jw f (sj st) in (r, st\<lparr>sj := j\<rparr>))"

definition on_swo :: "(world \<Rightarrow> ('r \<times> world) outcome) \<Rightarrow> sstate \<Rightarrow> ('r \<times> sstate) outcome" where
  "on_swo f st = andthen (f (wld (jd (sj st)))) (\<lambda>(r, w). Inr (r, st\<lparr>sj := (sj st)\<lparr>jd := (jd (sj st))\<lparr>wld := w\<rparr>\<rparr>\<rparr>))"

abbreviation do_sw :: "syscall \<Rightarrow> sstate \<Rightarrow> sstate" where
  "do_sw c st \<equiv> snd (on_sw (\<lambda>w. ((), do_call c w)) st)"

text \<open>\<open>strdup\<close>, and the concatenation of \<open>get_log_file_path\<close>: a new string.\<close>

definition new_str :: "string \<Rightarrow> sstate \<Rightarrow> addr \<times> sstate" where
  "new_str s st = (next_str st, st\<lparr>strs := (strs st)(next_str st \<mapsto> s), next_str := next_str st + 1\<rparr>)"

section \<open>Threads\<close>

definition create_service_thread :: "svc_func \<Rightarrow> cookie \<Rightarrow> sstate \<Rightarrow> int \<times> sstate" where
  "create_service_thread func c st = (case on_sw (sys_call SysSocketpair) st of
       (SPair s0 s1, st1) \<Rightarrow>
         (let (r, st2) = on_sw (call SysThread) st1
          in if r \<noteq> 0 then (-1, do_sw (SysClose s1) (do_sw (SysClose s0) st2))
             else (s0, st2\<lparr>threads := threads st2 @ [(func, s1, c)]\<rparr>))
     | (_, st1) \<Rightarrow> (-1, st1))"

text \<open>The child of \<open>create_subprocess\<close>, up to its end: \<open>dev\<close> is the name of the terminal, \<open>self\<close> the number of the process, \<open>home\<close>
  whether \<open>cmd\<close> is the pointer \<open>shell\<close>. The result is the environment the program gets, if the child comes to execute it; after a failure of
  \<open>execl\<close> the child exits as it does when the terminal does not open.\<close>

definition subprocess_child :: "string \<Rightarrow> int \<Rightarrow> bool \<Rightarrow> (string \<Rightarrow> string option) \<Rightarrow> string \<Rightarrow> string list \<Rightarrow> int \<Rightarrow> world
    \<Rightarrow> ((string \<Rightarrow> string option) option \<times> world) outcome" where
  "subprocess_child dev self home env cmd argv ptm w =
    (let (pts, w1) = call (SysOpen dev O_RDWR 0) (do_call SysSetsid w) in
     if pts < 0 then Inr (None, w1)
     else
       let w2 = do_call (SysClose ptm) (do_call (SysClose pts) (do_call (SysDup2 pts 2) (do_call (SysDup2 pts 1) (do_call (SysDup2 pts 0) w1))));
           (fd, w3) = adb_open (take 63 (''/proc/'' @ dec_int self @ ''/oom_score_adj'')) O_WRONLY w2
       in andthen (if fd \<ge> 0 then andthen (adb_write fd (bytes_of ''0'') w3) (\<lambda>(_, w4). Inr (do_call (SysClose fd) w4)) else Inr w3) (\<lambda>w5.
         let env1 = (if env ''TERM'' = None then env(''TERM'' \<mapsto> ''xterm-256color'') else env);
             w6 = (case env1 ''HOME'' of Some g \<Rightarrow> if home then do_call (SysChdir g) w5 else w5 | None \<Rightarrow> w5)
         in Inr (Some env1, do_call (SysExec cmd (cmd # argv)) w6)))"

text \<open>\<open>create_subprocess\<close>, in the daemon: the terminal and the number of the child. The calls \<open>grantpt\<close>, \<open>unlockpt\<close> and
  \<open>ptsname\<close> are made until one fails.\<close>

fun pts_calls :: "nat list \<Rightarrow> int \<Rightarrow> sstate \<Rightarrow> bool \<times> sstate" where
  "pts_calls [] ptm st = (True, st)"
| "pts_calls (k # ks) ptm st = (let (r, st1) = on_sw (call (SysPts k ptm)) st
     in if r \<noteq> 0 then (False, st1) else pts_calls ks ptm st1)"

definition create_subprocess :: "string \<Rightarrow> string list \<Rightarrow> sstate \<Rightarrow> (int \<times> int \<times> sstate) outcome" where
  "create_subprocess cmd argv st =
    (let (ptm, st1) = on_sw (call (SysOpen ''/dev/ptmx'' O_RDWR 0)) st in
     if ptm < 0 then Inr (-1, 0, st1)
     else
       let (ok, st2) = pts_calls [0, 1, 2] ptm st1 in
       if \<not> ok then Inr (-1, 0, do_sw (SysClose ptm) st2)
       else
         let (child, st3) = on_sw (call SysFork) st2 in
         if child < 0 then Inr (-1, child, do_sw (SysClose ptm) st3)
         else if child = 0 then Inl (Exit (-1)) \<comment> \<open>the child goes on as \<open>subprocess_child\<close>\<close>
         else Inr (ptm, child, st3))"

definition create_subproc_thread :: "string option \<Rightarrow> sstate \<Rightarrow> (int \<times> sstate) outcome" where
  "create_subproc_thread name st =
    andthen (create_subprocess (shell st) (case name of Some s \<Rightarrow> [''-c'', s] | None \<Rightarrow> [''-'']) st) (\<lambda>(ret_fd, child, st1).
      let (r, st2) = on_sw (call SysThread) st1
      in if r \<noteq> 0 then Inr (-1, do_sw (SysClose ret_fd) st2)
         else Inr (ret_fd, st2\<lparr>threads := threads st2 @ [(SubprocWaiterService, ret_fd, CInt child)]\<rparr>))"

section \<open>Dispatch\<close>

definition TCP_NODELAY :: nat where "TCP_NODELAY = 1"

text \<open>The service \<open>reboot\<close>: the argument is freed as soon as the thread is started.\<close>

definition start_reboot :: "string \<Rightarrow> sstate \<Rightarrow> (int \<times> sstate) outcome" where
  "start_reboot s st =
    (let (arg, st1) = new_str s st;
         (ret, st2) = create_service_thread RebootService (CPtr arg) st1
     in andthen (free_str arg (strs st2)) (\<lambda>h. Inr (ret, st2\<lparr>strs := h\<rparr>)))"

definition start_log :: "string \<Rightarrow> sstate \<Rightarrow> int \<times> sstate" where
  "start_log s st = (let (arg, st1) = new_str (get_log_file_path s) st in create_service_thread LogService (CPtr arg) st1)"

text \<open>\<open>sscanf(name,"%d",&port)\<close>: 0 is stored when there is no number; at the end of the text nothing is
  stored, and \<open>junk_port\<close> is what the variable holds.\<close>

definition scan_port :: "int \<Rightarrow> string \<Rightarrow> int" where
  "scan_port junk_port s = (let t = dropWhile is_space s in
     if t = [] then junk_port else if scan_int t = None then 0 else atoi t)"

definition service_to_fd :: "int \<Rightarrow> string \<Rightarrow> sstate \<Rightarrow> (int \<times> sstate) outcome" where
  "service_to_fd junk_port name st =
    (let local_client = (\<lambda>n ns. on_swo (socket_local_client n ns SOCK_STREAM) st) in
     if starts_with ''tcp:'' name then
       (if strchr (drop 4 name) (CHR '':'') \<noteq> None then Inr (-1, st)
        else let (ret, st1) = on_sw (socket_loopback_client (atoi (drop 4 name)) SOCK_STREAM) st
             in Inr (ret, if ret \<ge> 0 then do_sw (SysSetsockopt ret TCP_NODELAY) st1 else st1))
     else if starts_with ''local:'' name then local_client (drop 6 name) ANDROID_SOCKET_NAMESPACE_RESERVED
     else if starts_with ''localreserved:'' name then local_client (drop 14 name) ANDROID_SOCKET_NAMESPACE_RESERVED
     else if starts_with ''localabstract:'' name then local_client (drop 14 name) ANDROID_SOCKET_NAMESPACE_ABSTRACT
     else if starts_with ''localfilesystem:'' name then local_client (drop 16 name) ANDROID_SOCKET_NAMESPACE_FILESYSTEM
     else if starts_with ''dev:'' name then Inr (on_sw (call (SysOpen (drop 4 name) O_RDWR 0)) st)
     else if starts_with ''framebuffer:'' name then Inr (create_service_thread FramebufferService CNull st)
     else if recovery_mode st \<and> starts_with ''recover:'' name then Inr (create_service_thread RecoverService (CInt (atoi (drop 8 name))) st)
     else if starts_with ''jdwp:'' name then
       andthen (create_jdwp_connection_fd (atoi (drop 5 name)) (sj st)) (\<lambda>(r, j). Inr (r, st\<lparr>sj := j\<rparr>))
     else if starts_with ''log:'' name then Inr (start_log (drop 4 name) st)
     else if \<not> HOST st \<and> starts_with ''shell:'' name then create_subproc_thread (if drop 6 name \<noteq> [] then Some (drop 6 name) else None) st
     else if starts_with ''sync:'' name then Inr (create_service_thread FileSyncService CNull st)
     else if starts_with ''remount:'' name then Inr (create_service_thread RemountService CNull st)
     else if starts_with ''reboot:'' name then start_reboot (drop 7 name) st
     else if starts_with ''tcpip:'' name then Inr (create_service_thread RestartTcpService (CInt (scan_port junk_port (drop 6 name))) st)
     else if starts_with ''usb:'' name then Inr (create_service_thread RestartUsbService CNull st)
     else Inr (-1, st))"

section \<open>A thread\<close>

text \<open>What a service finds when its thread runs: uninitialised memory by size, the two words \<open>fds\<close> of the framebuffer
  service, \<open>strerror\<close>, the descriptor of the event loop, the variable \<open>system_ro\<close>, and a bound for waiting.\<close>

record thread_env =
  e_mem :: "nat \<Rightarrow> bytes"
  e_fds :: "int \<times> int"
  e_strerror :: "errno \<Rightarrow> string"
  e_notify :: int
  e_ro :: int
  e_fuel :: nat

definition same_heap :: "heap \<Rightarrow> world outcome \<Rightarrow> (heap \<times> world) outcome" where
  "same_heap h r = andthen r (\<lambda>w. Inr (h, w))"

definition int_of :: "cookie \<Rightarrow> int" where
  "int_of c = (case c of CInt n \<Rightarrow> n | CPtr a \<Rightarrow> int a | CNull \<Rightarrow> 0)"

definition ptr_of :: "cookie \<Rightarrow> addr" where
  "ptr_of c = (case c of CPtr a \<Rightarrow> a | _ \<Rightarrow> 0)"

definition service_bootstrap_func :: "thread_env \<Rightarrow> svc_func \<times> int \<times> cookie \<Rightarrow> heap \<Rightarrow> world \<Rightarrow> (heap \<times> world) outcome" where
  "service_bootstrap_func env t h w = (case t of (func, fd, c) \<Rightarrow> (case func of
       FramebufferService \<Rightarrow> same_heap h (framebuffer_service (e_fds env) fd w)
     | RecoverService \<Rightarrow> same_heap h (recover_service fd (int_of c) w)
     | LogService \<Rightarrow> log_service (e_mem env (LOGGER_ENTRY_MAX_LEN + 1)) fd (ptr_of c) h w
     | FileSyncService \<Rightarrow> same_heap h (file_sync_service (e_strerror env) fd (Some (e_mem env SYNC_DATA_MAX)) w)
     | RemountService \<Rightarrow> andthen (remount_service (e_strerror env) (e_mem env 4096) fd (e_ro env) w) (\<lambda>(_, w1). Inr (h, w1))
     | RebootService \<Rightarrow> reboot_service fd (ptr_of c) h w
     | RestartTcpService \<Rightarrow> same_heap h (restart_tcp_service fd (int_of c) w)
     | RestartUsbService \<Rightarrow> same_heap h (restart_usb_service fd w)
     | SubprocWaiterService \<Rightarrow> (case subproc_waiter_service (e_fuel env) (e_notify env) fd (int_of c) w of
           None \<Rightarrow> Inl NoFuel | Some r \<Rightarrow> same_heap h r)))"

section \<open>Lemmas\<close>

lemma create_service_thread_heap:
  "create_service_thread func c st = (ret, st') \<Longrightarrow> strs st' = strs st \<and>
    (0 \<le> ret \<longrightarrow> (\<exists>s1. threads st' = threads st @ [(func, s1, c)])) \<and> (ret < 0 \<longrightarrow> threads st' = threads st \<or> (\<exists>s1. threads st' = threads st @ [(func, s1, c)]))"
  by (auto simp: create_service_thread_def on_sw_def on_jw_def Let_def split: prod.splits sysans.splits if_splits)

text \<open>The services that are connections: the domain of their socket.\<close>

definition socket_service :: "string \<Rightarrow> nat option" where
  "socket_service name =
    (if starts_with ''tcp:'' name then if strchr (drop 4 name) (CHR '':'') = None then Some AF_INET else None
     else if list_ex (\<lambda>p. starts_with p name) [''local:'', ''localreserved:'', ''localabstract:'', ''localfilesystem:''] then Some AF_LOCAL
     else None)"

abbreviation sw :: "sstate \<Rightarrow> world" where
  "sw st \<equiv> wld (jd (sj st))"

text \<open>A socket the kernel gave is returned and open, or was closed by the last call.\<close>

definition not_leaked :: "int \<Rightarrow> int \<Rightarrow> world \<Rightarrow> world \<Rightarrow> bool" where
  "not_leaked s fd w w' \<longleftrightarrow> (0 \<le> fd \<longrightarrow> fd = s \<and> SysClose fd \<notin> set (drop (length (w_log w)) (w_log w'))) \<and>
     (fd < 0 \<and> 0 \<le> s \<longrightarrow> last (w_log w') = SysClose s)"

lemma local_client_not_leaked:
  "\<exists>fd w'. socket_local_client n ns SOCK_STREAM w = Inr (fd, w') \<and>
    not_leaked (ret_of (w_kern w (w_log w) (SysSocket AF_LOCAL SOCK_STREAM))) fd w w'"
proof -
  obtain fd w' where r: "socket_local_client n ns SOCK_STREAM w = Inr (fd, w')" by (rule local_client.opens)
  from local_client.fails_closed [OF r] local_client.keeps_open [OF r] r show ?thesis by (auto simp: not_leaked_def)
qed

lemma loopback_not_leaked:
  assumes "socket_loopback_client port SOCK_STREAM w = (fd, w')"
  shows "not_leaked (ret_of (w_kern w (w_log w) (SysSocket AF_INET SOCK_STREAM))) fd w w'"
  using loopback.fails_closed [of port SOCK_STREAM w fd w'] loopback.keeps_open [of port SOCK_STREAM w fd w'] assms by (auto simp: not_leaked_def)

text \<open>Setting an option on the socket does not close it.\<close>

lemma not_leaked_option:
  assumes "not_leaked s fd w w'" and "0 \<le> fd"
  shows "not_leaked s fd w (do_call (SysSetsockopt x n) w')"
proof -
  have "set (drop n (l @ [SysSetsockopt x m])) \<subseteq> insert (SysSetsockopt x m) (set (drop n l))" for n m l
    by (auto dest: in_set_dropD)
  then have "SysClose fd \<notin> set (drop (length (w_log w)) (w_log w' @ [SysSetsockopt x n]))"
    using assms unfolding not_leaked_def by blast
  with assms show ?thesis by (auto simp: not_leaked_def)
qed

lemma local_service:
  assumes "\<not> starts_with ''tcp:'' name"
    and "list_ex (\<lambda>p. starts_with p name) [''local:'', ''localreserved:'', ''localabstract:'', ''localfilesystem:'']"
  obtains n ns where "service_to_fd junk_port name st = on_swo (socket_local_client n ns SOCK_STREAM) st"
proof -
  consider "starts_with ''local:'' name" | "\<not> starts_with ''local:'' name" "starts_with ''localreserved:'' name"
    | "\<not> starts_with ''local:'' name" "\<not> starts_with ''localreserved:'' name" "starts_with ''localabstract:'' name"
    | "\<not> starts_with ''local:'' name" "\<not> starts_with ''localreserved:'' name" "\<not> starts_with ''localabstract:'' name" "starts_with ''localfilesystem:'' name"
    using assms(2) unfolding list_ex_iff list.set by blast
  then show thesis by cases (rule that, simp only: service_to_fd_def Let_def assms(1) if_True if_False)+
qed

lemma adb_write_log: "adb_write fd bs w = Inr (r, w') \<Longrightarrow> w_log w' = w_log w"
  using adb_write_spec [of fd bs w r w'] by (simp add: wr_only_def)

text \<open>The program that is executed has the terminal as its three standard streams, and neither end of it is left open under another
  number: those are the calls of the child before the optional ones.\<close>

lemma subprocess_child_streams:
  assumes "subprocess_child dev self home env cmd argv ptm w = Inr (Some e, w')"
  shows "\<exists>pts l. 0 \<le> pts \<and> w_log w' = w_log w @ [SysSetsid, SysOpen dev O_RDWR 0, SysDup2 pts 0, SysDup2 pts 1, SysDup2 pts 2, SysClose pts, SysClose ptm] @ l @
    [SysExec cmd (cmd # argv)] \<and> (\<forall>c \<in> set l. \<nexists>a b. c = SysDup2 a b) \<and> e ''TERM'' \<noteq> None"
proof -
  let ?w1 = "do_call (SysOpen dev O_RDWR 0) (do_call SysSetsid w)"
  define pts where "pts = ret_of (w_kern w (w_log w @ [SysSetsid]) (SysOpen dev O_RDWR 0))"
  let ?w2 = "do_call (SysClose ptm) (do_call (SysClose pts) (do_call (SysDup2 pts 2) (do_call (SysDup2 pts 1) (do_call (SysDup2 pts 0) ?w1))))"
  let ?p = "take 63 (''/proc/'' @ dec_int self @ ''/oom_score_adj'')"
  obtain fd w3 where f: "adb_open ?p O_WRONLY ?w2 = (fd, w3)" by (cases "adb_open ?p O_WRONLY ?w2")
  have l3: "w_log w3 = w_log ?w2 @ [SysOpen ?p O_WRONLY 0]" using f by (auto simp: adb_open_def sys_call_def Let_def)
  have "call (SysOpen dev O_RDWR 0) (do_call SysSetsid w) = (pts, ?w1)" by (simp add: call_eq pts_def)
  with assms f obtain w5 where p: "0 \<le> pts"
    and w5: "(if fd \<ge> 0 then andthen (adb_write fd (bytes_of ''0'') w3) (\<lambda>(_, w4). Inr (do_call (SysClose fd) w4)) else Inr w3) = Inr w5"
    and e: "e = (if env ''TERM'' = None then env(''TERM'' \<mapsto> ''xterm-256color'') else env)"
    and w': "w' = do_call (SysExec cmd (cmd # argv)) (case e ''HOME'' of Some g \<Rightarrow> if home then do_call (SysChdir g) w5 else w5 | None \<Rightarrow> w5)"
    by (auto simp: subprocess_child_def Let_def andthen_Inr_iff split: if_splits)
  have "w_log w5 = w_log w3 \<or> w_log w5 = w_log w3 @ [SysClose fd]"
    using w5 by (auto simp: andthen_Inr_iff dest!: adb_write_log split: if_splits)
  then obtain m where m: "w_log w5 = w_log w3 @ m" "m = [] \<or> m = [SysClose fd]" by auto
  obtain n where n: "w_log w' = w_log w5 @ n @ [SysExec cmd (cmd # argv)]" "n = [] \<or> (\<exists>g. n = [SysChdir g])"
    using w' by (cases "e ''HOME''"; cases home) auto
  show ?thesis using p m n l3 e
    by (intro exI [of _ pts] exI [of _ "[SysOpen ?p O_WRONLY 0] @ m @ n"]) auto
qed

section \<open>Properties\<close>

text \<open>C36: no socket is leaked by a request for a connection. Whatever the kernel answers to the calls, \<open>service_to_fd\<close> returns for
  every name of a TCP or local socket, and when the kernel has given a socket, either this is the descriptor returned and
  it has not been closed, or the request fails and closing it was the last thing done.\<close>

theorem service_socket_not_leaked:
  assumes "socket_service name = Some d"
  shows "\<exists>fd st'. service_to_fd junk_port name st = Inr (fd, st') \<and>
    not_leaked (ret_of (w_kern (sw st) (w_log (sw st)) (SysSocket d SOCK_STREAM))) fd (sw st) (sw st')"
proof (cases "starts_with ''tcp:'' name")
  case True
  then have d: "strchr (drop 4 name) (CHR '':'') = None" "d = AF_INET" using assms by (auto simp: socket_service_def split: if_splits)
  obtain fd w' where r: "socket_loopback_client (atoi (drop 4 name)) SOCK_STREAM (sw st) = (fd, w')" by force
  let ?st = "st\<lparr>sj := (sj st)\<lparr>jd := (jd (sj st))\<lparr>wld := w'\<rparr>\<rparr>\<rparr>"
  have "service_to_fd junk_port name st = Inr (fd, if 0 \<le> fd then do_sw (SysSetsockopt fd TCP_NODELAY) ?st else ?st)"
    using True d r by (simp add: service_to_fd_def on_sw_def on_jw_def)
  moreover have "not_leaked (ret_of (w_kern (sw st) (w_log (sw st)) (SysSocket d SOCK_STREAM))) fd (sw st)
      (sw (if 0 \<le> fd then do_sw (SysSetsockopt fd TCP_NODELAY) ?st else ?st))"
    using loopback_not_leaked [OF r] not_leaked_option [OF loopback_not_leaked [OF r]] d(2) by (simp add: on_sw_def on_jw_def)
  ultimately show ?thesis by blast
next
  case False
  with assms have d: "d = AF_LOCAL" "list_ex (\<lambda>p. starts_with p name) [''local:'', ''localreserved:'', ''localabstract:'', ''localfilesystem:'']"
    by (auto simp: socket_service_def split: if_splits)
  obtain n ns where s: "service_to_fd junk_port name st = on_swo (socket_local_client n ns SOCK_STREAM) st"
    by (rule local_service [OF False d(2)])
  from local_client_not_leaked [of n ns "sw st"] s d(1) show ?thesis by (auto simp: on_swo_def)
qed

definition sample_services :: sstate where
  "sample_services = \<lparr>sj = sample_jdwp, strs = (\<lambda>_. None), next_str = 1, threads = [], HOST = False, recovery_mode = False, shell = ''/bin/sh''\<rparr>"

theorem service_socket_not_leaked_witness:
  "socket_service ''localabstract:x'' = Some AF_LOCAL \<and>
    (\<exists>fd st'. service_to_fd 0 ''localabstract:x'' sample_services = Inr (fd, st') \<and> not_leaked 9 fd (sw sample_services) (sw st'))"
proof -
  have s: "socket_service ''localabstract:x'' = Some AF_LOCAL" by (simp add: socket_service_def starts_with_def)
  have "ret_of (w_kern (sw sample_services) (w_log (sw sample_services)) (SysSocket AF_LOCAL SOCK_STREAM)) = 9"
    by (simp add: sample_services_def sample_jdwp_def ret_of_def)
  with service_socket_not_leaked [OF s, of 0 sample_services] s show ?thesis by simp
qed

text \<open>C40: a request to reboot always ends in a use of freed memory. \<open>service_to_fd\<close> passes a copy of the argument to the
  thread and frees it at once, and the thread reads and frees it too. If the thread runs after \<open>service_to_fd\<close>
  has returned, it uses the freed argument whatever the kernel does; if the thread has finished first, the
  free in \<open>service_to_fd\<close> is the second one.\<close>

theorem reboot_argument_freed_twice:
  assumes "next_str st \<noteq> 0" and "service_to_fd junk_port (''reboot:'' @ arg) st = Inr (ret, st')" and "0 \<le> ret"
  shows "\<exists>s1. threads st' = threads st @ [(RebootService, s1, CPtr (next_str st))] \<and>
    (\<forall>env w. service_bootstrap_func env (last (threads st')) (strs st') w = Inl Dangling) \<and>
    (\<forall>env w h w'. service_bootstrap_func env (last (threads st')) ((strs st)(next_str st \<mapsto> arg)) w = Inr (h, w') \<longrightarrow>
      free_str (next_str st) h = Inl Dangling)"
proof -
  let ?st1 = "st\<lparr>strs := (strs st)(next_str st \<mapsto> arg), next_str := next_str st + 1\<rparr>"
  have "service_to_fd junk_port (''reboot:'' @ arg) st = start_reboot arg st" by (simp add: service_to_fd_def starts_with_def)
  then have "start_reboot arg st = Inr (ret, st')" using assms(2) by simp
  then obtain st2 where c: "create_service_thread RebootService (CPtr (next_str st)) ?st1 = (ret, st2)"
    and f: "free_str (next_str st) (strs st2) = Inr (strs st')" "threads st' = threads st2"
    by (auto simp: start_reboot_def new_str_def andthen_Inr_iff Let_def split: prod.splits)
  obtain s1 where t: "threads st' = threads st @ [(RebootService, s1, CPtr (next_str st))]"
    using create_service_thread_heap [OF c] f(2) assms(3) by auto
  have "strs st' = (strs st2)(next_str st := None)" using f(1) assms(1) by (simp add: free_str_def split: if_splits)
  then have gone: "strs st' (next_str st) = None" by simp
  have "reboot_service s1 (next_str st) (strs st') w = Inl Dangling" for w
    using gone assms(1) by (simp add: reboot_service_def load_str_def free_str_def Let_def split: prod.split)
  moreover have "h (next_str st) = None" if "reboot_service s1 (next_str st) ((strs st)(next_str st \<mapsto> arg)) w = Inr (h, w')" for w h w'
    using that assms(1) by (auto simp: reboot_service_def load_str_def free_str_def Let_def split: prod.splits if_splits)
  ultimately show ?thesis using t assms(1) by (auto simp: service_bootstrap_func_def ptr_of_def free_str_def)
qed

text \<open>A kernel that makes pairs and threads.\<close>

definition pair_services :: sstate where
  "pair_services = sample_services\<lparr>sj := sample_jdwp\<lparr>jd := sample_daemon\<lparr>wld := idle_world\<lparr>w_kern := (\<lambda>_ c.
     if c = SysSocketpair then SPair 5 6 else SRet 0)\<rparr>\<rparr>\<rparr>\<rparr>"

theorem reboot_argument_freed_twice_witness:
  "\<exists>st' s1. service_to_fd 0 ''reboot:now'' pair_services = Inr (5, st') \<and> threads st' = [(RebootService, s1, CPtr 1)] \<and>
    (\<forall>env w. service_bootstrap_func env (RebootService, s1, CPtr 1) (strs st') w = Inl Dangling)"
proof -
  obtain st' where r: "service_to_fd 0 (''reboot:'' @ ''now'') pair_services = Inr (5, st')"
    by (simp add: service_to_fd_def starts_with_def start_reboot_def new_str_def create_service_thread_def on_sw_def on_jw_def sys_call_def
        call_def ret_of_def free_str_def pair_services_def sample_services_def Let_def)
  have n: "next_str pair_services = 1" "threads pair_services = []" by (simp_all add: pair_services_def sample_services_def)
  from reboot_argument_freed_twice [OF _ r] n r show ?thesis by auto
qed

end
