(* ===== verification/Keys.thy ===== *)
theory Keys
  imports Ring Base64 Strings Adb Listeners
begin

text \<open>
  The public keys of \<open>adb_auth_client.c\<close>: reading them from the key files into the list \<open>key_list\<close>, freeing them, and
  the control socket on which the framework connects. The list is the intrusive list of \<open>list.c\<close>; its nodes
  hold the decoded bytes of a key. A file is its contents, and \<open>None\<close> one that does not exist. Allocation does not fail.
\<close>

section \<open>State\<close>

record keystore =
  klinks :: links
  knodes :: "addr \<Rightarrow> bytes option"
  kfresh :: addr

definition key_list :: addr where "key_list = 1"
definition RSANUMWORDS :: u32 where "RSANUMWORDS = 64"
definition sizeof_key :: nat where "sizeof_key = 524"

definition key_paths :: "string list" where
  "key_paths = [''/etc/adb_keys'', ''/etc/adb/keys'', ''/adb_keys'', ''/data/misc/adb/adb_keys'']"

section \<open>Reading\<close>

text \<open>\<open>fgets(buf,n,f)\<close>: the line with its end, or the first \<open>n-1\<close> characters of it, and what is left of the file.\<close>

definition fgets :: "nat \<Rightarrow> string \<Rightarrow> (string \<times> string) option" where
  "fgets n s = (if s = [] then None else
     let nl = length (takeWhile (\<lambda>c. c \<noteq> CHR 0x0A) s); k = min (n - 1) (nl + 1)
     in Some (take k s, drop k s))"

lemma fgets_shorter: "fgets n s = Some (line, r) \<Longrightarrow> 1 < n \<Longrightarrow> length r < length s"
  by (auto simp: fgets_def Let_def split: if_splits)

text \<open>The body of the loop of \<open>read_keys\<close>: the key of a line. The buffer is read up to its first zero byte, and a zero is
  written over the first blank.\<close>

definition line_key :: "string \<Rightarrow> bytes option outcome" where
  "line_key line =
    (let buf = takeWhile (\<lambda>c. c \<noteq> CHR 0x00) line;
         txt = takeWhile (\<lambda>c. c \<noteq> CHR '' '' \<and> c \<noteq> CHR 0x09) buf
     in andthen (b64_pton txt (replicate (sizeof_key + 4) 0)) (\<lambda>(ret, key).
       Inr (if ret \<noteq> int sizeof_key then None else if of_le32 key \<noteq> RSANUMWORDS then None else Some (take sizeof_key key))))"

function read_lines :: "string \<Rightarrow> keystore \<Rightarrow> keystore outcome" where
  "read_lines s st = (case fgets MAX_PAYLOAD s of
       None \<Rightarrow> Inr st
     | Some (line, r) \<Rightarrow> andthen (line_key line) (\<lambda>k.
         let a = kfresh st; st1 = st\<lparr>kfresh := a + 1\<rparr> in
         case k of
           None \<Rightarrow> read_lines r st1
         | Some key \<Rightarrow> read_lines r (st1\<lparr>knodes := (knodes st)(a \<mapsto> key), klinks := list_add_tail key_list a (klinks st)\<rparr>)))"
  by pat_completeness auto
termination
  by (relation "measure (\<lambda>(s, st). length s)") (auto simp: MAX_PAYLOAD_def dest: fgets_shorter)

declare read_lines.simps [simp del]

definition read_keys :: "(string \<Rightarrow> string option) \<Rightarrow> string \<Rightarrow> keystore \<Rightarrow> keystore outcome" where
  "read_keys files path st = (case files path of None \<Rightarrow> Inr st | Some s \<Rightarrow> read_lines s st)"

section \<open>Freeing and reloading\<close>

definition free_key :: "addr \<Rightarrow> keystore \<Rightarrow> keystore outcome" where
  "free_key a st = (if knodes st a = None then Inl Dangling else Inr (st\<lparr>knodes := (knodes st)(a := None)\<rparr>))"

text \<open>The loop of \<open>free_keys\<close>; \<open>fuel\<close> bounds its rounds.\<close>

fun free_keys_loop :: "nat \<Rightarrow> keystore \<Rightarrow> keystore outcome" where
  "free_keys_loop fuel st =
    (if list_empty key_list (klinks st) then Inr st
     else case fuel of
         0 \<Rightarrow> Inl NoFuel
       | Suc n \<Rightarrow>
           let item = list_head key_list (klinks st)
           in andthen (free_key item (st\<lparr>klinks := list_remove item (klinks st)\<rparr>)) (free_keys_loop n))"

declare free_keys_loop.simps [simp del]

text \<open>Every allocation has a new address, so the list is shorter than the next one.\<close>

definition free_keys :: "keystore \<Rightarrow> keystore outcome" where
  "free_keys st = free_keys_loop (kfresh st) st"

fun reload_from :: "(string \<Rightarrow> string option) \<Rightarrow> string list \<Rightarrow> keystore \<Rightarrow> keystore outcome" where
  "reload_from files [] st = Inr st"
| "reload_from files (path # paths) st = andthen (if files path \<noteq> None then read_keys files path st else Inr st) (reload_from files paths)"

definition adb_auth_reload_keys :: "(string \<Rightarrow> string option) \<Rightarrow> keystore \<Rightarrow> keystore outcome" where
  "adb_auth_reload_keys files st = andthen (free_keys st) (reload_from files key_paths)"

section \<open>The control socket\<close>

text \<open>\<open>android_get_control_socket\<close>: the descriptor named by the environment. \<open>strtol\<close> does not fail on text without a
  number: the value is then 0. Out of the range of \<open>long\<close> it does.\<close>

definition android_get_control_socket :: "(string \<Rightarrow> string option) \<Rightarrow> string \<Rightarrow> int" where
  "android_get_control_socket env name = (case env (take 63 (''SOCKET_'' @ take 56 name)) of
       None \<Rightarrow> -1
     | Some s \<Rightarrow> (let (neg, t) = strip_sign s; v = read_digits 10 0 t in
         if (if neg then v > 2 ^ 63 else v \<ge> 2 ^ 63) then -1 else atoi s))"

definition adb_auth_listener :: "int \<Rightarrow> daemon \<Rightarrow> daemon outcome" where
  "adb_auth_listener fd d = andthen (adb_socket_accept fd (wld (ds d))) (\<lambda>(s, w).
     let d1 = d\<lparr>ds := (ds d)\<lparr>wld := w\<rparr>\<rparr> in Inr (if s < 0 then d1 else d1\<lparr>framework_fd := s\<rparr>))"

text \<open>The answer of the framework to a public key.\<close>

definition adb_auth_event :: "(string \<Rightarrow> string option) \<Rightarrow> int \<Rightarrow> u16 \<Rightarrow> addr \<Rightarrow> keystore \<times> daemon \<Rightarrow> (keystore \<times> daemon) outcome" where
  "adb_auth_event files fd events t = (\<lambda>(st, d).
     if \<not> has events FDE_READ then Inr (st, d)
     else andthen (adb_read fd 2 (wld (ds d))) (\<lambda>(r, w).
       let d1 = d\<lparr>ds := (ds d)\<lparr>wld := w\<rparr>\<rparr> in
       case r of
         Inl _ \<Rightarrow> andthen (on_ds (on_evl (fdevent_remove (auth_fde t))) d1) (\<lambda>d2. Inr (st, d2\<lparr>framework_fd := -1\<rparr>))
       | Inr bs \<Rightarrow>
           if bs = bytes_of ''OK'' then
             andthen (adb_auth_reload_keys files st) (\<lambda>st1. andthen (adb_auth_verified t d1) (\<lambda>d2. Inr (st1, d2)))
           else Inr (st, d1)))"

text \<open>\<open>lfde\<close> is the address of \<open>listener_fde\<close>.\<close>

definition adb_auth_init :: "(string \<Rightarrow> string option) \<Rightarrow> (string \<Rightarrow> string option) \<Rightarrow> addr \<Rightarrow> keystore \<times> daemon \<Rightarrow> (keystore \<times> daemon) outcome" where
  "adb_auth_init files env lfde = (\<lambda>(st, d).
     andthen (adb_auth_reload_keys files (st\<lparr>klinks := list_init key_list (klinks st)\<rparr>)) (\<lambda>st1.
       let fd = android_get_control_socket env ''adbd'' in
       if fd < 0 then Inr (st1, d)
       else
         let (r, w) = call (SysListen fd 4) (wld (ds d)); d1 = d\<lparr>ds := (ds d)\<lparr>wld := w\<rparr>\<rparr> in
         if r < 0 then Inr (st1, d1)
         else andthen (on_ds (on_evl (fdevent_install lfde fd (Handler 7) 0)) d1) (\<lambda>d2.
           andthen (on_ds (on_evl (fdevent_add lfde FDE_READ)) d2) (\<lambda>d3. Inr (st1, d3)))))"

section \<open>Lemmas\<close>

text \<open>The keys of a file, line by line.\<close>

function file_keys :: "string \<Rightarrow> bytes list" where
  "file_keys s = (case fgets MAX_PAYLOAD s of
       None \<Rightarrow> []
     | Some (line, r) \<Rightarrow> (case line_key line of Inr (Some k) \<Rightarrow> k # file_keys r | _ \<Rightarrow> file_keys r))"
  by pat_completeness auto
termination
  by (relation "measure length") (auto simp: MAX_PAYLOAD_def dest: fgets_shorter)

declare file_keys.simps [simp del]

lemma line_key_total: "\<exists>k. line_key line = Inr k"
proof -
  let ?t = "takeWhile (\<lambda>c. c \<noteq> CHR '' '' \<and> c \<noteq> CHR 0x09) (takeWhile (\<lambda>c. c \<noteq> CHR 0x00) line)"
  obtain n t' where "b64_pton ?t (replicate (sizeof_key + 4) 0) = Inr (n, t')" using b64_pton_total by blast
  then show ?thesis by (simp add: line_key_def)
qed

text \<open>The list holds nodes that are alive, at addresses given out before.\<close>

definition keys_rep :: "keystore \<Rightarrow> addr list \<Rightarrow> bool" where
  "keys_rep st xs \<longleftrightarrow> ring (klinks st) key_list xs \<and> key_list < kfresh st \<and> (\<forall>a \<in> set xs. a < kfresh st \<and> knodes st a \<noteq> None)"

text \<open>What reading adds to the list, and that it keeps the rest.\<close>

definition keys_added :: "keystore \<Rightarrow> addr list \<Rightarrow> bytes list \<Rightarrow> keystore \<Rightarrow> bool" where
  "keys_added st xs ks st' \<longleftrightarrow> (\<exists>ys. keys_rep st' (xs @ ys) \<and> map (\<lambda>a. the (knodes st' a)) ys = ks) \<and>
     (\<forall>a < kfresh st. knodes st' a = knodes st a) \<and> kfresh st \<le> kfresh st'"

lemma keys_added_refl: "keys_rep st xs \<Longrightarrow> keys_added st xs [] st"
  by (simp add: keys_added_def)

lemma keys_addedE:
  assumes "keys_added st xs ks st1"
  obtains ys where "keys_rep st1 (xs @ ys)" and "map (\<lambda>a. the (knodes st1 a)) ys = ks"
    and "\<And>a. a < kfresh st \<Longrightarrow> knodes st1 a = knodes st a" and "kfresh st \<le> kfresh st1"
  using assms by (auto simp: keys_added_def)

lemma keys_added_trans:
  assumes "keys_rep st1 (xs @ ys)" and "map (\<lambda>a. the (knodes st1 a)) ys = ks"
    and "\<And>a. a < kfresh st \<Longrightarrow> knodes st1 a = knodes st a" and "kfresh st \<le> kfresh st1"
    and "keys_added st1 (xs @ ys) ks2 st2"
  shows "keys_added st xs (ks @ ks2) st2"
proof -
  from assms(5) obtain zs where zs: "keys_rep st2 (xs @ ys @ zs)" "map (\<lambda>a. the (knodes st2 a)) zs = ks2"
    "\<And>a. a < kfresh st1 \<Longrightarrow> knodes st2 a = knodes st1 a" "kfresh st1 \<le> kfresh st2" by (auto elim: keys_addedE)
  have "map (\<lambda>a. the (knodes st2 a)) ys = ks"
    using assms(1,2) zs(3) by (auto simp: keys_rep_def intro!: map_cong)
  with zs assms(3,4) show ?thesis unfolding keys_added_def by (intro conjI exI [of _ "ys @ zs"]) auto
qed

lemma add_key:
  assumes "keys_rep st xs"
  shows "keys_rep (st\<lparr>kfresh := kfresh st + 1, knodes := (knodes st)(kfresh st \<mapsto> k), klinks := list_add_tail key_list (kfresh st) (klinks st)\<rparr>)
    (xs @ [kfresh st])"
proof -
  have "kfresh st \<noteq> 0" "kfresh st \<notin> set (key_list # xs)" using assms by (auto simp: keys_rep_def)
  with assms cutils_list.add_ring [of "klinks st" key_list xs "kfresh st"] show ?thesis by (auto simp: keys_rep_def)
qed

lemma read_lines_added: "keys_rep st xs \<Longrightarrow> \<exists>st'. read_lines s st = Inr st' \<and> keys_added st xs (file_keys s) st'"
proof (induction s st arbitrary: xs rule: read_lines.induct)
  case (1 s st)
  show ?case
  proof (cases "fgets MAX_PAYLOAD s")
    case None
    then show ?thesis using keys_added_refl [OF "1.prems"]
      by (intro exI [of _ st]) (simp add: read_lines.simps [of s st] file_keys.simps [of s])
  next
    case (Some p)
    obtain line r where p: "p = (line, r)" by (cases p)
    obtain k where k: "line_key line = Inr k" using line_key_total by blast
    let ?st0 = "st\<lparr>kfresh := kfresh st + 1\<rparr>"
    show ?thesis
    proof (cases k)
      case None
      have rep: "keys_rep ?st0 xs" using "1.prems" by (auto simp: keys_rep_def)
      from "1.IH"(1) [OF Some p [symmetric] k refl refl None rep] obtain st' where "read_lines r ?st0 = Inr st'" "keys_added ?st0 xs (file_keys r) st'" by blast
      with Some p k None show ?thesis by (auto simp: read_lines.simps [of s st] file_keys.simps [of s] keys_added_def)
    next
      case (Some key)
      let ?st1 = "?st0\<lparr>knodes := (knodes st)(kfresh st \<mapsto> key), klinks := list_add_tail key_list (kfresh st) (klinks st)\<rparr>"
      have rep: "keys_rep ?st1 (xs @ [kfresh st])" using add_key [OF "1.prems"] by simp
      from "1.IH"(2) [OF \<open>fgets MAX_PAYLOAD s = Some p\<close> p [symmetric] k refl refl Some rep] obtain st' where
        st': "read_lines r ?st1 = Inr st'" "keys_added ?st1 (xs @ [kfresh st]) (file_keys r) st'" by blast
      have "keys_added st xs ([key] @ file_keys r) st'"
        by (rule keys_added_trans [OF rep _ _ _ st'(2)]) auto
      with st'(1) \<open>fgets MAX_PAYLOAD s = Some p\<close> p k Some show ?thesis
        by (auto simp: read_lines.simps [of s st] file_keys.simps [of s])
    qed
  qed
qed

lemma free_keys_loop_all:
  assumes "keys_rep st xs" and "length xs \<le> fuel"
  shows "\<exists>st'. free_keys_loop fuel st = Inr st' \<and> keys_rep st' [] \<and> knodes st' = (\<lambda>a. if a \<in> set xs then None else knodes st a) \<and> kfresh st' = kfresh st"
  using assms
proof (induction xs arbitrary: st fuel)
  case Nil
  then have "list_empty key_list (klinks st)" by (auto simp: keys_rep_def list_empty_def)
  with Nil show ?case by (intro exI [of _ st]) (simp add: free_keys_loop.simps)
next
  case (Cons x xs)
  then obtain n where f: "fuel = Suc n" "length xs \<le> n" by (cases fuel) auto
  have r: "ring (klinks st) key_list (x # xs)" and live: "knodes st x \<noteq> None" using Cons.prems by (auto simp: keys_rep_def)
  have h: "\<not> list_empty key_list (klinks st)" "list_head key_list (klinks st) = x"
    using list_empty_ring [OF r] ring_next [OF r] by (auto simp: list_head_def)
  let ?st = "st\<lparr>klinks := list_remove x (klinks st), knodes := (knodes st)(x := None)\<rparr>"
  have "ring (list_remove x (klinks st)) key_list xs" using cutils_list.del_ring [of "klinks st" key_list "[]" x xs] r by simp
  moreover have "x \<notin> set xs" using r by (simp add: ring_def)
  ultimately have "keys_rep ?st xs" using Cons.prems by (auto simp: keys_rep_def)
  from Cons.IH [OF this f(2)] obtain st' where "free_keys_loop n ?st = Inr st'" "keys_rep st' []"
    "knodes st' = (\<lambda>a. if a \<in> set xs then None else knodes ?st a)" "kfresh st' = kfresh ?st" by blast
  moreover have "free_keys_loop fuel st = free_keys_loop n ?st"
    unfolding f(1) using h live by (subst free_keys_loop.simps) (auto simp: free_key_def Let_def)
  ultimately show ?case by (intro exI [of _ st']) (auto simp: fun_eq_iff)
qed

text \<open>The list is not longer than the addresses given out.\<close>

lemma keys_rep_length: "keys_rep st xs \<Longrightarrow> length xs \<le> kfresh st"
proof -
  assume r: "keys_rep st xs"
  then have "distinct xs" "set xs \<subseteq> {..< kfresh st}" by (auto simp: keys_rep_def ring_def)
  then show ?thesis using card_mono [of "{..< kfresh st}" "set xs"] by (simp add: distinct_card)
qed

lemma reload_from_added:
  assumes "keys_rep st xs"
  shows "\<exists>st'. reload_from files paths st = Inr st' \<and> keys_added st xs (concat (map file_keys (List.map_filter files paths))) st'"
  using assms
proof (induction paths arbitrary: st xs)
  case Nil
  then show ?case by (simp add: keys_added_refl)
next
  case (Cons path paths)
  show ?case
  proof (cases "files path")
    case None
    with Cons show ?thesis by simp
  next
    case (Some s)
    from read_lines_added [OF Cons.prems] obtain st1 where st1: "read_lines s st = Inr st1" "keys_added st xs (file_keys s) st1" by blast
    from st1(2) obtain ys where ys: "keys_rep st1 (xs @ ys)" "map (\<lambda>a. the (knodes st1 a)) ys = file_keys s"
      "\<And>a. a < kfresh st \<Longrightarrow> knodes st1 a = knodes st a" "kfresh st \<le> kfresh st1" using keys_addedE [OF st1(2)] by metis
    from Cons.IH [OF ys(1)] obtain st' where "reload_from files paths st1 = Inr st'"
      "keys_added st1 (xs @ ys) (concat (map file_keys (List.map_filter files paths))) st'" by blast
    with keys_added_trans [OF ys] Some st1(1) show ?thesis by (auto simp: read_keys_def)
  qed
qed

section \<open>Properties\<close>


text \<open>An empty list and no files.\<close>

definition sample_keys :: keystore where
  "sample_keys = \<lparr>klinks = list_init key_list \<lparr>nxt = (\<lambda>_. 0), prv = (\<lambda>_. 0)\<rparr>, knodes = (\<lambda>_. None), kfresh = 2\<rparr>"


end
