(* ===== verification/Registration.thy ===== *)
theory Registration
  imports Listeners Transports Usb
begin

text \<open>
  How transports come and go (\<open>transport.c\<close>, \<open>transport_local.c\<close>, \<open>transport_usb.c\<close>). A thread that has a new connection, or
  that drops the last reference to a transport, writes a message with the address of the transport into the
  registration socket pair; the event loop reads it, starts or frees the transport and updates \<open>transport_list\<close>.
  Packets pass between the threads of a transport and the event loop by address too. Structures handed over this way
  live in stores by address; an address takes eight bytes of a message. The fields \<open>auth_fde\<close> and \<open>transport_fde\<close>
  have addresses of their own behind that of their transport. Allocation does not fail, and \<open>fcntl\<close> and the socket option
  against delays have no effect on the state.
\<close>

section \<open>State\<close>

record rstate =
  dm :: daemon
  r_lsts :: "addr \<Rightarrow> alistener option"
  r_llist :: "addr list"
  pheap :: "addr \<Rightarrow> apacket option" \<comment> \<open>packets on their way through a socket pair\<close>
  reg_send :: int \<comment> \<open>\<open>transport_registration_send\<close>\<close>
  reg_recv :: int \<comment> \<open>\<open>transport_registration_recv\<close>\<close>
  servers :: "int list" \<comment> \<open>ports of the server threads\<close>
  running :: "(addr \<times> bool) list" \<comment> \<open>threads started: of a transport, and whether it is its output thread\<close>

definition transport_fde :: "addr \<Rightarrow> addr" where "transport_fde t = t + 2"

text \<open>The views of the state that the operations of the other components work on.\<close>

definition on_dm :: "(daemon \<Rightarrow> daemon outcome) \<Rightarrow> rstate \<Rightarrow> rstate outcome" where
  "on_dm f st = andthen (f (dm st)) (\<lambda>d. Inr (st\<lparr>dm := d\<rparr>))"

definition on_rd :: "(dstate \<Rightarrow> dstate outcome) \<Rightarrow> rstate \<Rightarrow> rstate outcome" where
  "on_rd f = on_dm (on_ds f)"

definition on_rw :: "(world \<Rightarrow> ('r \<times> world) outcome) \<Rightarrow> rstate \<Rightarrow> ('r \<times> rstate) outcome" where
  "on_rw f st = andthen (f (wld (ds (dm st)))) (\<lambda>(r, w). Inr (r, st\<lparr>dm := (dm st)\<lparr>ds := (ds (dm st))\<lparr>wld := w\<rparr>\<rparr>\<rparr>))"

definition on_lst :: "(lstate \<Rightarrow> lstate outcome) \<Rightarrow> rstate \<Rightarrow> rstate outcome" where
  "on_lst f st = andthen (f \<lparr>ld = ds (dm st), lsts = r_lsts st, llist = r_llist st, gListenAll = 0\<rparr>)
     (\<lambda>l. Inr (st\<lparr>dm := (dm st)\<lparr>ds := ld l\<rparr>, r_lsts := lsts l, r_llist := llist l\<rparr>))"

section \<open>Addresses in messages\<close>

definition le64 :: "addr \<Rightarrow> bytes" where
  "le64 a = le32 (word_of_nat a) @ le32 (word_of_nat (a div 2 ^ 32))"

definition of_le64 :: "bytes \<Rightarrow> addr" where
  "of_le64 bs = unat (of_le32 bs) + 2 ^ 32 * unat (of_le32 (drop 4 bs))"

text \<open>\<open>struct tmsg\<close>: the address, the action and four bytes of padding, which nobody sets.\<close>

record tmsg =
  m_transport :: addr
  m_action :: u32

definition tmsg_bytes :: "tmsg \<Rightarrow> bytes \<Rightarrow> bytes" where
  "tmsg_bytes m pad = le64 (m_transport m) @ le32 (m_action m) @ pad"

definition tmsg_of :: "bytes \<Rightarrow> tmsg" where
  "tmsg_of bs = \<lparr>m_transport = of_le64 bs, m_action = of_le32 (drop 8 bs)\<rparr>"

text \<open>The loops of \<open>read_packet\<close> and \<open>transport_read_action\<close> are those of \<open>readx\<close>, those of \<open>write_packet\<close> and
  \<open>transport_write_action\<close> those of \<open>writex\<close>. A result of 0 is \<open>Some\<close> or \<open>True\<close>.\<close>

definition read_packet :: "int \<Rightarrow> world \<Rightarrow> (addr option \<times> world) outcome" where
  "read_packet fd w = andthen (readx fd 8 w) (\<lambda>(r, w1). Inr (map_option of_le64 r, w1))"

definition write_packet :: "int \<Rightarrow> addr \<Rightarrow> world \<Rightarrow> (bool \<times> world) outcome" where
  "write_packet fd p w = writex fd (le64 p) w"

definition transport_read_action :: "int \<Rightarrow> world \<Rightarrow> (tmsg option \<times> world) outcome" where
  "transport_read_action fd w = andthen (readx fd 16 w) (\<lambda>(r, w1). Inr (map_option tmsg_of r, w1))"

definition transport_write_action :: "bytes \<Rightarrow> int \<Rightarrow> tmsg \<Rightarrow> world \<Rightarrow> (bool \<times> world) outcome" where
  "transport_write_action pad fd m w = writex fd (tmsg_bytes m pad) w"

section \<open>A packet from the input thread\<close>

definition transport_socket_events ::
  "(string \<Rightarrow> dstate \<Rightarrow> (addr \<times> dstate) outcome) \<Rightarrow> int \<Rightarrow> u16 \<Rightarrow> addr \<Rightarrow> rstate \<Rightarrow> rstate outcome" where
  "transport_socket_events open_service fd events t st =
    (if has events FDE_READ then
       andthen (on_rw (read_packet fd) st) (\<lambda>(r, st1). case r of
         None \<Rightarrow> Inr st1
       | Some a \<Rightarrow> (case pheap st1 a of
             None \<Rightarrow> Inl Dangling
           | Some p \<Rightarrow> on_dm (handle_packet open_service p t) (st1\<lparr>pheap := (pheap st1)(a := None)\<rparr>)))
     else Inr st)"

section \<open>Registration\<close>

text \<open>\<open>run_transport_disconnects\<close> on the nodes of remote sockets and of listeners.\<close>

fun run_nodes :: "addr list \<Rightarrow> addr \<Rightarrow> rstate \<Rightarrow> rstate outcome" where
  "run_nodes [] t st = Inr st"
| "run_nodes (a # as) t st =
    andthen (if r_lsts st a \<noteq> None then on_lst (listener_disconnect a t) st else on_rd (remote_socket_disconnect a) st) (run_nodes as t)"

text \<open>Action 0 of \<open>transport_registration_func\<close>.\<close>

definition unregister_transport :: "addr \<Rightarrow> rstate \<Rightarrow> rstate outcome" where
  "unregister_transport t st =
    andthen (on_rd (on_evl (fdevent_remove (transport_fde t))) st) (\<lambda>st1.
    andthen (get_trans t (dm st1)) (\<lambda>x.
    andthen (on_rw (\<lambda>w. Inr ((), do_call (SysClose (t_fd x)) w)) st1) (\<lambda>(_, st2).
    andthen (on_rd (\<lambda>d. Inr (d\<lparr>trans_list := remove1 t (trans_list d)\<rparr>)) st2) (\<lambda>st3.
    andthen (get_trans t (dm st3)) (\<lambda>y.
    andthen (run_nodes (disconnects y) t st3) (\<lambda>st4.
      on_rd (\<lambda>d. Inr (d\<lparr>trans := (trans d)(t := None)\<rparr>)) st4))))))"

text \<open>Starting the threads of a transport. \<open>Handler 8\<close> is \<open>transport_socket_events\<close>.\<close>

definition start_threads :: "addr \<Rightarrow> rstate \<Rightarrow> rstate outcome" where
  "start_threads t st =
    andthen (on_rw (\<lambda>w. Inr (call SysThread w)) st) (\<lambda>(r, st1).
      if r \<noteq> 0 then fatal_errno
      else
        let st2 = st1\<lparr>running := running st1 @ [(t, False)]\<rparr> in
        andthen (on_rw (\<lambda>w. Inr (call SysThread w)) st2) (\<lambda>(r2, st3).
          if r2 \<noteq> 0 then fatal_errno else Inr (st3\<lparr>running := running st3 @ [(t, True)]\<rparr>)))"

definition start_transport :: "addr \<Rightarrow> rstate \<Rightarrow> rstate outcome" where
  "start_transport t st =
    andthen (on_dm (upd_trans t (\<lambda>x. x\<lparr>ref_count := 2\<rparr>)) st) (\<lambda>st1.
    andthen (on_rw (\<lambda>w. Inr (sys_call SysSocketpair w)) st1) (\<lambda>(r, st2). case r of
      SPair s0 s1 \<Rightarrow>
        andthen (on_dm (upd_trans t (\<lambda>x. x\<lparr>transport_socket := s0, t_fd := s1\<rparr>)) st2) (\<lambda>st3.
        andthen (on_rd (on_evl (fdevent_install (transport_fde t) s0 (Handler 8) t)) st3) (\<lambda>st4.
        andthen (on_rd (on_evl (fdevent_set (transport_fde t) FDE_READ)) st4) (start_threads t)))
    | _ \<Rightarrow> fatal_errno))"

text \<open>Any other action.\<close>

definition enlist_transport :: "addr \<Rightarrow> rstate \<Rightarrow> rstate outcome" where
  "enlist_transport t st =
    andthen (get_trans t (dm st)) (\<lambda>x.
    andthen (if connection_state x \<noteq> CS_NOPERM then start_transport t st else Inr st) (\<lambda>st1.
    andthen (on_rd (\<lambda>d. Inr (d\<lparr>trans_list := trans_list d @ [t]\<rparr>)) st1)
      (on_dm (upd_trans t (\<lambda>x. x\<lparr>disconnects := []\<rparr>)))))"

definition transport_registration_func :: "int \<Rightarrow> u16 \<Rightarrow> rstate \<Rightarrow> rstate outcome" where
  "transport_registration_func fd ev st =
    (if \<not> has ev FDE_READ then Inr st
     else andthen (on_rw (transport_read_action fd) st) (\<lambda>(r, st1). case r of
       None \<Rightarrow> fatal_errno
     | Some m \<Rightarrow> if m_action m = 0 then unregister_transport (m_transport m) st1 else enlist_transport (m_transport m) st1))"

text \<open>\<open>rfde\<close> is the address of \<open>transport_registration_fde\<close>, and \<open>Handler 9\<close> is \<open>transport_registration_func\<close>.\<close>

definition init_transport_registration :: "addr \<Rightarrow> rstate \<Rightarrow> rstate outcome" where
  "init_transport_registration rfde st =
    andthen (on_rw (\<lambda>w. Inr (sys_call SysSocketpair w)) st) (\<lambda>(r, st1). case r of
      SPair s0 s1 \<Rightarrow>
        andthen (on_rd (on_evl (fdevent_install rfde s1 (Handler 9) 0)) (st1\<lparr>reg_send := s0, reg_recv := s1\<rparr>))
          (on_rd (on_evl (fdevent_set rfde FDE_READ)))
    | _ \<Rightarrow> fatal_errno)"

text \<open>\<open>pad\<close> is what the padding of the message holds.\<close>

definition post_action :: "bytes \<Rightarrow> u32 \<Rightarrow> addr \<Rightarrow> rstate \<Rightarrow> rstate outcome" where
  "post_action pad act t st =
    andthen (on_rw (transport_write_action pad (reg_send st) \<lparr>m_transport = t, m_action = act\<rparr>) st) (\<lambda>(r, st1).
      if r then Inr st1 else fatal_errno)"

definition register_transport :: "bytes \<Rightarrow> addr \<Rightarrow> rstate \<Rightarrow> rstate outcome" where
  "register_transport pad = post_action pad 1"

definition post_remove :: "bytes \<Rightarrow> addr \<Rightarrow> rstate \<Rightarrow> rstate outcome" where
  "post_remove pad = post_action pad 0"

section \<open>New connections\<close>

text \<open>\<open>calloc\<close> of a transport: the fields that are event structures have the next two addresses.\<close>

definition new_transport :: "rstate \<Rightarrow> addr \<times> rstate" where
  "new_transport st = (let d = ds (dm st); t = fresh d in
     (t, st\<lparr>dm := (dm st)\<lparr>ds := d\<lparr>fresh := t + 3, trans := (trans d)(t \<mapsto> zero_transport)\<rparr>\<rparr>\<rparr>))"

definition init_socket_transport :: "int \<Rightarrow> atransport \<Rightarrow> atransport" where
  "init_socket_transport s x = x\<lparr>t_ops := SocketOps, sfd := s, sync_token := 1, connection_state := CS_OFFLINE,
     t_type := kTransportLocal, adb_port := 0\<rparr>"

definition init_usb_transport :: "addr \<Rightarrow> int \<Rightarrow> atransport \<Rightarrow> atransport" where
  "init_usb_transport h state x = x\<lparr>t_ops := UsbOps, sync_token := 1, connection_state := state,
     t_type := kTransportUsb, t_usb := h\<rparr>"

text \<open>\<open>%p\<close> of an address other than 0.\<close>

definition ptr_text :: "addr \<Rightarrow> string" where "ptr_text a = ''0x'' @ hex a"

text \<open>The result of \<open>init_socket_transport\<close> is always 0.\<close>

definition register_socket_transport :: "bytes \<Rightarrow> int \<Rightarrow> string option \<Rightarrow> rstate \<Rightarrow> rstate outcome" where
  "register_socket_transport pad s name st =
    (let (t, st1) = new_transport st; n = (case name of None \<Rightarrow> take 31 (''T-'' @ ptr_text t) | Some n \<Rightarrow> n)
     in andthen (on_dm (upd_trans t (\<lambda>x. (init_socket_transport s x)\<lparr>serial := Some n\<rparr>)) st1) (register_transport pad t))"

definition register_usb_transport :: "bytes \<Rightarrow> addr \<Rightarrow> string option \<Rightarrow> string option \<Rightarrow> bool \<Rightarrow> rstate \<Rightarrow> rstate outcome" where
  "register_usb_transport pad usb name path writeable st =
    (let (t, st1) = new_transport st
     in andthen (on_dm (upd_trans t (\<lambda>x. (init_usb_transport usb (if writeable then CS_OFFLINE else CS_NOPERM) x)\<lparr>serial := name, devpath := path\<rparr>))
          (st1\<lparr>dm := (dm st1)\<lparr>HOST := False\<rparr>\<rparr>)) (register_transport pad t))"

text \<open>\<open>unregister_usb_transport\<close> unlinks the first transport of the handle that was not accessible.\<close>

fun find_noperm :: "addr \<Rightarrow> addr list \<Rightarrow> daemon \<Rightarrow> addr option outcome" where
  "find_noperm usb [] d = Inr None"
| "find_noperm usb (t # ts) d = andthen (get_trans t d) (\<lambda>x.
     if t_usb x = usb \<and> connection_state x = CS_NOPERM then Inr (Some t) else find_noperm usb ts d)"

definition unregister_usb_transport :: "addr \<Rightarrow> rstate \<Rightarrow> rstate outcome" where
  "unregister_usb_transport usb st =
    andthen (find_noperm usb (trans_list (ds (dm st))) (dm st)) (\<lambda>r. case r of
      None \<Rightarrow> Inr st
    | Some t \<Rightarrow> on_rd (\<lambda>d. Inr (d\<lparr>trans_list := remove1 t (trans_list d)\<rparr>)) st)"

section \<open>TCP\<close>

definition LOCAL_CLIENT_PREFIX :: string where "LOCAL_CLIENT_PREFIX = ''linux-systemd-''"

definition local_connect_arbitrary_ports :: "bytes \<Rightarrow> int \<Rightarrow> int \<Rightarrow> rstate \<Rightarrow> (int \<times> rstate) outcome" where
  "local_connect_arbitrary_ports pad console_port port st =
    andthen (on_rw (\<lambda>w. Inr (socket_loopback_client port SOCK_STREAM w)) st) (\<lambda>(fd, st1).
      if fd \<ge> 0 then
        andthen (register_socket_transport pad fd (Some (take 63 (LOCAL_CLIENT_PREFIX @ dec_int console_port))) st1) (\<lambda>st2. Inr (0, st2))
      else Inr (-1, st1))"

definition local_connect :: "bytes \<Rightarrow> int \<Rightarrow> rstate \<Rightarrow> (int \<times> rstate) outcome" where
  "local_connect pad port = local_connect_arbitrary_ports pad (port - 1) port"

text \<open>One round of the endless loop of \<open>server_socket_thread\<close>: the server descriptor before and after it. The failure of
  opening ends the round after a pause.\<close>

definition server_round :: "bytes \<Rightarrow> int \<Rightarrow> int \<Rightarrow> rstate \<Rightarrow> (int \<times> rstate) outcome" where
  "server_round pad port serverfd st =
    andthen (if serverfd = -1 then on_rw (\<lambda>w. Inr (socket_inaddr_any_server port SOCK_STREAM w)) st else Inr (serverfd, st)) (\<lambda>(sv, st1).
      if serverfd = -1 \<and> sv < 0 then Inr (sv, st1)
      else andthen (on_rw (adb_socket_accept sv) st1) (\<lambda>(fd, st2).
        if fd \<ge> 0 then andthen (register_socket_transport pad fd (Some ''host'') st2) (\<lambda>st3. Inr (sv, st3))
        else Inr (sv, st2)))"

text \<open>The thread; it ends only with the model's fuel, so a run is a bounded number of rounds.\<close>

fun server_socket_thread :: "nat \<Rightarrow> bytes \<Rightarrow> int \<Rightarrow> int \<Rightarrow> rstate \<Rightarrow> (int \<times> rstate) outcome" where
  "server_socket_thread 0 pad port serverfd st = Inr (serverfd, st)"
| "server_socket_thread (Suc n) pad port serverfd st =
    andthen (server_round pad port serverfd st) (\<lambda>(sv, st1). server_socket_thread n pad port sv st1)"

definition local_init :: "int \<Rightarrow> rstate \<Rightarrow> rstate outcome" where
  "local_init port st = andthen (on_rw (\<lambda>w. Inr (call SysThread w)) st) (\<lambda>(r, st1).
     if r \<noteq> 0 then fatal_errno
     else Inr (if HOST (dm st1) then st1 else st1\<lparr>servers := servers st1 @ [port]\<rparr>))"

section \<open>USB\<close>

text \<open>A round of the two threads that open endpoints, with the registration that ends it. \<open>usb\<close> is the address of the handle.\<close>

definition usb_open_thread_round :: "(usb_handle \<Rightarrow> world \<Rightarrow> (usb_handle \<times> world) outcome option) \<Rightarrow> bytes \<Rightarrow> addr \<Rightarrow> usb_handle \<Rightarrow> rstate
    \<Rightarrow> (usb_handle \<times> rstate) outcome option" where
  "usb_open_thread_round opn pad usb h st = map_option (\<lambda>r. andthen r (\<lambda>(h1, w).
     andthen (register_usb_transport pad usb None None True (st\<lparr>dm := (dm st)\<lparr>ds := (ds (dm st))\<lparr>wld := w\<rparr>\<rparr>\<rparr>)) (\<lambda>st1. Inr (h1, st1))))
     (opn h (wld (ds (dm st))))"

definition usb_ffs_open_thread :: "nat \<Rightarrow> bytes \<Rightarrow> addr \<Rightarrow> usb_handle \<Rightarrow> rstate \<Rightarrow> (usb_handle \<times> rstate) outcome option" where
  "usb_ffs_open_thread fuel = usb_open_thread_round (usb_ffs_open_round fuel)"

definition usb_adb_open_thread :: "nat \<Rightarrow> bytes \<Rightarrow> addr \<Rightarrow> usb_handle \<Rightarrow> rstate \<Rightarrow> (usb_handle \<times> rstate) outcome option" where
  "usb_adb_open_thread fuel = usb_open_thread_round (usb_adb_open_round fuel)"

section \<open>Lemmas\<close>

lemma u32_halves: "a < 2 ^ 64 \<Longrightarrow> a mod 4294967296 + 4294967296 * (a div 4294967296 mod 4294967296) = (a :: nat)"
  by (simp add: div_mult2_eq [symmetric] less_mult_imp_div_less)

lemma of_le64_le64 [simp]: "a < 2 ^ 64 \<Longrightarrow> of_le64 (le64 a @ r) = a"
  using u32_halves [of a] by (simp add: of_le64_def le64_def unat_of_nat)

lemma length_le64 [simp]: "length (le64 a) = 8"
  by (simp add: le64_def)

lemma tmsg_of_bytes [simp]: "m_transport m < 2 ^ 64 \<Longrightarrow> tmsg_of (tmsg_bytes m pad) = m"
  by (simp add: tmsg_of_def tmsg_bytes_def)

lemma length_tmsg_bytes [simp]: "length (tmsg_bytes m pad) = 12 + length pad"
  by (simp add: tmsg_bytes_def)

lemma read_action_message:
  assumes "avail fd w = tmsg_bytes m pad @ rest" and "m_transport m < 2 ^ 64" and "length pad = 4"
  obtains w' where "transport_read_action fd w = Inr (Some m, w')" and "avail fd w' = rest" and "rd_only fd w w'"
proof -
  obtain w' where w': "readx fd 16 w = Inr (Some (tmsg_bytes m pad), w')" "avail fd w' = rest"
    using readx.rx_append [OF assms(1), of 16] assms(3) by auto
  with that [of w'] assms(2) readx_rd_only [OF w'(1)] show ?thesis by (simp add: transport_read_action_def)
qed

text \<open>A new event structure for a descriptor the kernel has just returned, watched for input.\<close>

lemma watch_new:
  assumes inv: "loop_inv l pend" and a: "\<not> active (fde_state (fdes l a))" "a \<noteq> 0" "a \<noteq> list_pending"
    and fd: "fd \<le> 32000" "\<And>b. active (fde_state (fdes l b)) \<Longrightarrow> fde_fd (fdes l b) \<noteq> int fd"
    and ep: "epoll_ok l" "pollable l (int fd)"
  obtains l1 l2 pend' where "fdevent_install a (int fd) h arg l = Inr l1" and "fdevent_set a FDE_READ l1 = Inr l2"
    and "loop_inv l2 pend'" and "subseq pend' pend" and "loop_frame a l l2" and "active (fde_state (fdes l2 a))"
    and "want (fde_state (fdes l2 a)) = FDE_READ" and "fde_fd (fdes l2 a) = int fd" and "fde_func (fdes l2 a) = h" and "fde_arg (fdes l2 a) = arg"
    and "closed l2 = closed l"
proof -
  obtain l1 where l1: "fdevent_install a (int fd) h arg l = Inr l1" "loop_inv l1 pend"
    "fdes l1 = (fdes l)(a := \<lparr>fde_fd = int fd, force_eof = False, fde_state = FDE_ACTIVE, fde_events = 0, fde_func = h, fde_arg = arg\<rparr>)"
    "closed l1 = closed l" "pollable l1 = pollable l" "epoll_ok l1 = epoll_ok l"
    using fdevent_install_inv [OF inv a fd ep(1), of h arg] by auto
  then have act: "active (fde_state (fdes l1 a))" and p: "pollable l1 (fde_fd (fdes l1 a))" using ep by simp_all
  obtain l2 pend' where l2: "fdevent_set a FDE_READ l1 = Inr l2" "loop_inv l2 pend'" "subseq pend' pend" "loop_frame a l1 l2"
    "active (fde_state (fdes l2 a))" "want (fde_state (fdes l2 a)) = FDE_READ" "target (fdes l2 a) = target (fdes l1 a)" "closed l2 = closed l1"
    by (rule fdevent_set_promise [OF l1(2) act _ p, of FDE_READ]) auto
  have "loop_frame a l l2" using l2(4) l1(3,5,6) by (simp add: loop_frame_def)
  with that [OF l1(1) l2(1,2,3) _ l2(5,6)] l2(7,8) l1(3,4) show ?thesis by (simp add: target_def)
qed

lemma weaken: "P \<Longrightarrow> (P \<Longrightarrow> Q) \<Longrightarrow> Q"
  by blast

lemmas view_defs = on_dm_def on_rd_def on_rw_def on_ds_def on_evl_def upd_trans_def get_trans_def

text \<open>A kernel with the socket pair \<open>a\<close>, \<open>b\<close> and room for threads.\<close>

definition kernel_starts :: "nat \<Rightarrow> int \<Rightarrow> world \<Rightarrow> bool" where
  "kernel_starts a b w \<longleftrightarrow> (\<forall>log. w_kern w log SysSocketpair = SPair (int a) b \<and> w_kern w log SysThread = SRet 0)"

lemma sys_call_simps [simp]:
  "w_kern (snd (sys_call c w)) = w_kern w" "w_rd (snd (sys_call c w)) = w_rd w" "w_log (snd (sys_call c w)) = w_log w @ [c]"
  "fst (sys_call c w) = w_kern w (w_log w) c"
  by (simp_all add: sys_call_def Let_def)

abbreviation rds :: "rstate \<Rightarrow> dstate" where "rds st \<equiv> ds (dm st)"

text \<open>The transport as the event loop has started it.\<close>

definition started :: "nat \<Rightarrow> int \<Rightarrow> atransport \<Rightarrow> atransport" where
  "started a b x = x\<lparr>ref_count := 2, transport_socket := int a, t_fd := b, disconnects := []\<rparr>"

text \<open>What starting a transport makes of the state: \<open>l\<close> is the event loop and \<open>w\<close> the world after it.\<close>

definition enlisted :: "addr \<Rightarrow> atransport \<Rightarrow> evloop \<Rightarrow> world \<Rightarrow> rstate \<Rightarrow> rstate" where
  "enlisted t y l w st = st\<lparr>dm := (dm st)\<lparr>ds := (rds st)\<lparr>trans := (trans (rds st))(t \<mapsto> y), trans_list := trans_list (rds st) @ [t], evl := l, wld := w\<rparr>\<rparr>,
     running := running st @ [(t, False), (t, True)]\<rparr>"

lemma start_threads_eq:
  assumes "kernel_starts a b (wld (rds st))"
  shows "start_threads t st = Inr (st\<lparr>dm := (dm st)\<lparr>ds := (rds st)\<lparr>wld := snd (sys_call SysThread (snd (sys_call SysThread (wld (rds st)))))\<rparr>\<rparr>,
    running := running st @ [(t, False), (t, True)]\<rparr>)"
proof -
  have c: "call SysThread w = (0, snd (sys_call SysThread w))" if "w_kern w = w_kern (wld (rds st))" for w
    using assms that by (simp add: kernel_starts_def call_def ret_of_def case_prod_unfold)
  have "call SysThread (wld (rds st)) = (0, snd (sys_call SysThread (wld (rds st))))" by (rule c) simp
  moreover have "call SysThread (snd (sys_call SysThread (wld (rds st)))) = (0, snd (sys_call SysThread (snd (sys_call SysThread (wld (rds st))))))"
    by (rule c) simp
  ultimately show ?thesis by (simp add: start_threads_def on_rw_def Let_def)
qed

lemma enlist_started:
  assumes t: "t \<noteq> 0" "trans (rds st) t = Some x" "connection_state x \<noteq> CS_NOPERM"
    and k: "kernel_starts a b (wld (rds st))"
    and l: "fdevent_install (transport_fde t) (int a) (Handler 8) t (evl (rds st)) = Inr l1" "fdevent_set (transport_fde t) FDE_READ l1 = Inr l2"
  obtains w where "enlist_transport t st = Inr (enlisted t (started a b x) l2 w st)"
    and "w_kern w = w_kern (wld (rds st))" and "w_rd w = w_rd (wld (rds st))" and "w_log w = w_log (wld (rds st)) @ [SysSocketpair, SysThread, SysThread]"
proof -
  define w1 where "w1 = snd (sys_call SysSocketpair (wld (rds st)))"
  define w3 where "w3 = snd (sys_call SysThread (snd (sys_call SysThread w1)))"
  have s: "sys_call SysSocketpair (wld (rds st)) = (SPair (int a) b, w1)"
    using k by (simp add: kernel_starts_def w1_def prod_eq_iff)
  let ?st1 = "st\<lparr>dm := (dm st)\<lparr>ds := (rds st)\<lparr>wld := w1, trans := (trans (rds st))(t \<mapsto> x\<lparr>ref_count := 2, transport_socket := int a, t_fd := b\<rparr>), evl := l2\<rparr>\<rparr>\<rparr>"
  have "kernel_starts a b (wld (rds ?st1))" using k by (simp add: kernel_starts_def w1_def)
  from start_threads_eq [OF this, of t] have "start_threads t ?st1 = Inr (?st1\<lparr>dm := (dm ?st1)\<lparr>ds := (rds ?st1)\<lparr>wld := w3\<rparr>\<rparr>,
    running := running st @ [(t, False), (t, True)]\<rparr>)" by (simp add: w3_def)
  then have "start_transport t st = Inr (?st1\<lparr>dm := (dm ?st1)\<lparr>ds := (rds ?st1)\<lparr>wld := w3\<rparr>\<rparr>, running := running st @ [(t, False), (t, True)]\<rparr>)"
    using t l by (simp add: start_transport_def view_defs s)
  then have "enlist_transport t st = Inr (enlisted t (started a b x) l2 w3 st)"
    using t by (simp add: enlist_transport_def view_defs enlisted_def started_def)
  then show ?thesis using that by (simp add: w3_def w1_def)
qed

text \<open>A transport without disconnect nodes is removed.\<close>

definition delisted :: "addr \<Rightarrow> atransport \<Rightarrow> evloop \<Rightarrow> rstate \<Rightarrow> rstate" where
  "delisted t y l st = st\<lparr>dm := (dm st)\<lparr>ds := (rds st)\<lparr>trans := (trans (rds st))(t := None), trans_list := remove1 t (trans_list (rds st)), evl := l,
     wld := do_call (SysClose (t_fd y)) (wld (rds st))\<rparr>\<rparr>\<rparr>"

lemma unregister_idle:
  assumes "t \<noteq> 0" and "trans (rds st) t = Some y" and "disconnects y = []" and "fdevent_remove (transport_fde t) (evl (rds st)) = Inr l"
  shows "unregister_transport t st = Inr (delisted t y l st)"
  using assms by (simp add: unregister_transport_def view_defs delisted_def)

lemma registration_message:
  assumes "avail fd (wld (rds st)) = tmsg_bytes m pad @ rest" and "m_transport m < 2 ^ 64" and "length pad = 4"
  obtains w where "transport_registration_func fd FDE_READ st =
      (if m_action m = 0 then unregister_transport (m_transport m) else enlist_transport (m_transport m)) (st\<lparr>dm := (dm st)\<lparr>ds := (rds st)\<lparr>wld := w\<rparr>\<rparr>\<rparr>)"
    and "avail fd w = rest" and "rd_only fd (wld (rds st)) w"
proof -
  obtain w where w: "transport_read_action fd (wld (rds st)) = Inr (Some m, w)" "avail fd w = rest" "rd_only fd (wld (rds st)) w"
    by (rule read_action_message [OF assms])
  have r: "FDE_READ AND FDE_READ \<noteq> 0" by (simp add: FDE_READ_def)
  show ?thesis using r w by (intro that [of w]) (simp_all add: transport_registration_func_def on_rw_def)
qed

lemma register_message:
  assumes inv: "loop_inv (evl (rds st)) pend"
    and t: "t \<noteq> 0" "t < 2 ^ 64" "trans (rds st) t = Some x" "connection_state x \<noteq> CS_NOPERM" "\<not> active (fde_state (fdes (evl (rds st)) (transport_fde t)))"
    and a: "new_fd a (rds st)" and k: "kernel_starts a b (wld (rds st))"
    and msg: "avail fd (wld (rds st)) = tmsg_bytes \<lparr>m_transport = t, m_action = 1\<rparr> pad @ rest" "length pad = 4"
  obtains l w pend' where "transport_registration_func fd FDE_READ st = Inr (enlisted t (started a b x) l w st)"
    and "loop_inv l pend'" and "subseq pend' pend" and "loop_frame (transport_fde t) (evl (rds st)) l" and "active (fde_state (fdes l (transport_fde t)))"
    and "want (fde_state (fdes l (transport_fde t))) = FDE_READ" and "target (fdes l (transport_fde t)) = (Handler 8, int a, t)"
    and "closed l = closed (evl (rds st))" and "avail fd w = rest"
proof -
  have fd: "a \<le> 32000" "epoll_ok (evl (rds st))" "pollable (evl (rds st)) (int a)"
    "\<And>b. active (fde_state (fdes (evl (rds st)) b)) \<Longrightarrow> fde_fd (fdes (evl (rds st)) b) \<noteq> int a" using a by (auto simp: new_fd_def)
  have f: "transport_fde t \<noteq> 0" "transport_fde t \<noteq> list_pending" by (simp_all add: transport_fde_def list_pending_def)
  obtain l1 l2 pend' where l: "fdevent_install (transport_fde t) (int a) (Handler 8) t (evl (rds st)) = Inr l1" "fdevent_set (transport_fde t) FDE_READ l1 = Inr l2"
    "loop_inv l2 pend'" "subseq pend' pend" "loop_frame (transport_fde t) (evl (rds st)) l2" "active (fde_state (fdes l2 (transport_fde t)))"
    "want (fde_state (fdes l2 (transport_fde t))) = FDE_READ" "target (fdes l2 (transport_fde t)) = (Handler 8, int a, t)" "closed l2 = closed (evl (rds st))"
    by (rule watch_new [OF inv t(5) f fd(1,4,2,3), of "Handler 8" t]) (auto simp: target_def)
  obtain w0 where w0: "transport_registration_func fd FDE_READ st = enlist_transport t (st\<lparr>dm := (dm st)\<lparr>ds := (rds st)\<lparr>wld := w0\<rparr>\<rparr>\<rparr>)"
    "avail fd w0 = rest" "rd_only fd (wld (rds st)) w0"
    by (rule registration_message [OF msg(1) _ msg(2)]) (use t(2) in auto)
  let ?st = "st\<lparr>dm := (dm st)\<lparr>ds := (rds st)\<lparr>wld := w0\<rparr>\<rparr>\<rparr>"
  have k0: "kernel_starts a b (wld (rds ?st))" using k w0(3) by (simp add: kernel_starts_def rd_only_def)
  obtain w where w: "enlist_transport t ?st = Inr (enlisted t (started a b x) l2 w ?st)" "w_rd w = w_rd (wld (rds ?st))"
    by (rule enlist_started [OF t(1) _ t(4) k0, of l1 l2]) (use t(3) l(1,2) in auto)
  have "avail fd w = rest" using w(2) w0(2) by (simp add: avail_def)
  moreover have "enlisted t (started a b x) l2 w ?st = enlisted t (started a b x) l2 w st" by (simp add: enlisted_def)
  ultimately show ?thesis using that [of l2 w pend'] w0(1) w(1) l(3-9) by simp
qed

lemma remove_message:
  assumes inv: "loop_inv (evl (rds st)) pend"
    and t: "t \<noteq> 0" "t < 2 ^ 64" "trans (rds st) t = Some y" "disconnects y = []" "active (fde_state (fdes (evl (rds st)) (transport_fde t)))"
    and msg: "avail fd (wld (rds st)) = tmsg_bytes \<lparr>m_transport = t, m_action = 0\<rparr> pad @ rest" "length pad = 4"
  obtains l w pend' where "transport_registration_func fd FDE_READ st = Inr (delisted t y l (st\<lparr>dm := (dm st)\<lparr>ds := (rds st)\<lparr>wld := w\<rparr>\<rparr>\<rparr>))"
    and "loop_inv l pend'" and "subseq pend' pend" and "loop_frame (transport_fde t) (evl (rds st)) l" and "\<not> active (fde_state (fdes l (transport_fde t)))"
    and "closed l = closed (evl (rds st)) @ [fde_fd (fdes (evl (rds st)) (transport_fde t))]" and "avail fd w = rest"
proof -
  obtain l pend' where l: "fdevent_remove (transport_fde t) (evl (rds st)) = Inr l" "loop_inv l pend'" "subseq pend' pend"
    "loop_frame (transport_fde t) (evl (rds st)) l" "\<not> active (fde_state (fdes l (transport_fde t)))"
    "closed l = closed (evl (rds st)) @ [fde_fd (fdes (evl (rds st)) (transport_fde t))]" by (rule fdevent_remove_promise [OF inv t(5)])
  obtain w where w: "transport_registration_func fd FDE_READ st = unregister_transport t (st\<lparr>dm := (dm st)\<lparr>ds := (rds st)\<lparr>wld := w\<rparr>\<rparr>\<rparr>)" "avail fd w = rest"
    by (rule registration_message [OF msg(1) _ msg(2)]) (use t(2) in auto)
  with that [OF _ l(2-6)] unregister_idle [of t "st\<lparr>dm := (dm st)\<lparr>ds := (rds st)\<lparr>wld := w\<rparr>\<rparr>\<rparr>" y l] t l(1) show ?thesis by simp
qed

text \<open>The state after a new transport \<open>y\<close> was allocated and its message written.\<close>

definition posted :: "atransport \<Rightarrow> world \<Rightarrow> rstate \<Rightarrow> rstate" where
  "posted y w st = st\<lparr>dm := (dm st)\<lparr>ds := (rds st)\<lparr>fresh := fresh (rds st) + 3, trans := (trans (rds st))(fresh (rds st) \<mapsto> y), wld := w\<rparr>\<rparr>\<rparr>"

definition serial_name :: "string option \<Rightarrow> addr \<Rightarrow> string" where
  "serial_name name t = (case name of None \<Rightarrow> take 31 (''T-'' @ ptr_text t) | Some n \<Rightarrow> n)"

lemma register_socket_posts:
  assumes "fresh (rds st) \<noteq> 0" and "12 + length pad \<le> wr_count (w_wr (wld (rds st)) (reg_send st))"
  obtains w where "register_socket_transport pad s name st =
      Inr (posted ((init_socket_transport s zero_transport)\<lparr>serial := Some (serial_name name (fresh (rds st)))\<rparr>) w st)"
    and "w_out w (reg_send st) = w_out (wld (rds st)) (reg_send st) @ tmsg_bytes \<lparr>m_transport = fresh (rds st), m_action = 1\<rparr> pad"
    and "w_kern w = w_kern (wld (rds st))"
proof -
  let ?m = "tmsg_bytes \<lparr>m_transport = fresh (rds st), m_action = 1\<rparr> pad"
  obtain w where w: "writex (reg_send st) ?m (wld (rds st)) = Inr (True, w)"
    using writex.wx_complete [of ?m "wld (rds st)" "reg_send st"] assms(2) by auto
  have "register_socket_transport pad s name st =
      Inr (posted ((init_socket_transport s zero_transport)\<lparr>serial := Some (serial_name name (fresh (rds st)))\<rparr>) w st)"
    using assms(1) w by (simp add: register_socket_transport_def new_transport_def Let_def view_defs register_transport_def post_action_def
        transport_write_action_def posted_def serial_name_def)
  with that writex.wx_ok [OF w] writex_wr_only [OF w] show ?thesis by (simp add: wr_only_def)
qed

text \<open>The new transport of a connection, and what the event loop makes of its message.\<close>

abbreviation new_socket_transport :: "int \<Rightarrow> string option \<Rightarrow> addr \<Rightarrow> atransport" where
  "new_socket_transport s name t \<equiv> (init_socket_transport s zero_transport)\<lparr>serial := Some (serial_name name t)\<rparr>"

lemma posted_enlisted:
  assumes inv: "loop_inv (evl (rds st)) pend" and room: "room_ok (rds st)" and t: "fresh (rds st) < 2 ^ 64" and pad: "length pad = 4"
    and a: "new_fd a (rds st)" and k: "kernel_starts a b (wld (rds st))"
    and w: "avail (reg_recv st) w = tmsg_bytes \<lparr>m_transport = fresh (rds st), m_action = 1\<rparr> pad" "w_kern w = w_kern (wld (rds st))"
  obtains l w' where "transport_registration_func (reg_recv st) FDE_READ (posted (new_socket_transport s name (fresh (rds st))) w st) =
    Inr (enlisted (fresh (rds st)) (started a b (new_socket_transport s name (fresh (rds st)))) l w' (posted (new_socket_transport s name (fresh (rds st))) w st))"
proof -
  let ?t = "fresh (rds st)" and ?y = "new_socket_transport s name (fresh (rds st))"
  let ?p = "posted ?y w st"
  have t0: "?t \<noteq> 0" "\<not> active (fde_state (fdes (evl (rds st)) (transport_fde ?t)))" using room by (auto simp: room_ok_def transport_fde_def)
  have p: "evl (rds ?p) = evl (rds st)" "wld (rds ?p) = w" "trans (rds ?p) = (trans (rds st))(?t \<mapsto> ?y)" by (simp_all add: posted_def)
  have c: "connection_state ?y \<noteq> CS_NOPERM" by (simp add: init_socket_transport_def cs_consts)
  have n: "new_fd a (rds ?p)" using a p(1) by (simp add: new_fd_def)
  have k': "kernel_starts a b (wld (rds ?p))" using k p(2) w(2) by (simp add: kernel_starts_def)
  show ?thesis
    by (rule register_message [OF _ t0(1) t _ c _ n k', of pend "reg_recv st" pad "[]"]) (use that p inv t0(2) w(1) pad in auto)
qed

section \<open>Properties\<close>


text \<open>A daemon without sockets, with one transport that waits for its registration, and the two messages in pieces.\<close>

definition sample_reg :: "bytes list \<Rightarrow> rstate" where
  "sample_reg chunks = \<lparr>dm = sample_auth\<lparr>ds := sample_daemon\<lparr>trans := (trans sample_daemon)(150 \<mapsto> zero_transport),
       wld := idle_world\<lparr>w_rd := (\<lambda>_. map RdData chunks), w_wr := (\<lambda>_. replicate 16 (WrAcc 4)),
         w_kern := (\<lambda>_ c. if c = SysSocketpair then SPair 3 8 else SRet 0)\<rparr>\<rparr>\<rparr>,
     r_lsts = (\<lambda>_. None), r_llist = [], pheap = (\<lambda>_. None), reg_send = 4, reg_recv = 5, servers = [], running = []\<rparr>"

lemma sample_reg_facts:
  "loop_inv (evl (rds (sample_reg c))) []" "room_ok (rds (sample_reg c))" "new_fd 3 (rds (sample_reg c))" "kernel_starts 3 8 (wld (rds (sample_reg c)))"
  "trans_list (rds (sample_reg c)) = [100]" "trans (rds (sample_reg c)) 150 = Some zero_transport" "fresh (rds (sample_reg c)) = 200"
  "\<not> active (fde_state (fdes (evl (rds (sample_reg c))) a))"
  using sample_daemon_inv(2,3) loop_inv_start
  by (simp_all add: sample_reg_def sample_daemon_def room_ok_def new_fd_def kernel_starts_def fdevent_start_def zero_fde_def)


text \<open>C11: a connection becomes a transport. \<open>register_socket_transport\<close>, called by the thread that accepted the connection, writes a
  message into the registration socket pair, and when the event loop reads those bytes at the other end, at any later
  time and in any pieces, the transport is at the end of \<open>transport_list\<close>: over that connection,
  offline, with the given serial number or one made of its address, referenced by its two threads, which run. All other transports
  are as before.\<close>

theorem connection_enlisted:
  assumes inv: "loop_inv (evl (rds st)) pend" and room: "room_ok (rds st)" and t: "fresh (rds st) < 2 ^ 64" and pad: "length pad = 4"
    and wr: "16 \<le> wr_count (w_wr (wld (rds st)) (reg_send st))" and a: "new_fd a (rds st)" and k: "kernel_starts a b (wld (rds st))"
  shows "\<exists>st1 msg. register_socket_transport pad s name st = Inr st1 \<and>
    w_out (wld (rds st1)) (reg_send st) = w_out (wld (rds st)) (reg_send st) @ msg \<and>
    (\<forall>w. avail (reg_recv st) w = msg \<longrightarrow> w_kern w = w_kern (wld (rds st)) \<longrightarrow>
      (\<exists>st2 x. transport_registration_func (reg_recv st) FDE_READ (st1\<lparr>dm := (dm st1)\<lparr>ds := (rds st1)\<lparr>wld := w\<rparr>\<rparr>\<rparr>) = Inr st2 \<and>
        trans_list (rds st2) = trans_list (rds st) @ [fresh (rds st)] \<and> trans (rds st2) = (trans (rds st))(fresh (rds st) \<mapsto> x) \<and>
        t_ops x = SocketOps \<and> sfd x = s \<and> connection_state x = CS_OFFLINE \<and> \<not> online x \<and> ref_count x = 2 \<and>
        serial x = Some (case name of None \<Rightarrow> take 31 (''T-'' @ ptr_text (fresh (rds st))) | Some n \<Rightarrow> n) \<and>
        running st2 = running st @ [(fresh (rds st), False), (fresh (rds st), True)]))"
proof -
  let ?t = "fresh (rds st)" and ?y = "new_socket_transport s name (fresh (rds st))"
  have t0: "?t \<noteq> 0" using room by (auto simp: room_ok_def)
  obtain w1 where w1: "register_socket_transport pad s name st = Inr (posted ?y w1 st)"
    "w_out w1 (reg_send st) = w_out (wld (rds st)) (reg_send st) @ tmsg_bytes \<lparr>m_transport = ?t, m_action = 1\<rparr> pad" "w_kern w1 = w_kern (wld (rds st))"
    by (rule register_socket_posts [of st pad s name]) (use t0 wr pad in auto)
  have "\<exists>st2 x. transport_registration_func (reg_recv st) FDE_READ (posted ?y w st) = Inr st2 \<and> trans_list (rds st2) = trans_list (rds st) @ [?t] \<and>
      trans (rds st2) = (trans (rds st))(?t \<mapsto> x) \<and> t_ops x = SocketOps \<and> sfd x = s \<and> connection_state x = CS_OFFLINE \<and> \<not> online x \<and> ref_count x = 2 \<and>
      serial x = Some (serial_name name ?t) \<and> running st2 = running st @ [(?t, False), (?t, True)]"
    if w: "avail (reg_recv st) w = tmsg_bytes \<lparr>m_transport = ?t, m_action = 1\<rparr> pad" "w_kern w = w_kern (wld (rds st))" for w
  proof -
    let ?p = "posted ?y w st"
    have p: "trans (rds ?p) = (trans (rds st))(?t \<mapsto> ?y)" "trans_list (rds ?p) = trans_list (rds st)" "running ?p = running st" by (simp_all add: posted_def)
    obtain l w' where e: "transport_registration_func (reg_recv st) FDE_READ ?p = Inr (enlisted ?t (started a b ?y) l w' ?p)"
      by (rule posted_enlisted [OF inv room t pad a k w])
    let ?st2 = "enlisted ?t (started a b ?y) l w' ?p"
    have "trans_list (rds ?st2) = trans_list (rds st) @ [?t]" "trans (rds ?st2) = (trans (rds st))(?t \<mapsto> started a b ?y)"
      "running ?st2 = running st @ [(?t, False), (?t, True)]" using p by (simp_all add: enlisted_def)
    moreover have "t_ops (started a b ?y) = SocketOps" "sfd (started a b ?y) = s" "connection_state (started a b ?y) = CS_OFFLINE"
      "\<not> online (started a b ?y)" "ref_count (started a b ?y) = 2" "serial (started a b ?y) = Some (serial_name name ?t)"
      by (simp_all add: started_def init_socket_transport_def zero_transport_def)
    ultimately show ?thesis using e by blast
  qed
  then show ?thesis using w1(1,2)
    by (intro exI [of _ "posted ?y w1 st"] exI [of _ "tmsg_bytes \<lparr>m_transport = ?t, m_action = 1\<rparr> pad"]) (simp add: posted_def serial_name_def)
qed

theorem connection_enlisted_witness:
  "\<exists>st1 msg. register_socket_transport [0, 0, 0, 0] 6 (Some ''host'') (sample_reg []) = Inr st1 \<and> w_out (wld (rds st1)) 4 = msg \<and>
    (\<exists>st2. transport_registration_func 5 FDE_READ (st1\<lparr>dm := (dm st1)\<lparr>ds := (rds st1)\<lparr>wld := (wld (rds (sample_reg [])))\<lparr>w_rd := (\<lambda>_. map RdData [msg])\<rparr>\<rparr>\<rparr>\<rparr>) = Inr st2 \<and>
      trans_list (rds st2) = [100, 200])"
proof -
  let ?st = "sample_reg []"
  have r: "reg_send ?st = 4" "reg_recv ?st = 5" "w_out (wld (rds ?st)) 4 = []" "wr_count (w_wr (wld (rds ?st)) 4) = 16"
    by (simp_all add: sample_reg_def idle_world_def)
  note f = sample_reg_facts [of "[]"]
  have "\<exists>st1 msg. register_socket_transport [0, 0, 0, 0] 6 (Some ''host'') ?st = Inr st1 \<and> w_out (wld (rds st1)) (reg_send ?st) = w_out (wld (rds ?st)) (reg_send ?st) @ msg \<and>
    (\<forall>w. avail (reg_recv ?st) w = msg \<longrightarrow> w_kern w = w_kern (wld (rds ?st)) \<longrightarrow>
      (\<exists>st2. transport_registration_func (reg_recv ?st) FDE_READ (st1\<lparr>dm := (dm st1)\<lparr>ds := (rds st1)\<lparr>wld := w\<rparr>\<rparr>\<rparr>) = Inr st2 \<and>
        trans_list (rds st2) = trans_list (rds ?st) @ [fresh (rds ?st)]))"
    by (rule connection_enlisted [OF f(1) f(2) _ _ _ f(3) f(4), of "[0, 0, 0, 0]" 6 "Some ''host''", THEN weaken]) (simp_all add: f(7) r, blast)
  then obtain st1 msg where st1: "register_socket_transport [0, 0, 0, 0] 6 (Some ''host'') ?st = Inr st1" "w_out (wld (rds st1)) 4 = msg"
    "\<forall>w. avail 5 w = msg \<longrightarrow> w_kern w = w_kern (wld (rds ?st)) \<longrightarrow>
      (\<exists>st2. transport_registration_func 5 FDE_READ (st1\<lparr>dm := (dm st1)\<lparr>ds := (rds st1)\<lparr>wld := w\<rparr>\<rparr>\<rparr>) = Inr st2 \<and> trans_list (rds st2) = [100, 200])"
    unfolding r f(5,7) by auto
  have "avail 5 ((wld (rds ?st))\<lparr>w_rd := (\<lambda>_. map RdData [msg])\<rparr>) = msg" by (simp add: avail_def)
  with st1 show ?thesis by (intro exI [of _ st1] exI [of _ msg]) auto
qed

end
