(* ===== verification/Usage.thy ===== *)
theory Usage
  imports Strings
begin

text \<open>
  What \<open>adbd --help\<close> prints: the text of \<open>usage\<close> in \<open>main.c\<close>, a line at a time as \<open>puts\<close> writes it, and a reader for its
  table of options. Theory Startup compares the table with the options \<open>main\<close> takes.
\<close>

definition usage_text :: "string list" where
  "usage_text = [
    ''Android Debug Bridge Daemon for Embedded Linux'',
    '''',
    ''Usage: '',
    ''  adbd [--recovery] [--auth] [--logdir LOGDIR] [--log LOGFILE] [--shell SHELL] '',
    ''       [--banner BANNER] [--devname DEVICE_NAME] [--devmodel DEVICE_MODEL] '',
    ''       [--devproduct DEVICE_PRODUCT] [--external EXTERNAL_STORAGE] [--daemon] '',
    '''',
    ''Defaults: '',
    ''  LOGDIR     : \"/var/log/adb\"'',
    ''  LOGFILE    : \"LOGDIR/adb-%%Y-%%m-%%d-%%H-%%M-%%S.log\"'',
    ''  BANNER     : \"device\"'',
    ''  DEVNAME    : \"Linux\"'',
    ''  DEVMODEL   : \"Systemd\"'',
    ''  DEVPRODUCT : \"GNU\"'',
    ''  EXTERNAL   : env var 'ADB_EXTERNAL_STORAGE' or \"/media\"'',
    ''  SHELL      : env var 'SHELL' or \"/bin/sh\"'',
    '''',
    ''Values: '',
    ''  LOGDIR     : writable folder path (must exists).'',
    ''  LOGFILE    : writable file path (not exists) or '-' for stdout/stderr.'',
    ''  BANNER     : \"bootloader\", \"sideload\", \"recovery\", \"device\"'',
    ''  DEVNAME    : string (A-Z, a-z, 0-9, '-', '_')'',
    ''  DEVMODEL   : string (A-Z, a-z, 0-9, '-', '_')'',
    ''  DEVPRODUCT : string (A-Z, a-z, 0-9, '-', '_')'',
    ''  EXTERNAL   : folder path. (must exists)'',
    ''  SHELL      : executable file path. (must exists)'',
    ''  PROTOCOL   : force protocol. (usb or tcp)'',
    '''',
    ''Options: '',
    CHR 0x09 # '' --help                  , -h            : show this help.'',
    CHR 0x09 # '' --protocol PROTOCOL     , -P PROTOCOL   : set protocol.'',
    CHR 0x09 # '' --usb                   , -u            : set to USB protocol.'',
    CHR 0x09 # '' --tcp                   , -t            : set to TCP protocol.'',
    CHR 0x09 # '' --daemon                , -d            : run in daemon mode.'',
    CHR 0x09 # '' --auth                  , -a            : turn on adbd need auth.'',
    CHR 0x09 # '' --recovery              , -r            : set adbd to recovery mode.'',
    CHR 0x09 # '' --devname DEVNAME       , -n DEVNAME    : device name. (ro.product.name)'',
    CHR 0x09 # '' --devmodel DEVMODEL     , -m DEVMODEL   : device model. (ro.product.model)'',
    CHR 0x09 # '' --devproduct DEVPRODUCT , -p DEVPRODUCT : device product. (ro.product.product)'',
    CHR 0x09 # '' --logdir LOGDIR         , -l LOGDIR     : logs save folder.'',
    CHR 0x09 # '' --log LOGFILE           , -o LOGFILE    : log save path. (ignore LOGDIR)'',
    CHR 0x09 # '' --banner BANNER         , -b BANNER     : device banner show in 'adb devices'.'',
    CHR 0x09 # '' --shell SHELL           , -s SHELL      : system shell. (adb shell)'',
    CHR 0x09 # '' --external EXTERNAL     , -e EXTERNAL   : external storage.'',
    '''',
    ''Support Protocols: usb, tcp'']"

text \<open>\<open>usage\<close>: what it returns and what it prints.\<close>

definition usage :: "int \<times> string list" where
  "usage = (2, usage_text)"

lemma fst_usage [simp]: "fst usage = 2"
  by (simp add: usage_def)

section \<open>The table of options\<close>

text \<open>A line of the table: the long name, whether the name of an argument follows it, the comma, and the letter after its dash.\<close>

definition table_row :: "string \<Rightarrow> (string \<times> bool \<times> char) option" where
  "table_row l = (case tokens (CHR '' '') l of
       t # name # x # y # r \<Rightarrow>
         if t = [CHR 0x09] \<and> starts_with ''--'' name
         then if x = '','' then Some (drop 2 name, False, y ! 1)
              else case r of z # r1 \<Rightarrow> Some (drop 2 name, True, z ! 1) | [] \<Rightarrow> None
         else None
     | _ \<Rightarrow> None)"

definition usage_options :: "(string \<times> bool \<times> char) list" where
  "usage_options = List.map_filter table_row (snd usage)"

end
