(* ===== verification/Startup.thy ===== *)
theory Startup
  imports Registration Keys Jdwp Usage
begin

text \<open>
  From the command line to the event loop: the options (\<open>main\<close> of \<open>main.c\<close>), the log file and \<open>adb_main\<close> of \<open>adb.c\<close>, which
  brings up the parts modelled by the other theories, in order. \<open>getopt_long\<close> is the one of the GNU library: it passes over
  arguments that are not options, accepts unique abbreviations of long names, and takes the argument of an option from its own
  text or from the next word. What \<open>umask\<close>, \<open>atexit\<close>, \<open>signal\<close> and the messages do is not part of the state.
\<close>

section \<open>Options\<close>

record globals =
  recovery_mode :: bool
  need_auth :: bool \<comment> \<open>\<open>auth_enabled\<close>\<close>
  run_daemon :: bool
  log_dir :: string
  log_file :: "string option"
  adb_device_banner :: string
  ro_values :: "string list" \<comment> \<open>\<open>values\<close>\<close>
  shell :: string
  adb_external_storage :: string
  proto :: int

datatype opt = Opt char "string option" | BadOpt \<comment> \<open>\<open>'?'\<close>\<close>

definition short_options :: "(char \<times> bool) list" where
  "short_options = [(CHR ''u'', False), (CHR ''t'', False), (CHR ''r'', False), (CHR ''d'', False), (CHR ''a'', False), (CHR ''h'', False),
     (CHR ''l'', True), (CHR ''o'', True), (CHR ''b'', True), (CHR ''n'', True), (CHR ''m'', True), (CHR ''p'', True),
     (CHR ''s'', True), (CHR ''e'', True), (CHR ''P'', True)]"

definition long_options :: "(string \<times> bool \<times> char) list" where
  "long_options = [(''recovery'', False, CHR ''r''), (''daemon'', False, CHR ''d''), (''auth'', False, CHR ''a''), (''help'', False, CHR ''h''),
     (''tcp'', False, CHR ''t''), (''usb'', False, CHR ''u''), (''protocol'', True, CHR ''P''), (''logdir'', True, CHR ''l''), (''log'', True, CHR ''o''),
     (''banner'', True, CHR ''b''), (''devname'', True, CHR ''n''), (''devmodel'', True, CHR ''m''), (''devproduct'', True, CHR ''p''),
     (''shell'', True, CHR ''s''), (''external'', True, CHR ''e'')]"

text \<open>The option a long name means: the one of that name, or the only one that starts with it.\<close>

definition find_long :: "string \<Rightarrow> (bool \<times> char) option" where
  "find_long name = (case map_of long_options name of
       Some r \<Rightarrow> Some r
     | None \<Rightarrow> (case filter (\<lambda>(n, r). starts_with name n) long_options of [(n, r)] \<Rightarrow> Some r | _ \<Rightarrow> None))"

text \<open>The argument of an option that needs one and has none of its own: the next word.\<close>

definition next_word :: "char \<Rightarrow> string list \<Rightarrow> opt \<times> string list" where
  "next_word c args = (case args of [] \<Rightarrow> (BadOpt, []) | x # xs \<Rightarrow> (Opt c (Some x), xs))"

definition long_opt :: "string \<Rightarrow> string list \<Rightarrow> opt \<times> string list" where
  "long_opt a args = (case find_long (before_chr a (CHR ''='')) of
       None \<Rightarrow> (BadOpt, args)
     | Some (needed, c) \<Rightarrow> (case strchr a (CHR ''='') of
           Some v \<Rightarrow> (if needed then Opt c (Some (drop 1 v)) else BadOpt, args)
         | None \<Rightarrow> if needed then next_word c args else (Opt c None, args)))"

text \<open>One short option; \<open>rest\<close> is what follows it in its word.\<close>

definition short_opt :: "char \<Rightarrow> string \<Rightarrow> string list \<Rightarrow> opt \<times> string \<times> string list" where
  "short_opt c rest args = (case map_of short_options c of
       None \<Rightarrow> (BadOpt, rest, args)
     | Some False \<Rightarrow> (Opt c None, rest, args)
     | Some True \<Rightarrow> if rest \<noteq> [] then (Opt c (Some rest), [], args) else let (r, args1) = next_word c args in (r, [], args1))"

definition is_option :: "string \<Rightarrow> bool" where
  "is_option a \<longleftrightarrow> starts_with ''-'' a \<and> a \<noteq> ''-''"

text \<open>\<open>getopt_long\<close>: \<open>word\<close> is what is left of the word of short options it is in. \<open>None\<close> is the end, -1.\<close>

definition getopt_long :: "string \<Rightarrow> string list \<Rightarrow> (opt \<times> string \<times> string list) option" where
  "getopt_long word args = (case word of
       c # rest \<Rightarrow> Some (short_opt c rest args)
     | [] \<Rightarrow> (case dropWhile (\<lambda>a. \<not> is_option a) args of
           [] \<Rightarrow> None
         | a # as \<Rightarrow>
             if a = ''--'' then None
             else if starts_with ''--'' a then (let (r, as1) = long_opt (drop 2 a) as in Some (r, [], as1))
             else Some (short_opt (a ! 1) (drop 2 a) as)))"

definition lower :: "char \<Rightarrow> char" where
  "lower c = (let n = of_char c :: nat in if 65 \<le> n \<and> n \<le> 90 then char_of (n + 32) else c)"

definition strcaseeq :: "string \<Rightarrow> string \<Rightarrow> bool" where
  "strcaseeq a b \<longleftrightarrow> map lower a = map lower b"

text \<open>The body of the loop of \<open>main\<close>. \<open>Inl\<close> is a return with that value.\<close>

definition take_option :: "opt \<Rightarrow> globals \<Rightarrow> int + globals" where
  "take_option r g = (case r of
       BadOpt \<Rightarrow> Inl 2
     | Opt c None \<Rightarrow>
         if c = CHR ''r'' then Inr (g\<lparr>recovery_mode := True\<rparr>)
         else if c = CHR ''d'' then Inr (g\<lparr>run_daemon := True\<rparr>)
         else if c = CHR ''a'' then Inr (g\<lparr>need_auth := True\<rparr>)
         else if c = CHR ''u'' then Inr (g\<lparr>proto := 1\<rparr>)
         else if c = CHR ''t'' then Inr (g\<lparr>proto := 2\<rparr>)
         else if c = CHR ''h'' then Inl (fst usage)
         else Inl 2
     | Opt c (Some v) \<Rightarrow>
         if c = CHR ''l'' then Inr (g\<lparr>log_dir := v\<rparr>)
         else if c = CHR ''o'' then Inr (g\<lparr>log_file := Some v\<rparr>)
         else if c = CHR ''b'' then Inr (g\<lparr>adb_device_banner := v\<rparr>)
         else if c = CHR ''n'' then Inr (g\<lparr>ro_values := (ro_values g)[0 := v]\<rparr>)
         else if c = CHR ''m'' then Inr (g\<lparr>ro_values := (ro_values g)[1 := v]\<rparr>)
         else if c = CHR ''p'' then Inr (g\<lparr>ro_values := (ro_values g)[2 := v]\<rparr>)
         else if c = CHR ''s'' then Inr (g\<lparr>shell := v\<rparr>)
         else if c = CHR ''e'' then Inr (g\<lparr>adb_external_storage := v\<rparr>)
         else if c = CHR ''P'' then
           (if strcaseeq v ''tcp'' then Inr (g\<lparr>proto := 2\<rparr>) else if strcaseeq v ''usb'' then Inr (g\<lparr>proto := 1\<rparr>) else Inl 2)
         else Inl 2)"

text \<open>The table of options in the usage text is that of the program: the same names, letters and arguments, each in one line.\<close>

lemma usage_exact:
  "distinct usage_options" "set usage_options = set long_options" "set (map (\<lambda>(n, a, c). (c, a)) usage_options) = set short_options"
  by code_simp+

definition words_size :: "string \<Rightarrow> string list \<Rightarrow> nat" where
  "words_size word args = length word + sum_list (map (\<lambda>a. Suc (length a)) args)"

lemma sum_dropWhile: "sum_list (map f (dropWhile P xs)) \<le> (sum_list (map f xs) :: nat)"
  by (induction xs) auto

lemma next_word_size: "next_word c args = (r, args') \<Longrightarrow> words_size w args' \<le> words_size w args"
  by (auto simp: next_word_def words_size_def split: list.splits)

lemma short_opt_size:
  "short_opt c rest args = (r, word', args') \<Longrightarrow> words_size word' args' \<le> words_size rest args"
  by (auto simp: short_opt_def words_size_def Let_def next_word_def split: option.splits bool.splits if_splits list.splits)

lemma long_opt_size: "long_opt a args = (r, args') \<Longrightarrow> words_size w args' \<le> words_size w args"
  by (auto simp: long_opt_def dest: next_word_size split: option.splits if_splits)

lemma getopt_long_size: "getopt_long word args = Some (r, word', args') \<Longrightarrow> words_size word' args' < words_size word args"
proof (cases word)
  case (Cons c rest)
  assume "getopt_long word args = Some (r, word', args')"
  with Cons short_opt_size [of c rest args r word' args'] show ?thesis by (simp add: getopt_long_def words_size_def)
next
  case Nil
  assume g: "getopt_long word args = Some (r, word', args')"
  with Nil obtain a as where as: "dropWhile (\<lambda>a. \<not> is_option a) args = a # as" by (auto simp: getopt_long_def split: list.splits)
  have le: "Suc (length a) + words_size [] as \<le> words_size [] args"
    using sum_dropWhile [of "\<lambda>a. Suc (length a)" "\<lambda>a. \<not> is_option a" args] as by (simp add: words_size_def)
  have "words_size word' args' \<le> length a + words_size [] as"
    using g Nil as short_opt_size [of "a ! 1" "drop 2 a" as r word' args'] long_opt_size [of "drop 2 a" as r args' "[]"]
    by (auto simp: getopt_long_def words_size_def split: if_splits prod.splits)
  with le Nil show ?thesis by simp
qed

function parse_options :: "string \<Rightarrow> string list \<Rightarrow> globals \<Rightarrow> int + globals" where
  "parse_options word args g = (case getopt_long word args of
       None \<Rightarrow> Inr g
     | Some (r, word', args') \<Rightarrow> (case take_option r g of Inl n \<Rightarrow> Inl n | Inr g' \<Rightarrow> parse_options word' args' g'))"
  by pat_completeness auto
termination
  by (relation "measure (\<lambda>(word, args, g). words_size word args)") (auto dest: getopt_long_size)

declare parse_options.simps [simp del]

text \<open>The globals as they start, with the two that come from the environment.\<close>

definition first_globals :: "(string \<Rightarrow> string option) \<Rightarrow> globals" where
  "first_globals env = \<lparr>recovery_mode = False, need_auth = False, run_daemon = False, log_dir = ''/var/log/adbd'', log_file = None,
     adb_device_banner = ''device'', ro_values = [''Linux'', ''Systemd'', ''GNU''],
     shell = (case env ''SHELL'' of None \<Rightarrow> ''/bin/sh'' | Some s \<Rightarrow> s),
     adb_external_storage = (case env ''ADB_EXTERNAL_STORAGE'' of None \<Rightarrow> ''/media'' | Some s \<Rightarrow> s), proto = 0\<rparr>"

section \<open>The log file\<close>

definition O_LOG :: nat where "O_LOG = 577" \<comment> \<open>\<open>O_WRONLY|O_CREAT|O_TRUNC\<close>\<close>

text \<open>The standard streams go to the log and to \<open>/dev/null\<close>; failing calls of \<open>dup2\<close> are not noticed.\<close>

definition redirect :: "int \<Rightarrow> world \<Rightarrow> world" where
  "redirect fd w =
    (let w1 = do_call (SysClose fd) (do_call (SysDup2 fd 2) (do_call (SysDup2 fd 1) w));
         (nul, w2) = call (SysOpen ''/dev/null'' 0 0) w1
     in do_call (SysClose nul) (do_call (SysDup2 nul 0) w2))"

text \<open>\<open>now\<close> is the time as \<open>strftime\<close> writes it.\<close>

definition start_device_log :: "string \<Rightarrow> globals \<Rightarrow> world \<Rightarrow> int \<times> globals \<times> world" where
  "start_device_log now g w =
    (if log_file g = Some ''-'' then (0, g, w)
     else
       let (g1, w1) = (case log_file g of
             None \<Rightarrow> (g\<lparr>log_file := Some (take 4095 (log_dir g @ ''/adb-'' @ now @ ''.log''))\<rparr>, do_call (SysMkdir (log_dir g) 509) w)
           | Some _ \<Rightarrow> (g, w));
           (fd, w2) = call (SysOpen (the (log_file g1)) O_LOG 416) w1
       in if fd < 0 then (-1, g1, w2) else (0, g1, redirect fd w2))"

section \<open>Bringing up the daemon\<close>

text \<open>All parts together; \<open>jdw\<close> holds the lists of the JDWP service, its copy of the shared state is not used. The
  environment is that of the process.\<close>

record boot =
  rst :: rstate
  glob :: globals
  keys :: keystore
  jdw :: jstate
  usb :: "usb_handle option"
  env :: "string \<Rightarrow> string option"

text \<open>How \<open>main\<close> ends: it returns, or it is in \<open>fdevent_loop\<close>.\<close>

datatype ending = Returned int | Looping

definition on_rst :: "(rstate \<Rightarrow> rstate outcome) \<Rightarrow> boot \<Rightarrow> boot outcome" where
  "on_rst f b = andthen (f (rst b)) (\<lambda>r. Inr (b\<lparr>rst := r\<rparr>))"

definition on_bw :: "(world \<Rightarrow> ('r \<times> world) outcome) \<Rightarrow> boot \<Rightarrow> ('r \<times> boot) outcome" where
  "on_bw f b = andthen (on_rw f (rst b)) (\<lambda>(x, r). Inr (x, b\<lparr>rst := r\<rparr>))"

definition DEFAULT_ADB_PORT :: int where "DEFAULT_ADB_PORT = 5038"
definition DEFAULT_ADB_LOCAL_TRANSPORT_PORT :: int where "DEFAULT_ADB_LOCAL_TRANSPORT_PORT = 5555"
definition USB_ADB_PATH :: string where "USB_ADB_PATH = ''/dev/adb/usb''"

definition build_local_name :: "nat \<Rightarrow> int \<Rightarrow> string" where
  "build_local_name n port = take (n - 1) (''tcp:'' @ dec_int port)"

text \<open>The steps of \<open>adb_main\<close>. \<open>lfde\<close> and \<open>rfde\<close> are the addresses of \<open>listener_fde\<close> and \<open>transport_registration_fde\<close>.\<close>

definition init_auth :: "(string \<Rightarrow> string option) \<Rightarrow> addr \<Rightarrow> boot \<Rightarrow> boot outcome" where
  "init_auth files lfde b =
    (if auth_enabled (dm (rst b)) then
       andthen (adb_auth_init files (env b) lfde (keys b, dm (rst b))) (\<lambda>(k, d). Inr (b\<lparr>keys := k, rst := (rst b)\<lparr>dm := d\<rparr>\<rparr>))
     else Inr b)"

definition install_smartsocket :: "int \<Rightarrow> boot \<Rightarrow> boot outcome" where
  "install_smartsocket port b =
    andthen (install_listener (build_local_name 30 port) ''*smartsocket*'' 0 False
        \<lparr>ld = ds (dm (rst b)), lsts = r_lsts (rst b), llist = r_llist (rst b), gListenAll = 0\<rparr>) (\<lambda>(r, l).
      if r \<noteq> 0 then Inl (Exit 1)
      else Inr (b\<lparr>rst := (rst b)\<lparr>dm := (dm (rst b))\<lparr>ds := ld l\<rparr>, r_lsts := lsts l, r_llist := llist l\<rparr>\<rparr>))"

text \<open>Whether USB is used: the second path is only asked about when the first is not there.\<close>

definition usb_wanted :: "int \<Rightarrow> boot \<Rightarrow> (bool \<times> boot) outcome" where
  "usb_wanted force_usb b =
    (if force_usb = 2 then Inr (False, b)
     else andthen (on_bw (\<lambda>w. Inr (call (SysAccess USB_ADB_PATH 0) w)) b) (\<lambda>(r, b1).
       if r = 0 then Inr (True, b1)
       else andthen (on_bw (\<lambda>w. Inr (call (SysAccess USB_FFS_ADB_EP0 0) w)) b1) (\<lambda>(r2, b2). Inr (r2 = 0, b2))))"

definition start_usb :: "boot \<Rightarrow> boot outcome" where
  "start_usb b = andthen (on_bw usb_init b) (\<lambda>(h, b1). Inr (b1\<lparr>usb := Some h\<rparr>))"

definition start_jdwp :: "boot \<Rightarrow> boot outcome" where
  "start_jdwp b = andthen (init_jdwp ((jdw b)\<lparr>jd := ds (dm (rst b))\<rparr>)) (\<lambda>(_, j).
     Inr (b\<lparr>jdw := j, rst := (rst b)\<lparr>dm := (dm (rst b))\<lparr>ds := jd j\<rparr>\<rparr>\<rparr>))"

definition adb_main :: "(string \<Rightarrow> string option) \<Rightarrow> addr \<Rightarrow> addr \<Rightarrow> int \<Rightarrow> int \<Rightarrow> boot \<Rightarrow> (ending \<times> boot) outcome" where
  "adb_main files lfde rfde force_usb server_port b =
    andthen (on_rst (init_transport_registration rfde) b) (\<lambda>b1.
    andthen (init_auth files lfde b1) (\<lambda>b2.
    andthen (install_smartsocket server_port (b2\<lparr>env := (env b2)(''EXTERNAL_STORAGE'' \<mapsto> adb_external_storage (glob b2))\<rparr>)) (\<lambda>b3.
    andthen (usb_wanted force_usb b3) (\<lambda>(use_usb, b4).
    andthen (if use_usb then start_usb b4 else Inr b4) (\<lambda>b5.
      if force_usb = 1 \<and> \<not> use_usb then Inr (Returned 1, b5)
      else andthen (if \<not> use_usb then on_rst (local_init DEFAULT_ADB_LOCAL_TRANSPORT_PORT) b5 else Inr b5) (\<lambda>b6.
        andthen (start_jdwp b6) (\<lambda>b7. Inr (Looping, b7))))))))"

text \<open>The globals that other parts read.\<close>

definition put_globals :: "globals \<Rightarrow> boot \<Rightarrow> boot" where
  "put_globals g b = b\<lparr>glob := g, rst := (rst b)\<lparr>dm := (dm (rst b))\<lparr>auth_enabled := need_auth g, banner := adb_device_banner g, banner_values := ro_values g\<rparr>\<rparr>\<rparr>"

text \<open>The background process: the value \<open>main\<close> returns, if it does, and whether it is the child.\<close>

definition daemonize :: "boot \<Rightarrow> (int option \<times> boot) outcome" where
  "daemonize b =
    (if \<not> run_daemon (glob b) then Inr (None, b)
     else andthen (on_bw (\<lambda>w. Inr (call SysFork w)) b) (\<lambda>(p, b1).
       if p > 0 then Inr (Some 0, b1)
       else if p = 0 then andthen (on_bw (\<lambda>w. Inr (call SysSetsid w)) b1) (\<lambda>(_, b2). Inr (None, b2))
       else Inr (Some 1, b1)))"

definition main :: "(string \<Rightarrow> string option) \<Rightarrow> addr \<Rightarrow> addr \<Rightarrow> string \<Rightarrow> string list \<Rightarrow> boot \<Rightarrow> (ending \<times> boot) outcome" where
  "main files lfde rfde now argv b =
    (case parse_options [] (drop 1 argv) (first_globals (env b)) of
       Inl n \<Rightarrow> Inr (Returned n, b)
     | Inr g \<Rightarrow>
         andthen (on_bw (\<lambda>w. Inr (call (SysAccess (shell g) 1) w)) (put_globals g b)) (\<lambda>(r, b1).
         if r \<noteq> 0 then Inr (Returned 1, b1)
         else andthen (daemonize b1) (\<lambda>(ret, b2). case ret of
           Some n \<Rightarrow> Inr (Returned n, b2)
         | None \<Rightarrow>
             andthen (on_bw (\<lambda>w. let (_, g1, w1) = start_device_log now (glob b2) w in Inr (g1, w1)) b2) (\<lambda>(g1, b3).
               adb_main files lfde rfde (proto g) DEFAULT_ADB_PORT (b3\<lparr>glob := g1\<rparr>)))))"

section \<open>Lemmas on options\<close>

lemma parse_flag:
  assumes "find_long n = Some (False, c)" and "CHR ''='' \<notin> set n" and "n \<noteq> []" and "take_option (Opt c None) g = Inr g'"
  shows "parse_options [] ((''--'' @ n) # args) g = parse_options [] args g'"
proof -
  have "before_chr n (CHR ''='') = n" "strchr n (CHR ''='') = None" using assms(2) by (auto simp: before_chr_def strchr_None_iff takeWhile_eq_all_conv)
  with assms show ?thesis
    by (subst parse_options.simps) (simp add: getopt_long_def is_option_def starts_with_def long_opt_def)
qed

lemma parse_argument:
  assumes "find_long n = Some (True, c)" and "CHR ''='' \<notin> set n" and "n \<noteq> []" and "take_option (Opt c (Some v)) g = Inr g'"
  shows "parse_options [] ((''--'' @ n) # v # args) g = parse_options [] args g'"
proof -
  have "before_chr n (CHR ''='') = n" "strchr n (CHR ''='') = None" using assms(2) by (auto simp: before_chr_def strchr_None_iff takeWhile_eq_all_conv)
  with assms show ?thesis
    by (subst parse_options.simps) (simp add: getopt_long_def is_option_def starts_with_def long_opt_def next_word_def)
qed

lemma parse_end: "parse_options [] [] g = Inr g"
  by (subst parse_options.simps) (simp add: getopt_long_def)

text \<open>A command line for given settings.\<close>

definition flag_words :: "bool \<Rightarrow> string \<Rightarrow> string list" where
  "flag_words b n = (if b then [''--'' @ n] else [])"

definition command_line :: "globals \<Rightarrow> string list" where
  "command_line g = flag_words (recovery_mode g) ''recovery'' @ flag_words (run_daemon g) ''daemon'' @ flag_words (need_auth g) ''auth'' @
     flag_words (proto g = 1) ''usb'' @ flag_words (proto g = 2) ''tcp'' @
     (case log_file g of None \<Rightarrow> [] | Some f \<Rightarrow> [''--log'', f]) @
     [''--logdir'', log_dir g, ''--banner'', adb_device_banner g, ''--devname'', ro_values g ! 0, ''--devmodel'', ro_values g ! 1,
      ''--devproduct'', ro_values g ! 2, ''--shell'', shell g, ''--external'', adb_external_storage g]"

lemma find_long_names:
  "find_long ''recovery'' = Some (False, CHR ''r'')" "find_long ''daemon'' = Some (False, CHR ''d'')" "find_long ''auth'' = Some (False, CHR ''a'')"
  "find_long ''usb'' = Some (False, CHR ''u'')" "find_long ''tcp'' = Some (False, CHR ''t'')" "find_long ''log'' = Some (True, CHR ''o'')"
  "find_long ''logdir'' = Some (True, CHR ''l'')" "find_long ''banner'' = Some (True, CHR ''b'')" "find_long ''devname'' = Some (True, CHR ''n'')"
  "find_long ''devmodel'' = Some (True, CHR ''m'')" "find_long ''devproduct'' = Some (True, CHR ''p'')" "find_long ''shell'' = Some (True, CHR ''s'')"
  "find_long ''external'' = Some (True, CHR ''e'')"
  by (simp_all add: find_long_def long_options_def)

lemma take_flags:
  "take_option (Opt (CHR ''r'') None) g = Inr (g\<lparr>recovery_mode := True\<rparr>)" "take_option (Opt (CHR ''d'') None) g = Inr (g\<lparr>run_daemon := True\<rparr>)"
  "take_option (Opt (CHR ''a'') None) g = Inr (g\<lparr>need_auth := True\<rparr>)" "take_option (Opt (CHR ''u'') None) g = Inr (g\<lparr>proto := 1\<rparr>)"
  "take_option (Opt (CHR ''t'') None) g = Inr (g\<lparr>proto := 2\<rparr>)"
  by (simp_all add: take_option_def)

lemma take_values:
  "take_option (Opt (CHR ''o'') (Some v)) g = Inr (g\<lparr>log_file := Some v\<rparr>)" "take_option (Opt (CHR ''l'') (Some v)) g = Inr (g\<lparr>log_dir := v\<rparr>)"
  "take_option (Opt (CHR ''b'') (Some v)) g = Inr (g\<lparr>adb_device_banner := v\<rparr>)" "take_option (Opt (CHR ''n'') (Some v)) g = Inr (g\<lparr>ro_values := (ro_values g)[0 := v]\<rparr>)"
  "take_option (Opt (CHR ''m'') (Some v)) g = Inr (g\<lparr>ro_values := (ro_values g)[1 := v]\<rparr>)" "take_option (Opt (CHR ''p'') (Some v)) g = Inr (g\<lparr>ro_values := (ro_values g)[2 := v]\<rparr>)"
  "take_option (Opt (CHR ''s'') (Some v)) g = Inr (g\<lparr>shell := v\<rparr>)" "take_option (Opt (CHR ''e'') (Some v)) g = Inr (g\<lparr>adb_external_storage := v\<rparr>)"
  by (simp_all add: take_option_def)

lemma parse_flag_words:
  assumes "find_long n = Some (False, c)" and "CHR ''='' \<notin> set n" and "n \<noteq> []" and "take_option (Opt c None) g = Inr g'"
  shows "parse_options [] (flag_words b n @ args) g = parse_options [] args (if b then g' else g)"
  using parse_flag [OF assms] by (simp add: flag_words_def)

text \<open>Each word of the command line, in the form the simplifier meets it.\<close>

lemmas parse_flags = parse_flag_words [OF find_long_names(1) _ _ take_flags(1), simplified] parse_flag_words [OF find_long_names(2) _ _ take_flags(2), simplified]
  parse_flag_words [OF find_long_names(3) _ _ take_flags(3), simplified] parse_flag_words [OF find_long_names(4) _ _ take_flags(4), simplified]
  parse_flag_words [OF find_long_names(5) _ _ take_flags(5), simplified]

lemmas parse_values = parse_argument [OF find_long_names(6) _ _ take_values(1), simplified] parse_argument [OF find_long_names(7) _ _ take_values(2), simplified]
  parse_argument [OF find_long_names(8) _ _ take_values(3), simplified] parse_argument [OF find_long_names(9) _ _ take_values(4), simplified]
  parse_argument [OF find_long_names(10) _ _ take_values(5), simplified] parse_argument [OF find_long_names(11) _ _ take_values(6), simplified]
  parse_argument [OF find_long_names(12) _ _ take_values(7), simplified] parse_argument [OF find_long_names(13) _ _ take_values(8), simplified]

text \<open>The command line says what it means. For any settings, the options written out for them are read back as exactly those
  settings, whatever the environment holds; the arguments of options may be any words, also ones that look like options.\<close>

lemma options_roundtrip:
  assumes "proto g \<in> {0, 1, 2}" and "length (ro_values g) = 3"
  shows "parse_options [] (command_line g) (first_globals e) = Inr g"
proof -
  obtain x y z where v: "ro_values g = [x, y, z]" using assms(2) by (auto simp: length_Suc_conv numeral_3_eq_3)
  define g1 where "g1 = (first_globals e)\<lparr>recovery_mode := recovery_mode g, run_daemon := run_daemon g, need_auth := need_auth g, proto := proto g\<rparr>"
  let ?args = "[''--logdir'', log_dir g, ''--banner'', adb_device_banner g, ''--devname'', x, ''--devmodel'', y,
      ''--devproduct'', z, ''--shell'', shell g, ''--external'', adb_external_storage g]"
  have "parse_options [] (command_line g) (first_globals e) = parse_options [] ((case log_file g of None \<Rightarrow> [] | Some f \<Rightarrow> [''--log'', f]) @ ?args) g1"
  proof -
    have c: "command_line g = flag_words (recovery_mode g) ''recovery'' @ flag_words (run_daemon g) ''daemon'' @ flag_words (need_auth g) ''auth'' @
     flag_words (proto g = 1) ''usb'' @ flag_words (proto g = 2) ''tcp'' @ (case log_file g of None \<Rightarrow> [] | Some f \<Rightarrow> [''--log'', f]) @ ?args"
      by (simp add: command_line_def v)
    have "(if proto g = 2 then (if proto g = 1 then h\<lparr>proto := 1\<rparr> else h)\<lparr>proto := 2\<rparr> else if proto g = 1 then h\<lparr>proto := 1\<rparr> else h) = h\<lparr>proto := proto g\<rparr>"
      if "proto h = 0" for h using assms(1) that by (cases h) auto
    note p = this
    show ?thesis unfolding c parse_flags
      by (subst p) (auto simp: g1_def first_globals_def)
  qed
  also have "\<dots> = parse_options [] ?args (g1\<lparr>log_file := log_file g\<rparr>)"
    by (cases "log_file g") (simp_all add: parse_values(1) g1_def first_globals_def)
  also have "\<dots> = Inr g"
    unfolding parse_values(2-8) parse_end by (simp add: g1_def first_globals_def v)
  finally show ?thesis .
qed

text \<open>Settings \<open>main\<close> can go on with.\<close>

definition globals_ok :: "globals \<Rightarrow> bool" where
  "globals_ok g \<longleftrightarrow> proto g \<in> {0, 1, 2} \<and> length (ro_values g) = 3"

lemma take_option_ok: "globals_ok g \<Longrightarrow> case take_option r g of Inl n \<Rightarrow> n = 2 | Inr g' \<Rightarrow> globals_ok g'"
  by (auto simp: take_option_def globals_ok_def split: opt.splits option.splits)

lemma parse_options_ok: "globals_ok g \<Longrightarrow> case parse_options word args g of Inl n \<Rightarrow> n = 2 | Inr g' \<Rightarrow> globals_ok g'"
proof (induction word args g rule: parse_options.induct)
  case (1 word args g)
  show ?case
  proof (cases "getopt_long word args")
    case None
    then show ?thesis using "1.prems" by (subst parse_options.simps) simp
  next
    case (Some p)
    obtain r word' args' where p: "p = (r, word', args')" by (cases p)
    show ?thesis
    proof (cases "take_option r g")
      case (Inl n)
      then show ?thesis using Some p take_option_ok [OF "1.prems", of r] by (subst parse_options.simps) simp
    next
      case (Inr g')
      then have "globals_ok g'" using take_option_ok [OF "1.prems", of r] by simp
      with "1.IH" [OF Some p [symmetric] refl Inr] Inr Some p show ?thesis by (subst parse_options.simps) simp
    qed
  qed
qed


section \<open>Lemmas on the start\<close>

text \<open>An event loop that can take the descriptors \<open>F\<close>.\<close>

definition ready_for :: "nat set \<Rightarrow> dstate \<Rightarrow> bool" where
  "ready_for F st \<longleftrightarrow> (\<exists>pend. loop_inv (evl st) pend) \<and> room_ok st \<and> (\<forall>n \<in> F. new_fd n st)"

text \<open>A descriptor that is watched for input by the event structure \<open>a\<close>.\<close>

definition watched_at :: "addr \<Rightarrow> nat \<Rightarrow> fd_func \<Rightarrow> dstate \<Rightarrow> bool" where
  "watched_at a n h st \<longleftrightarrow> active (fde_state (fdes (evl st) a)) \<and> want (fde_state (fdes (evl st) a)) = FDE_READ \<and>
     fde_fd (fdes (evl st) a) = int n \<and> fde_func (fdes (evl st) a) = h"

lemma ready_mono: "ready_for F st \<Longrightarrow> G \<subseteq> F \<Longrightarrow> ready_for G st"
  by (auto simp: ready_for_def)

lemma ready_frame: "ready_for F (st\<lparr>wld := w\<rparr>) = ready_for F st"
  by (simp add: ready_for_def room_ok_def new_fd_def)

lemma watch_ready:
  assumes r: "ready_for F st" and n: "n \<in> F" and a: "\<not> active (fde_state (fdes (evl st) a))" "list_pending < a" and f: "fresh st \<le> f" "a < f"
  obtains l1 l2 where "fdevent_install a (int n) h arg (evl st) = Inr l1" and "fdevent_set a FDE_READ l1 = Inr l2"
    and "ready_for (F - {n}) (st\<lparr>evl := l2, fresh := f\<rparr>)" and "watched_at a n h (st\<lparr>evl := l2\<rparr>)" and "\<And>b. b \<noteq> a \<Longrightarrow> fdes l2 b = fdes (evl st) b"
proof -
  obtain pend where inv: "loop_inv (evl st) pend" using r by (auto simp: ready_for_def)
  have fd: "n \<le> 32000" "epoll_ok (evl st)" "pollable (evl st) (int n)" "\<And>b. active (fde_state (fdes (evl st) b)) \<Longrightarrow> fde_fd (fdes (evl st) b) \<noteq> int n"
    using r n by (auto simp: ready_for_def new_fd_def)
  have a': "a \<noteq> 0" "a \<noteq> list_pending" using a by auto
  obtain l1 l2 pend' where l: "fdevent_install a (int n) h arg (evl st) = Inr l1" "fdevent_set a FDE_READ l1 = Inr l2" "loop_inv l2 pend'"
    "loop_frame a (evl st) l2" "active (fde_state (fdes l2 a))" "want (fde_state (fdes l2 a)) = FDE_READ" "fde_fd (fdes l2 a) = int n" "fde_func (fdes l2 a) = h"
    by (rule watch_new [OF inv a(1) a' fd(1,4,2,3), of h arg])
  have "new_fd m (st\<lparr>evl := l2, fresh := f\<rparr>)" if "m \<in> F - {n}" for m
  proof -
    have m: "new_fd m st" using that r by (auto simp: ready_for_def)
    have "fde_fd (fdes l2 b) \<noteq> int m" if "active (fde_state (fdes l2 b))" for b
      using that \<open>m \<in> F - {n}\<close> m l(4,7) by (cases "b = a") (auto simp: loop_frame_def new_fd_def)
    then show ?thesis using m l(4) by (simp add: new_fd_def loop_frame_def)
  qed
  moreover have "room_ok (st\<lparr>evl := l2, fresh := f\<rparr>)" using r f l(4) by (auto simp: ready_for_def room_ok_def loop_frame_def)
  ultimately have "ready_for (F - {n}) (st\<lparr>evl := l2, fresh := f\<rparr>)" using l(3) by (auto simp: ready_for_def)
  with that l show ?thesis by (simp add: watched_at_def loop_frame_def)
qed

text \<open>A kernel that gives the daemon what it asks for when it starts: the registration pair \<open>a\<close>, \<open>b\<close>, the listening socket \<open>c\<close>, the JDWP socket \<open>e\<close> and
  threads; \<open>there\<close> are the paths that exist.\<close>

definition kernel_boots :: "int \<Rightarrow> nat \<Rightarrow> nat \<Rightarrow> nat \<Rightarrow> (string \<Rightarrow> bool) \<Rightarrow> world \<Rightarrow> bool" where
  "kernel_boots a b c e there w \<longleftrightarrow> (\<forall>log. w_kern w log SysSocketpair = SPair a (int b) \<and> w_kern w log SysThread = SRet 0 \<and>
     w_kern w log (SysSocket AF_INET SOCK_STREAM) = SRet (int c) \<and> w_kern w log (SysSocket AF_LOCAL SOCK_STREAM) = SRet (int e) \<and>
     (\<forall>s x. w_kern w log (SysBind s x) = SRet 0) \<and> (\<forall>s n. w_kern w log (SysListen s n) = SRet 0) \<and>
     (\<forall>p m. w_kern w log (SysAccess p m) = SRet (if there p then 0 else -1)))"

lemma kernel_same: "w_kern w' = w_kern w \<Longrightarrow> kernel_boots a b c e there w' = kernel_boots a b c e there w"
  by (simp add: kernel_boots_def)

abbreviation bds :: "boot \<Rightarrow> dstate" where "bds bt \<equiv> ds (dm (rst bt))"

definition with_ds :: "dstate \<Rightarrow> boot \<Rightarrow> boot" where
  "with_ds d bt = bt\<lparr>rst := (rst bt)\<lparr>dm := (dm (rst bt))\<lparr>ds := d\<rparr>\<rparr>\<rparr>"

lemma with_ds_simps [simp]:
  "bds (with_ds d bt) = d" "with_ds d' (with_ds d bt) = with_ds d' bt" "keys (with_ds d bt) = keys bt" "glob (with_ds d bt) = glob bt"
  "jdw (with_ds d bt) = jdw bt" "usb (with_ds d bt) = usb bt" "env (with_ds d bt) = env bt" "servers (rst (with_ds d bt)) = servers (rst bt)"
  "r_llist (rst (with_ds d bt)) = r_llist (rst bt)" "r_lsts (rst (with_ds d bt)) = r_lsts (rst bt)" "HOST (dm (rst (with_ds d bt))) = HOST (dm (rst bt))"
  "reg_send (rst (with_ds d bt)) = reg_send (rst bt)" "reg_recv (rst (with_ds d bt)) = reg_recv (rst bt)" "auth_enabled (dm (rst (with_ds d bt))) = auth_enabled (dm (rst bt))"
  by (simp_all add: with_ds_def)

text \<open>A call of the system, whose answer the kernel determines.\<close>

lemma on_bw_call:
  "on_bw (\<lambda>w. Inr (call c w)) bt = Inr (ret_of (w_kern (wld (bds bt)) (w_log (wld (bds bt))) c), with_ds ((bds bt)\<lparr>wld := do_call c (wld (bds bt))\<rparr>) bt)"
  by (simp add: on_bw_def on_rw_def with_ds_def call_eq)

lemma do_call_kern: "w_kern (do_call c w) = w_kern w"
  by (simp add: do_call_def)

lemma registration_boots:
  assumes r: "ready_for F (bds bt)" and n: "n \<in> F" and f: "\<not> active (fde_state (fdes (evl (bds bt)) rfde))" "list_pending < rfde" "rfde < fresh (bds bt)"
    and k: "kernel_boots a n c e there (wld (bds bt))"
  obtains d where "on_rst (init_transport_registration rfde) bt = Inr ((with_ds d bt)\<lparr>rst := (rst (with_ds d bt))\<lparr>reg_send := a, reg_recv := int n\<rparr>\<rparr>)"
    and "ready_for (F - {n}) d" and "watched_at rfde n (Handler 9) d" and "kernel_boots a n c e there (wld d)"
proof -
  obtain l1 l2 where l: "fdevent_install rfde (int n) (Handler 9) 0 (evl (bds bt)) = Inr l1" "fdevent_set rfde FDE_READ l1 = Inr l2"
    "ready_for (F - {n}) ((bds bt)\<lparr>evl := l2, fresh := fresh (bds bt)\<rparr>)" "watched_at rfde n (Handler 9) ((bds bt)\<lparr>evl := l2\<rparr>)"
    by (rule watch_ready [OF r n f(1,2) order_refl f(3), of "Handler 9" 0])
  obtain w where c: "sys_call SysSocketpair (wld (bds bt)) = (SPair a (int n), w)" and w: "w_kern w = w_kern (wld (bds bt))"
    using k by (auto simp: kernel_boots_def sys_call_def Let_def)
  let ?d = "(bds bt)\<lparr>wld := w, evl := l2\<rparr>"
  have "on_rst (init_transport_registration rfde) bt = Inr ((with_ds ?d bt)\<lparr>rst := (rst (with_ds ?d bt))\<lparr>reg_send := a, reg_recv := int n\<rparr>\<rparr>)"
    using l(1,2) c by (simp add: on_rst_def init_transport_registration_def on_rw_def on_rd_def on_dm_def on_ds_def on_evl_def with_ds_def)
  moreover have "ready_for (F - {n}) ?d" using l(3) by (simp add: ready_for_def room_ok_def new_fd_def)
  moreover have "watched_at rfde n (Handler 9) ?d" using l(4) by (simp add: watched_at_def)
  moreover have "kernel_boots a n c e there (wld ?d)" using k w by (simp add: kernel_boots_def)
  ultimately show ?thesis using that by blast
qed

lemma auth_boots:
  assumes "auth_enabled (dm (rst bt)) \<longrightarrow> env bt ''SOCKET_adbd'' = None \<and> key_list < kfresh (keys bt)"
  obtains ks where "init_auth files lfde bt = Inr (bt\<lparr>keys := ks\<rparr>)"
proof (cases "auth_enabled (dm (rst bt))")
  case False
  then show ?thesis using that [of "keys bt"] by (simp add: init_auth_def)
next
  case True
  let ?k = "(keys bt)\<lparr>klinks := list_init key_list (klinks (keys bt))\<rparr>"
  have "keys_rep ?k []" using True assms by (auto simp: keys_rep_def key_list_def link_defs)
  from free_keys_loop_all [OF this, of "kfresh ?k"] obtain k1 where k1: "free_keys ?k = Inr k1" "keys_rep k1 []" by (auto simp: free_keys_def)
  from reload_from_added [OF k1(2), of files key_paths] obtain k2 where "reload_from files key_paths k1 = Inr k2" by blast
  with k1(1) have "adb_auth_reload_keys files ?k = Inr k2" by (simp add: adb_auth_reload_keys_def)
  moreover have "android_get_control_socket (env bt) ''adbd'' < 0" using True assms by (simp add: android_get_control_socket_def)
  ultimately have "init_auth files lfde bt = Inr (bt\<lparr>keys := k2\<rparr>)" using True by (simp add: init_auth_def adb_auth_init_def)
  then show ?thesis by (rule that)
qed

lemma listener_socket:
  assumes "kernel_boots a b n e there w"
  obtains w' where "socket_loopback_server port SOCK_STREAM w = (int n, w')" and "w_kern w' = w_kern w"
proof -
  have k: "ret_of (w_kern w log (SysSocket AF_INET SOCK_STREAM)) = int n" "ret_of (w_kern w log (SysBind s x)) = 0" "ret_of (w_kern w log (SysListen s m)) = 0" for log s x m
    using assms by (simp_all add: kernel_boots_def ret_of_def)
  have "\<exists>w'. socket_loopback_server port SOCK_STREAM w = (int n, w') \<and> w_kern w' = w_kern w"
    by (simp add: socket_loopback_server_def inet_server_def start_listening_def call_eq do_call_kern k Let_def)
  with that show ?thesis by blast
qed

lemma listener_boots:
  assumes r: "ready_for F (bds bt)" and n: "n \<in> F" and e: "r_llist (rst bt) = []" and k: "kernel_boots a b n e' there (wld (bds bt))"
  obtains d where "install_smartsocket port bt = Inr ((with_ds d bt)\<lparr>rst := (rst (with_ds d bt))\<lparr>
        r_lsts := (r_lsts (rst bt))(fresh (bds bt) \<mapsto> \<lparr>l_fd = int n, local_name = build_local_name 30 port, connect_to = ''*smartsocket*'', l_transport = 0\<rparr>),
        r_llist := [fresh (bds bt)]\<rparr>\<rparr>)"
    and "ready_for (F - {n}) d" and "watched_at (fresh (bds bt)) n (Handler 3) d" and "kernel_boots a b n e' there (wld d)"
    and "\<forall>f. f \<noteq> fresh (bds bt) \<longrightarrow> fdes (evl d) f = fdes (evl (bds bt)) f" and "fresh d = fresh (bds bt) + 1"
proof -
  let ?a = "fresh (bds bt)"
  have a: "\<not> active (fde_state (fdes (evl (bds bt)) ?a))" "list_pending < ?a" using r by (auto simp: ready_for_def room_ok_def)
  obtain l1 l2 where l: "fdevent_install ?a (int n) (Handler 3) ?a (evl (bds bt)) = Inr l1" "fdevent_set ?a FDE_READ l1 = Inr l2"
    "ready_for (F - {n}) ((bds bt)\<lparr>evl := l2, fresh := ?a + 1\<rparr>)" "watched_at ?a n (Handler 3) ((bds bt)\<lparr>evl := l2\<rparr>)" "\<And>f. f \<noteq> ?a \<Longrightarrow> fdes l2 f = fdes (evl (bds bt)) f"
    by (rule watch_ready [OF r n a, of "?a + 1" "Handler 3" ?a]) auto
  obtain w where w: "socket_loopback_server (atoi (drop 4 (build_local_name 30 port))) SOCK_STREAM (wld (bds bt)) = (int n, w)" "w_kern w = w_kern (wld (bds bt))"
    by (rule listener_socket [OF k])
  let ?d = "(bds bt)\<lparr>fresh := ?a + 1, wld := w, evl := l2\<rparr>"
  have t: "starts_with ''tcp:'' (build_local_name 30 port)" by (simp add: build_local_name_def starts_with_def)
  have "install_smartsocket port bt = Inr ((with_ds ?d bt)\<lparr>rst := (rst (with_ds ?d bt))\<lparr>
        r_lsts := (r_lsts (rst bt))(?a \<mapsto> \<lparr>l_fd = int n, local_name = build_local_name 30 port, connect_to = ''*smartsocket*'', l_transport = 0\<rparr>),
        r_llist := [?a]\<rparr>\<rparr>)"
    using e l(1,2) w(1) t by (simp add: install_smartsocket_def install_listener_def new_listener_def on_lw_def on_ld_def on_evl_def local_name_to_fd_def
        Let_def install_status_defs with_ds_def)
  moreover have "ready_for (F - {n}) ?d" using l(3) by (simp add: ready_for_def room_ok_def new_fd_def)
  moreover have "watched_at ?a n (Handler 3) ?d" using l(4) by (simp add: watched_at_def)
  moreover have "kernel_boots a b n e' there (wld ?d)" using k w(2) by (simp add: kernel_boots_def)
  ultimately show ?thesis using that [of ?d] l(5) by simp
qed

text \<open>The steps that only call the system.\<close>

lemma usb_wanted_boots:
  assumes "kernel_boots a b c e there (wld (bds bt))"
  obtains w where "usb_wanted force bt = Inr (force \<noteq> 2 \<and> (there USB_ADB_PATH \<or> there USB_FFS_ADB_EP0), with_ds ((bds bt)\<lparr>wld := w\<rparr>) bt)" and "w_kern w = w_kern (wld (bds bt))"
proof -
  have k: "ret_of (w_kern (wld (bds bt)) log (SysAccess p m)) = (if there p then 0 else -1)" for log p m
    using assms by (simp add: kernel_boots_def ret_of_def)
  have "\<exists>w. usb_wanted force bt = Inr (force \<noteq> 2 \<and> (there USB_ADB_PATH \<or> there USB_FFS_ADB_EP0), with_ds ((bds bt)\<lparr>wld := w\<rparr>) bt) \<and> w_kern w = w_kern (wld (bds bt))"
  proof (cases "force = 2")
    case True
    then show ?thesis by (intro exI [of _ "wld (bds bt)"]) (simp add: usb_wanted_def with_ds_def)
  next
    case False
    then show ?thesis by (simp add: usb_wanted_def on_bw_call k do_call_kern) (metis do_call_kern)
  qed
  with that show ?thesis by blast
qed

lemma usb_boots:
  assumes "kernel_boots a b c e there (wld (bds bt))"
  obtains w where "start_usb bt = Inr ((with_ds ((bds bt)\<lparr>wld := w\<rparr>) bt)\<lparr>usb := Some (if there USB_FFS_ADB_EP0 then ffs_handle else adb_handle)\<rparr>)" and "w_kern w = w_kern (wld (bds bt))"
proof -
  have k: "ret_of (w_kern (wld (bds bt)) log (SysAccess p m)) = (if there p then 0 else -1)" "ret_of (w_kern (wld (bds bt)) log SysThread) = 0" for log p m
    using assms by (simp_all add: kernel_boots_def ret_of_def)
  have "\<exists>w. usb_init (wld (bds bt)) = Inr (if there USB_FFS_ADB_EP0 then ffs_handle else adb_handle, w) \<and> w_kern w = w_kern (wld (bds bt))"
    by (simp add: usb_init_def usb_ffs_init_def usb_adb_init_def usb_thread_def call_eq k do_call_kern Let_def)
  with that show ?thesis by (auto simp: start_usb_def on_bw_def on_rw_def with_ds_def)
qed

lemma tcp_boots:
  assumes "kernel_boots a b c e there (wld (bds bt))"
  obtains w where "on_rst (local_init port) bt =
      Inr ((with_ds ((bds bt)\<lparr>wld := w\<rparr>) bt)\<lparr>rst := (rst (with_ds ((bds bt)\<lparr>wld := w\<rparr>) bt))\<lparr>servers := servers (rst bt) @ (if HOST (dm (rst bt)) then [] else [port])\<rparr>\<rparr>)"
    and "w_kern w = w_kern (wld (bds bt))"
proof -
  have "ret_of (w_kern (wld (bds bt)) log SysThread) = 0" for log using assms by (simp add: kernel_boots_def ret_of_def)
  then show ?thesis using that [of "do_call SysThread (wld (bds bt))"]
    by (simp add: on_rst_def local_init_def on_rw_def call_eq with_ds_def do_call_kern)
qed

text \<open>A new event structure from \<open>fdevent_create\<close>, watched for input.\<close>

lemma created_ready:
  assumes r: "ready_for F st" and n: "n \<in> F"
  obtains l1 l2 where "fdevent_create (fresh st) (int n) h arg (evl st) = Inr (fresh st, l1)" and "fdevent_add (fresh st) FDE_READ l1 = Inr l2"
    and "watched_at (fresh st) n h (st\<lparr>evl := l2\<rparr>)" and "\<forall>b. b \<noteq> fresh st \<longrightarrow> fdes l2 b = fdes (evl st) b"
    and "\<exists>pend. loop_inv l2 pend"
proof -
  let ?a = "fresh st"
  obtain pend where inv: "loop_inv (evl st) pend" using r by (auto simp: ready_for_def)
  have fd: "n \<le> 32000" "epoll_ok (evl st)" "pollable (evl st) (int n)" "\<And>b. active (fde_state (fdes (evl st) b)) \<Longrightarrow> fde_fd (fdes (evl st) b) \<noteq> int n"
    using r n by (auto simp: ready_for_def new_fd_def)
  have a: "\<not> active (fde_state (fdes (evl st) ?a))" "?a \<noteq> 0" "?a \<noteq> list_pending" using r by (auto simp: ready_for_def room_ok_def)
  obtain l0 where l0: "fdevent_install ?a (int n) h arg (evl st) = Inr l0" "loop_inv l0 pend"
    "fdes l0 = (fdes (evl st))(?a := \<lparr>fde_fd = int n, force_eof = False, fde_state = FDE_ACTIVE, fde_events = 0, fde_func = h, fde_arg = arg\<rparr>)"
    "pollable l0 = pollable (evl st)"
    using fdevent_install_inv [OF inv a fd(1,4,2), of h arg] by auto
  let ?f = "(fdes l0 ?a)\<lparr>fde_state := FDE_ACTIVE OR FDE_CREATED\<rparr>"
  define l1 where "l1 = l0\<lparr>fdes := (fdes l0)(?a := ?f)\<rparr>"
  have act0: "active (fde_state (fdes l0 ?a))" "fde_fd (fdes l0 ?a) = int n" using l0(3) by simp_all
  have i0: "interest l0 (int n) = None" using interest_active [OF l0(2) act0(1)] act0(2) l0(3) by (simp add: asked_def)
  have np: "?a \<notin> set pend" using l0(2,3) by (simp add: loop_inv_def queue_ok_def)
  have inv1: "loop_inv l1 pend"
  proof (rule loop_inv_upd [OF l0(2) act0(1), where f' = ?f])
    show "ring (plinks l1) list_pending pend" using l0(2) by (simp add: l1_def loop_inv_def queue_ok_def)
    show "interest l1 = (interest l0)(fde_fd ?f := asked ?a (want (fde_state ?f)))" using i0 act0(2) by (simp add: l1_def asked_def fun_upd_idem)
  qed (use l0(3) a np in \<open>simp_all add: l1_def fde_ok_def\<close>)
  have act1: "active (fde_state (fdes l1 ?a))" "pollable l1 (fde_fd (fdes l1 ?a))" "want (fde_state (fdes l1 ?a)) = 0" "target (fdes l1 ?a) = (h, int n, arg)"
    using l0(3,4) fd(3) by (simp_all add: l1_def target_def)
  obtain l2 pend' where l2: "fdevent_add ?a FDE_READ l1 = Inr l2" "loop_inv l2 pend'" "loop_frame ?a l1 l2" "active (fde_state (fdes l2 ?a))"
    "want (fde_state (fdes l2 ?a)) = want (fde_state (fdes l1 ?a)) OR FDE_READ" "target (fdes l2 ?a) = target (fdes l1 ?a)"
    by (rule fdevent_add_promise [OF inv1 act1(1) _ act1(2), of FDE_READ]) auto
  have "fdevent_create ?a (int n) h arg (evl st) = Inr (?a, l1)" using l0(1,3) by (simp add: fdevent_create_def l1_def)
  with that l2 act1 l0(3) show ?thesis by (auto simp: watched_at_def target_def loop_frame_def l1_def)
qed

lemma jdwp_boots:
  assumes r: "ready_for F (bds bt)" and n: "n \<in> F" and k: "kernel_boots a b c n there (wld (bds bt))"
  obtains d j where "start_jdwp bt = Inr ((with_ds d bt)\<lparr>jdw := j\<rparr>)" and "watched_at (fresh (bds bt)) n (Handler 6) d" and "listen_socket j = int n"
    and "\<forall>f. f \<noteq> fresh (bds bt) \<longrightarrow> fdes (evl d) f = fdes (evl (bds bt)) f" and "\<exists>pend. loop_inv (evl d) pend" and "socks d = socks (bds bt)" and "trans_list d = trans_list (bds bt)"
proof -
  let ?a = "fresh (bds bt)"
  have k': "ret_of (w_kern (wld (bds bt)) log (SysSocket AF_LOCAL SOCK_STREAM)) = int n" "ret_of (w_kern (wld (bds bt)) log (SysBind s x)) = 0"
    "ret_of (w_kern (wld (bds bt)) log (SysListen s m)) = 0" for log s x m using k by (simp_all add: kernel_boots_def ret_of_def)
  obtain l1 l2 where l: "fdevent_create ?a (int n) (Handler 6) 0 (evl (bds bt)) = Inr (?a, l1)" "fdevent_add ?a FDE_READ l1 = Inr l2"
    "watched_at ?a n (Handler 6) ((bds bt)\<lparr>evl := l2\<rparr>)" "\<forall>f. f \<noteq> ?a \<longrightarrow> fdes l2 f = fdes (evl (bds bt)) f" "\<exists>pend. loop_inv l2 pend"
    by (rule created_ready [OF r n, of "Handler 6" 0])
  have len: "length JDWP_CONTROL_NAME < sizeof_sun_path" by (simp add: JDWP_CONTROL_NAME_def sizeof_sun_path_def bytes_of_def)
  let ?d = "(bds bt)\<lparr>wld := do_call (SysListen (int n) 4) (do_call (SysBind (int n) (AddrUn JDWP_CONTROL_NAME)) (do_call (SysSocket AF_LOCAL SOCK_STREAM) (wld (bds bt)))),
    fresh := ?a + 1, evl := l2\<rparr>"
  let ?j = "(jdw bt)\<lparr>jd := ?d, jdwp_list := [], trackers := [], listen_socket := int n, control_fde := ?a\<rparr>"
  have "init_jdwp ((jdw bt)\<lparr>jd := bds bt\<rparr>) = Inr (0, ?j)"
    using len l(1,2) by (simp add: init_jdwp_def jdwp_control_init_def on_jw_def call_eq k' do_call_kern on_jd_def on_evl_def Let_def)
  then have "start_jdwp bt = Inr ((with_ds ?d bt)\<lparr>jdw := ?j\<rparr>)" by (simp add: start_jdwp_def with_ds_def)
  moreover have "watched_at ?a n (Handler 6) ?d" using l(3) by (simp add: watched_at_def)
  ultimately show ?thesis using that [where d = ?d and j = ?j] l(4,5) by simp
qed

lemma watched_frame: "watched_at a n h d \<Longrightarrow> fdes (evl d') a = fdes (evl d) a \<Longrightarrow> watched_at a n h d'"
  by (simp add: watched_at_def)

lemma ready_active: "ready_for F d \<Longrightarrow> watched_at a n h d \<Longrightarrow> a < fresh d"
  by (auto simp: ready_for_def room_ok_def watched_at_def not_le [symmetric])

text \<open>The first half of \<open>adb_main\<close>: the registration socket and the smart socket.\<close>

lemma first_half:
  assumes r: "ready_for {b, c, e} (bds bt)" and d: "distinct [b, c, e]" and k: "kernel_boots a b c e there (wld (bds bt))"
    and f: "\<not> active (fde_state (fdes (evl (bds bt)) rfde))" "list_pending < rfde" "rfde < fresh (bds bt)" and l: "r_llist (rst bt) = []"
    and auth: "auth_enabled (dm (rst bt)) \<longrightarrow> env bt ''SOCKET_adbd'' = None \<and> key_list < kfresh (keys bt)"
  obtains b1 b2 b3 where "on_rst (init_transport_registration rfde) bt = Inr b1" and "init_auth files lfde b1 = Inr b2"
    and "install_smartsocket port (b2\<lparr>env := (env b2)(''EXTERNAL_STORAGE'' \<mapsto> adb_external_storage (glob b2))\<rparr>) = Inr b3"
    and "ready_for {e} (bds b3)" and "kernel_boots a b c e there (wld (bds b3))" and "watched_at rfde b (Handler 9) (bds b3)"
    and "reg_send (rst b3) = a" and "reg_recv (rst b3) = int b" and "servers (rst b3) = servers (rst bt)" and "usb b3 = usb bt" and "HOST (dm (rst b3)) = HOST (dm (rst bt))"
    and "\<exists>s. r_llist (rst b3) = [s] \<and> r_lsts (rst b3) s = Some \<lparr>l_fd = int c, local_name = build_local_name 30 port, connect_to = ''*smartsocket*'', l_transport = 0\<rparr> \<and>
      watched_at s c (Handler 3) (bds b3)"
proof -
  obtain d1 where d1: "on_rst (init_transport_registration rfde) bt = Inr ((with_ds d1 bt)\<lparr>rst := (rst (with_ds d1 bt))\<lparr>reg_send := a, reg_recv := int b\<rparr>\<rparr>)"
    "ready_for ({b, c, e} - {b}) d1" "watched_at rfde b (Handler 9) d1" "kernel_boots a b c e there (wld d1)"
    by (rule registration_boots [OF r _ f k]) auto
  let ?b1 = "(with_ds d1 bt)\<lparr>rst := (rst (with_ds d1 bt))\<lparr>reg_send := a, reg_recv := int b\<rparr>\<rparr>"
  have ds1: "bds ?b1 = d1" by (simp add: with_ds_def)
  obtain ks where ks: "init_auth files lfde ?b1 = Inr (?b1\<lparr>keys := ks\<rparr>)"
    by (rule auth_boots [of ?b1 files lfde]) (use auth in \<open>auto simp: with_ds_def\<close>)
  let ?b2 = "?b1\<lparr>keys := ks\<rparr>"
  let ?b2' = "?b2\<lparr>env := (env ?b2)(''EXTERNAL_STORAGE'' \<mapsto> adb_external_storage (glob ?b2))\<rparr>"
  have ds2: "bds ?b2' = d1" "r_llist (rst ?b2') = []" using l by (simp_all add: with_ds_def)
  have r2: "ready_for {c, e} (bds ?b2')" using d1(2) d ds2 by (auto elim: ready_mono)
  obtain d3 where d3: "install_smartsocket port ?b2' = Inr ((with_ds d3 ?b2')\<lparr>rst := (rst (with_ds d3 ?b2'))\<lparr>
        r_lsts := (r_lsts (rst ?b2'))(fresh (bds ?b2') \<mapsto> \<lparr>l_fd = int c, local_name = build_local_name 30 port, connect_to = ''*smartsocket*'', l_transport = 0\<rparr>),
        r_llist := [fresh (bds ?b2')]\<rparr>\<rparr>)"
    "ready_for ({c, e} - {c}) d3" "watched_at (fresh (bds ?b2')) c (Handler 3) d3" "kernel_boots a b c e there (wld d3)"
    "\<forall>f. f \<noteq> fresh (bds ?b2') \<longrightarrow> fdes (evl d3) f = fdes (evl (bds ?b2')) f"
    by (rule listener_boots [OF r2 _ ds2(2), of c a b e there port]) (use d1(4) ds2(1) in auto)
  have "rfde \<noteq> fresh d1" using ready_active [OF d1(2,3)] by simp
  then have w: "watched_at rfde b (Handler 9) d3" using d3(5) d1(3) ds2(1) by (intro watched_frame [OF d1(3)]) simp
  show ?thesis
    by (rule that [OF d1(1) ks d3(1)]) (use d3(2,3,4) d w ds2(1) in \<open>auto simp: with_ds_def elim: ready_mono\<close>)
qed

text \<open>The two steps that depend on the choice.\<close>

lemma usb_step:
  assumes "kernel_boots a b c e there (wld (bds bt))" and "usb bt = None"
  obtains w where "(if u then start_usb bt else Inr bt) =
      Inr ((with_ds ((bds bt)\<lparr>wld := w\<rparr>) bt)\<lparr>usb := if u then Some (if there USB_FFS_ADB_EP0 then ffs_handle else adb_handle) else None\<rparr>)"
    and "w_kern w = w_kern (wld (bds bt))"
proof (cases u)
  case True
  with that show ?thesis by (auto intro: usb_boots [OF assms(1)])
next
  case False
  then show ?thesis using that [of "wld (bds bt)"] assms(2) by (simp add: with_ds_def)
qed

lemma tcp_step:
  assumes "kernel_boots a b c e there (wld (bds bt))" and "\<not> HOST (dm (rst bt))" and "servers (rst bt) = []"
  obtains w where "(if \<not> u then on_rst (local_init port) bt else Inr bt) =
      Inr ((with_ds ((bds bt)\<lparr>wld := w\<rparr>) bt)\<lparr>rst := (rst (with_ds ((bds bt)\<lparr>wld := w\<rparr>) bt))\<lparr>servers := if u then [] else [port]\<rparr>\<rparr>)"
    and "w_kern w = w_kern (wld (bds bt))"
proof (cases u)
  case True
  then show ?thesis using that [of "wld (bds bt)"] assms(3) by (simp add: with_ds_def)
next
  case False
  obtain w where "on_rst (local_init port) bt = Inr ((with_ds ((bds bt)\<lparr>wld := w\<rparr>) bt)\<lparr>rst := (rst (with_ds ((bds bt)\<lparr>wld := w\<rparr>) bt))\<lparr>
      servers := servers (rst bt) @ (if HOST (dm (rst bt)) then [] else [port])\<rparr>\<rparr>)" "w_kern w = w_kern (wld (bds bt))"
    by (rule tcp_boots [OF assms(1)])
  with False assms(2,3) that [of w] show ?thesis by simp
qed

text \<open>C19: \<open>adb_main\<close> comes up. With a kernel that grants its requests, whatever the key files, the chosen protocol and the paths that exist, it
  returns 1 when USB is forced and absent, and otherwise reaches the event loop; in both cases the loop watches the
  receiving end of the registration pair and a socket of the given port for the smart socket, the only listener. USB is opened exactly
  when it is there and TCP is not forced, through functionfs when its control endpoint exists; the TCP server runs exactly when USB is
  not used. In the event loop the JDWP socket is watched too.\<close>

theorem startup_completes:
  assumes "ready_for {b, c, e} (ds (dm (rst bt)))" and "distinct [b, c, e]" and "kernel_boots a b c e there (wld (ds (dm (rst bt))))"
    and "\<not> active (fde_state (fdes (evl (ds (dm (rst bt)))) rfde))" and "list_pending < rfde" and "rfde < fresh (ds (dm (rst bt)))"
    and "r_llist (rst bt) = []" and "servers (rst bt) = []" and "usb bt = None" and "\<not> HOST (dm (rst bt))"
    and "auth_enabled (dm (rst bt)) \<longrightarrow> env bt ''SOCKET_adbd'' = None \<and> key_list < kfresh (keys bt)"
    and "use_usb \<longleftrightarrow> force \<noteq> 2 \<and> (there USB_ADB_PATH \<or> there USB_FFS_ADB_EP0)"
  shows "\<exists>bt' s. adb_main files lfde rfde force port bt = Inr (if force = 1 \<and> \<not> use_usb then Returned 1 else Looping, bt') \<and>
    reg_send (rst bt') = a \<and> reg_recv (rst bt') = int b \<and> watched_at rfde b (Handler 9) (ds (dm (rst bt'))) \<and>
    r_llist (rst bt') = [s] \<and> watched_at s c (Handler 3) (ds (dm (rst bt'))) \<and>
    r_lsts (rst bt') s = Some \<lparr>l_fd = int c, local_name = build_local_name 30 port, connect_to = ''*smartsocket*'', l_transport = 0\<rparr> \<and>
    usb bt' = (if use_usb then Some (if there USB_FFS_ADB_EP0 then ffs_handle else adb_handle) else None) \<and>
    servers (rst bt') = (if use_usb \<or> force = 1 then [] else [DEFAULT_ADB_LOCAL_TRANSPORT_PORT]) \<and>
    (use_usb \<or> force \<noteq> 1 \<longrightarrow> (\<exists>j. watched_at j e (Handler 6) (ds (dm (rst bt')))))"
proof -
  obtain b1 b2 b3 s where h: "on_rst (init_transport_registration rfde) bt = Inr b1" "init_auth files lfde b1 = Inr b2"
    "install_smartsocket port (b2\<lparr>env := (env b2)(''EXTERNAL_STORAGE'' \<mapsto> adb_external_storage (glob b2))\<rparr>) = Inr b3"
    "ready_for {e} (bds b3)" "kernel_boots a b c e there (wld (bds b3))" "watched_at rfde b (Handler 9) (bds b3)"
    "reg_send (rst b3) = a" "reg_recv (rst b3) = int b" "servers (rst b3) = servers (rst bt)" "usb b3 = usb bt" "HOST (dm (rst b3)) = HOST (dm (rst bt))"
    "r_llist (rst b3) = [s]" "r_lsts (rst b3) s = Some \<lparr>l_fd = int c, local_name = build_local_name 30 port, connect_to = ''*smartsocket*'', l_transport = 0\<rparr>"
    "watched_at s c (Handler 3) (bds b3)"
    by (rule first_half [OF assms(1-7) assms(11), of files lfde port]) auto
  obtain w4 where w4: "usb_wanted force b3 = Inr (use_usb, with_ds ((bds b3)\<lparr>wld := w4\<rparr>) b3)" "w_kern w4 = w_kern (wld (bds b3))"
    by (rule usb_wanted_boots [OF h(5), of force]) (use assms(12) in auto)
  define b4 where "b4 = with_ds ((bds b3)\<lparr>wld := w4\<rparr>) b3"
  have b4: "kernel_boots a b c e there (wld (bds b4))" "usb b4 = None" using h(5,10) w4(2) assms(9) by (simp_all add: b4_def kernel_boots_def)
  obtain w5 where w5: "(if use_usb then start_usb b4 else Inr b4) =
      Inr ((with_ds ((bds b4)\<lparr>wld := w5\<rparr>) b4)\<lparr>usb := if use_usb then Some (if there USB_FFS_ADB_EP0 then ffs_handle else adb_handle) else None\<rparr>)"
    "w_kern w5 = w_kern (wld (bds b4))" by (rule usb_step [OF b4])
  define b5 where "b5 = (with_ds ((bds b4)\<lparr>wld := w5\<rparr>) b4)\<lparr>usb := if use_usb then Some (if there USB_FFS_ADB_EP0 then ffs_handle else adb_handle) else None\<rparr>"
  have b5: "kernel_boots a b c e there (wld (bds b5))" "bds b5 = (bds b3)\<lparr>wld := w5\<rparr>" "\<not> HOST (dm (rst b5))" "servers (rst b5) = []"
    "usb b5 = (if use_usb then Some (if there USB_FFS_ADB_EP0 then ffs_handle else adb_handle) else None)" "reg_send (rst b5) = a" "reg_recv (rst b5) = int b"
    "r_llist (rst b5) = [s]" "r_lsts (rst b5) s = Some \<lparr>l_fd = int c, local_name = build_local_name 30 port, connect_to = ''*smartsocket*'', l_transport = 0\<rparr>"
    using b4 w5(2) h(7-13) assms(8,10) by (simp_all add: b5_def b4_def with_ds_def kernel_boots_def)
  note run = h(1,2,3) w4(1) [folded b4_def] w5(1) [folded b5_def]
  show ?thesis
  proof (cases "force = 1 \<and> \<not> use_usb")
    case True
    then have "adb_main files lfde rfde force port bt = Inr (Returned 1, b5)" using run by (simp add: adb_main_def)
    moreover have "watched_at rfde b (Handler 9) (bds b5)" "watched_at s c (Handler 3) (bds b5)" using h(6,14) b5(2) by (simp_all add: watched_at_def)
    ultimately show ?thesis using True b5 by (intro exI [of _ b5] exI [of _ s]) simp
  next
    case False
    obtain w6 where w6: "(if \<not> use_usb then on_rst (local_init DEFAULT_ADB_LOCAL_TRANSPORT_PORT) b5 else Inr b5) =
        Inr ((with_ds ((bds b5)\<lparr>wld := w6\<rparr>) b5)\<lparr>rst := (rst (with_ds ((bds b5)\<lparr>wld := w6\<rparr>) b5))\<lparr>servers := if use_usb then [] else [DEFAULT_ADB_LOCAL_TRANSPORT_PORT]\<rparr>\<rparr>)"
      "w_kern w6 = w_kern (wld (bds b5))" by (rule tcp_step [OF b5(1,3,4)])
    define b6 where "b6 = (with_ds ((bds b5)\<lparr>wld := w6\<rparr>) b5)\<lparr>rst := (rst (with_ds ((bds b5)\<lparr>wld := w6\<rparr>) b5))\<lparr>servers := if use_usb then [] else [DEFAULT_ADB_LOCAL_TRANSPORT_PORT]\<rparr>\<rparr>"
    have ds6: "bds b6 = (bds b3)\<lparr>wld := w6\<rparr>" using b5(2) by (simp add: b6_def with_ds_def)
    have k6: "kernel_boots a b c e there (wld (bds b6))" using b5(1) w6(2) ds6 by (simp add: kernel_boots_def)
    have r6: "ready_for {e} (bds b6)" using h(4) ds6 by (simp add: ready_frame)
    obtain d7 j where d7: "start_jdwp b6 = Inr ((with_ds d7 b6)\<lparr>jdw := j\<rparr>)" "watched_at (fresh (bds b6)) e (Handler 6) d7" "\<forall>f. f \<noteq> fresh (bds b6) \<longrightarrow> fdes (evl d7) f = fdes (evl (bds b6)) f"
      by (rule jdwp_boots [OF r6 _ k6]) auto
    have "rfde \<noteq> fresh (bds b6)" "s \<noteq> fresh (bds b6)" using ready_active [OF h(4,6)] ready_active [OF h(4,14)] ds6 by simp_all
    then have "watched_at rfde b (Handler 9) d7" "watched_at s c (Handler 3) d7"
      using d7(3) ds6 by (auto intro: watched_frame [OF h(6)] watched_frame [OF h(14)])
    moreover have "adb_main files lfde rfde force port bt = Inr (Looping, (with_ds d7 b6)\<lparr>jdw := j\<rparr>)"
      using False run w6(1) [folded b6_def] d7(1) by (auto simp: adb_main_def)
    ultimately show ?thesis using False b5 d7(2) by (intro exI [of _ "(with_ds d7 b6)\<lparr>jdw := j\<rparr>"] exI [of _ s]) (auto simp: b6_def with_ds_def)
  qed
qed

text \<open>A daemon that requires authentication, with functionfs.\<close>

definition sample_boot :: boot where
  "sample_boot = \<lparr>rst = (sample_reg [])\<lparr>dm := sample_auth\<lparr>ds := sample_daemon\<lparr>wld := idle_world\<lparr>w_kern := (\<lambda>_ c. case c of
       SysSocketpair \<Rightarrow> SPair 3 4 | SysSocket d _ \<Rightarrow> SRet (if d = AF_INET then 5 else 6)
     | SysAccess p _ \<Rightarrow> SRet (if p = USB_FFS_ADB_EP0 then 0 else -1) | _ \<Rightarrow> SRet 0)\<rparr>\<rparr>\<rparr>\<rparr>,
     glob = first_globals (\<lambda>_. None), keys = sample_keys, jdw = sample_jdwp, usb = None, env = (\<lambda>_. None)\<rparr>"

theorem startup_completes_witness:
  "\<exists>bt' s. adb_main (\<lambda>_. None) 8 9 0 5038 sample_boot = Inr (Looping, bt') \<and> usb bt' = Some ffs_handle \<and> servers (rst bt') = [] \<and> r_llist (rst bt') = [s]"
proof -
  have d: "ds (dm (rst sample_boot)) = sample_daemon\<lparr>wld := wld (ds (dm (rst sample_boot)))\<rparr>" by (simp add: sample_boot_def)
  have r: "ready_for {4, 5, 6} (ds (dm (rst sample_boot)))"
    using sample_daemon_inv(2) loop_inv_start
    by (subst d) (auto simp: ready_for_def new_fd_def room_ok_def sample_daemon_def fdevent_start_def zero_fde_def)
  have k: "kernel_boots 3 4 5 6 (\<lambda>p. p = USB_FFS_ADB_EP0) (wld (ds (dm (rst sample_boot))))"
    by (simp add: kernel_boots_def sample_boot_def AF_INET_def AF_LOCAL_def)
  have "\<exists>bt' s. adb_main (\<lambda>_. None) 8 9 0 5038 sample_boot = Inr (if (0 :: int) = 1 \<and> \<not> True then Returned 1 else Looping, bt') \<and>
      usb bt' = (if True then Some (if USB_FFS_ADB_EP0 = USB_FFS_ADB_EP0 then ffs_handle else adb_handle) else None) \<and>
      servers (rst bt') = (if True \<or> (0 :: int) = 1 then [] else [DEFAULT_ADB_LOCAL_TRANSPORT_PORT]) \<and> r_llist (rst bt') = [s]"
    by (rule startup_completes [OF r _ k, of 9 True 0 "\<lambda>_. None" 8 5038, THEN weaken])
      (auto simp: sample_boot_def sample_reg_def sample_daemon_def sample_auth_def sample_keys_def key_list_def list_pending_def fdevent_start_def zero_fde_def)
  then show ?thesis by simp
qed

end
