(* ===== verification/Sysdeps.thy ===== *)
theory Sysdeps
  imports Workers Listeners "HOL-Library.Sublist"
begin

text \<open>
  The wrappers of \<open>sysdeps.h\<close> call by call, and why the other theories may look at them as single calls.

  In the model of the components a call that a wrapper repeats on EINTR is logged once and the close-on-exec flag is not
  seen. Here every attempt and every \<open>fcntl\<close> is a call of its own. A program is any tree of calls whose next step
  depends on the answers so far; \<open>run_raw\<close> runs it with the wrappers as they are written and \<open>run_model\<close> with the
  definitions the components use. The refinement says that whatever the kernel answers to the wrappers, there is
  a kernel of the model under which the program makes the same steps and reaches the same result.
\<close>

section \<open>The wrappers\<close>

definition F_SETFD :: nat where "F_SETFD = 2"
definition FD_CLOEXEC :: nat where "FD_CLOEXEC = 1"

text \<open>\<open>TEMP_FAILURE_RETRY\<close>: a kernel that interrupts the call for ever gives None.\<close>

partial_function (option) temp_failure_retry :: "syscall \<Rightarrow> world \<Rightarrow> (int \<times> world) option" where
  "temp_failure_retry c w =
    (if fst (call c w) = -1 \<and> w_errno (snd (call c w)) = EINTR then temp_failure_retry c (snd (call c w))
     else Some (call c w))"

definition close_on_exec :: "int \<Rightarrow> world \<Rightarrow> world" where
  "close_on_exec fd w = do_call (SysFcntl fd F_SETFD FD_CLOEXEC) w"

definition unix_open :: "string \<Rightarrow> nat \<Rightarrow> nat \<Rightarrow> world \<Rightarrow> (int \<times> world) option" where
  "unix_open path options mode w =
    (if and options O_CREAT = 0 then temp_failure_retry (SysOpen path options 0) w
     else temp_failure_retry (SysOpen path options mode) w)"

definition adb_open_mode_raw :: "string \<Rightarrow> nat \<Rightarrow> u32 \<Rightarrow> world \<Rightarrow> (int \<times> world) option" where
  "adb_open_mode_raw path options mode w = temp_failure_retry (SysOpen path options (unat mode)) w"

definition adb_open_raw :: "string \<Rightarrow> nat \<Rightarrow> world \<Rightarrow> (int \<times> world) option" where
  "adb_open_raw path options w = (case temp_failure_retry (SysOpen path options 0) w of
       None \<Rightarrow> None
     | Some (fd, w1) \<Rightarrow> if fd < 0 then Some (-1, w1) else Some (fd, close_on_exec fd w1))"

text \<open>\<open>creat\<close> is \<open>open\<close> with \<open>O_WRONLY\<close>, \<open>O_CREAT\<close> and \<open>O_TRUNC\<close>, together 577.\<close>

definition adb_creat_raw :: "string \<Rightarrow> nat \<Rightarrow> world \<Rightarrow> (int \<times> world) option" where
  "adb_creat_raw path mode w = (case temp_failure_retry (SysOpen path 577 mode) w of
       None \<Rightarrow> None
     | Some (fd, w1) \<Rightarrow> if fd < 0 then Some (-1, w1) else Some (fd, close_on_exec fd w1))"

definition adb_socket_accept_raw :: "int \<Rightarrow> world \<Rightarrow> (int \<times> world) option" where
  "adb_socket_accept_raw serverfd w = (case temp_failure_retry (SysAccept serverfd) w of
       None \<Rightarrow> None
     | Some (fd, w1) \<Rightarrow> Some (fd, if fd \<ge> 0 then close_on_exec fd w1 else w1))"

text \<open>The pair \<open>sv\<close> is part of the answer.\<close>

definition adb_socketpair_raw :: "world \<Rightarrow> sysans \<times> world" where
  "adb_socketpair_raw w = (case sys_call SysSocketpair w of
       (SPair a b, w1) \<Rightarrow> (SPair a b, close_on_exec b (close_on_exec a w1))
     | (_, w1) \<Rightarrow> (SErr (w_errno w1), w1))"

text \<open>The wrappers that are one call each.\<close>

definition adb_shutdown :: "int \<Rightarrow> world \<Rightarrow> int \<times> world" where
  "adb_shutdown fd w = call (SysShutdown fd) w"

definition adb_close :: "int \<Rightarrow> world \<Rightarrow> int \<times> world" where
  "adb_close fd w = call (SysClose fd) w"

definition adb_unlink :: "string \<Rightarrow> world \<Rightarrow> int \<times> world" where
  "adb_unlink path w = call (SysUnlink path) w"

text \<open>The attributes ask for a detached thread; the thread itself is not run by the call.\<close>

definition adb_thread_create :: "world \<Rightarrow> int \<times> world" where
  "adb_thread_create w = call SysThread w"

text \<open>\<open>SO_RCVBUF\<close> is 8 and \<open>TCP_NODELAY\<close> is 1.\<close>

definition adb_socket_setbufsize :: "int \<Rightarrow> world \<Rightarrow> int \<times> world" where
  "adb_socket_setbufsize fd w = call (SysSetsockopt fd 8) w"

definition disable_tcp_nagle :: "int \<Rightarrow> world \<Rightarrow> world" where
  "disable_tcp_nagle fd w = do_call (SysSetsockopt fd 1) w"

section \<open>Programs over the wrappers\<close>

datatype request =
    UnixOpen string nat nat
  | OpenMode string nat u32
  | Open string nat
  | Creat string nat
  | Accept int
  | Socketpair
  | Mkdir string nat
  | Shutdown int
  | Close int
  | Unlink string
  | Thread
  | Setbufsize int
  | Nodelay int
  | Direct syscall \<comment> \<open>a call of the C library that has no wrapper\<close>

datatype 'a prog = Done 'a | Do request "sysans \<Rightarrow> 'a prog"

text \<open>What a caller can use of a wrapper that returns an int: the number, and on a failure \<open>errno\<close>, which says
  nothing after a success.\<close>

definition seen :: "int \<times> world \<Rightarrow> sysans \<times> world" where
  "seen = (\<lambda>(r, w). (if r < 0 then SErr (w_errno w) else SRet r, w))"

definition pair_seen :: "sysans \<times> world \<Rightarrow> sysans \<times> world" where
  "pair_seen = (\<lambda>(a, w). (case a of SPair x y \<Rightarrow> SPair x y | _ \<Rightarrow> SErr (w_errno w), w))"

text \<open>The wrappers as they are written.\<close>

fun perform_raw :: "request \<Rightarrow> world \<Rightarrow> (sysans \<times> world) option" where
  "perform_raw (UnixOpen path options mode) w = map_option seen (unix_open path options mode w)"
| "perform_raw (OpenMode path options mode) w = map_option seen (adb_open_mode_raw path options mode w)"
| "perform_raw (Open path options) w = map_option seen (adb_open_raw path options w)"
| "perform_raw (Creat path mode) w = map_option seen (adb_creat_raw path mode w)"
| "perform_raw (Accept fd) w = map_option seen (adb_socket_accept_raw fd w)"
| "perform_raw Socketpair w = Some (adb_socketpair_raw w)"
| "perform_raw (Mkdir path mode) w = Some (seen (adb_mkdir path mode w))"
| "perform_raw (Shutdown fd) w = Some (seen (adb_shutdown fd w))"
| "perform_raw (Close fd) w = Some (seen (adb_close fd w))"
| "perform_raw (Unlink path) w = Some (seen (adb_unlink path w))"
| "perform_raw Thread w = Some (seen (adb_thread_create w))"
| "perform_raw (Setbufsize fd) w = Some (seen (adb_socket_setbufsize fd w))"
| "perform_raw (Nodelay fd) w = Some (SRet 0, disable_tcp_nagle fd w)"
| "perform_raw (Direct c) w = Some (sys_call c w)"

text \<open>The wrappers as the model of the components has them.\<close>

fun perform_model :: "request \<Rightarrow> world \<Rightarrow> sysans \<times> world" where
  "perform_model (UnixOpen path options mode) w =
    seen (call (SysOpen path options (if and options O_CREAT = 0 then 0 else mode)) w)"
| "perform_model (OpenMode path options mode) w = seen (adb_open_mode path options mode w)"
| "perform_model (Open path options) w = seen (adb_open path options w)"
| "perform_model (Creat path mode) w = seen (adb_creat path mode w)"
| "perform_model (Accept fd) w = (case adb_socket_accept fd w of Inl _ \<Rightarrow> (SErr (w_errno w), w) | Inr x \<Rightarrow> seen x)"
| "perform_model Socketpair w = pair_seen (sys_call SysSocketpair w)"
| "perform_model (Mkdir path mode) w = seen (adb_mkdir path mode w)"
| "perform_model (Shutdown fd) w = seen (call (SysShutdown fd) w)"
| "perform_model (Close fd) w = seen (call (SysClose fd) w)"
| "perform_model (Unlink path) w = seen (call (SysUnlink path) w)"
| "perform_model Thread w = seen (call SysThread w)"
| "perform_model (Setbufsize fd) w = seen (call (SysSetsockopt fd 8) w)"
| "perform_model (Nodelay fd) w = (SRet 0, do_call (SysSetsockopt fd 1) w)"
| "perform_model (Direct c) w = sys_call c w"

primrec run_raw :: "'a prog \<Rightarrow> world \<Rightarrow> ('a \<times> world) option" where
  "run_raw (Done x) = (\<lambda>w. Some (x, w))"
| "run_raw (Do q k) = (\<lambda>w. case perform_raw q w of None \<Rightarrow> None | Some (a, w1) \<Rightarrow> run_raw (k a) w1)"

primrec run_model :: "'a prog \<Rightarrow> world \<Rightarrow> 'a \<times> world" where
  "run_model (Done x) = (\<lambda>w. (x, w))"
| "run_model (Do q k) = (\<lambda>w. let (a, w1) = perform_model q w in run_model (k a) w1)"

section \<open>What the kernel is taken to do\<close>

text \<open>The calls the wrappers repeat, and those that only set the close-on-exec flag.\<close>

fun retried :: "syscall \<Rightarrow> bool" where
  "retried (SysOpen path options mode) \<longleftrightarrow> True"
| "retried (SysAccept fd) \<longleftrightarrow> True"
| "retried _ \<longleftrightarrow> False"

fun sets_cloexec :: "syscall \<Rightarrow> bool" where
  "sets_cloexec (SysFcntl fd cmd arg) \<longleftrightarrow> cmd = F_SETFD \<and> arg = FD_CLOEXEC"
| "sets_cloexec _ \<longleftrightarrow> False"

text \<open>A call returns a number that is not negative, or fails with \<open>errno\<close>; \<open>socketpair\<close> gives two descriptors or fails.\<close>

fun well_answered :: "syscall \<Rightarrow> sysans \<Rightarrow> bool" where
  "well_answered c (SRet n) \<longleftrightarrow> 0 \<le> n \<and> c \<noteq> SysSocketpair"
| "well_answered c (SErr e) \<longleftrightarrow> True"
| "well_answered c (SPair a b) \<longleftrightarrow> c = SysSocketpair \<or> c = SysPipe"
| "well_answered c (SStat a b d) \<longleftrightarrow> (\<exists>p. c = SysStat p \<or> c = SysLstat p)"
| "well_answered c (SNames l) \<longleftrightarrow> (\<exists>p. c = SysOpendir p)"

definition posix_kernel :: "(syscall list \<Rightarrow> syscall \<Rightarrow> sysans) \<Rightarrow> bool" where
  "posix_kernel K \<longleftrightarrow> (\<forall>log c. well_answered c (K log c))"

text \<open>No call is interrupted for ever.\<close>

definition fair_kernel :: "(syscall list \<Rightarrow> syscall \<Rightarrow> sysans) \<Rightarrow> bool" where
  "fair_kernel K \<longleftrightarrow> (\<forall>log c. retried c \<longrightarrow> (\<exists>n. K (log @ replicate n c) c \<noteq> SErr EINTR))"

text \<open>A program leaves the wrapped calls to the wrappers: \<open>sysdeps.h\<close> redefines their names.\<close>

primrec uses_wrappers :: "'a prog \<Rightarrow> bool" where
  "uses_wrappers (Done x) \<longleftrightarrow> True"
| "uses_wrappers (Do q k) \<longleftrightarrow> (\<forall>a. uses_wrappers (k a)) \<and>
     (case q of Direct c \<Rightarrow> \<not> retried c \<and> \<not> sets_cloexec c | _ \<Rightarrow> True)"

section \<open>The calls the model sees\<close>

definition visible :: "(syscall list \<Rightarrow> syscall \<Rightarrow> sysans) \<Rightarrow> syscall list \<Rightarrow> syscall \<Rightarrow> bool" where
  "visible K log c \<longleftrightarrow> \<not> (retried c \<and> K log c = SErr EINTR) \<and> \<not> sets_cloexec c"

definition merged :: "(syscall list \<Rightarrow> syscall \<Rightarrow> sysans) \<Rightarrow> syscall list \<Rightarrow> syscall list" where
  "merged K log = map (\<lambda>i. log ! i) (filter (\<lambda>i. visible K (take i log) (log ! i)) [0..<length log])"

text \<open>The kernel of the model that goes with a run whose calls were \<open>log\<close>.\<close>

definition merged_kernel :: "(syscall list \<Rightarrow> syscall \<Rightarrow> sysans) \<Rightarrow> syscall list \<Rightarrow> syscall list \<Rightarrow> syscall \<Rightarrow> sysans" where
  "merged_kernel K log older c =
    (case find (\<lambda>i. log ! i = c \<and> visible K (take i log) c \<and> merged K (take i log) = older) [0..<length log] of
       Some i \<Rightarrow> K (take i log) c
     | None \<Rightarrow> SRet 0)"

lemma merged_Nil [simp]: "merged K [] = []"
  by (simp add: merged_def)

lemma merged_snoc [simp]: "merged K (log @ [c]) = merged K log @ (if visible K log c then [c] else [])"
proof -
  have "filter (\<lambda>i. visible K (take i (log @ [c])) ((log @ [c]) ! i)) [0..<length log] =
      filter (\<lambda>i. visible K (take i log) (log ! i)) [0..<length log]"
    by (intro filter_cong) (auto simp: nth_append)
  then show ?thesis by (simp add: merged_def nth_append)
qed

lemma merged_grows: "\<exists>xs. merged K (log @ l) = merged K log @ xs"
proof (induction l rule: rev_induct)
  case (snoc c l)
  then show ?case using merged_snoc [of K "log @ l" c] by (auto simp del: merged_snoc)
qed simp

text \<open>Along a run each visible call meets another list of earlier calls, so that the answers can be looked up.\<close>

lemma merged_position:
  assumes "i < length log" and "visible K (take i log) (log ! i)" and "i < j" and "j \<le> length log"
  shows "length (merged K (take i log)) < length (merged K (take j log))"
proof -
  have t: "take j log = take (Suc i) log @ drop (Suc i) (take j log)"
    using assms(3,4) by (metis Suc_leI append_take_drop_id min.absorb1 take_take)
  obtain xs where "merged K (take j log) = merged K (take (Suc i) log) @ xs"
    by (metis merged_grows t)
  moreover have "merged K (take (Suc i) log) = merged K (take i log) @ [log ! i]"
    using assms(1,2) by (simp add: take_Suc_conv_app_nth)
  ultimately show ?thesis by simp
qed

lemma find_upt_unique:
  assumes "n < m" and "P n" and "\<And>i. i < m \<Longrightarrow> P i \<Longrightarrow> i = n"
  shows "find P [0..<m] = Some n"
  unfolding find_Some_iff
proof (intro exI [of _ n] conjI allI impI)
  fix j assume "j < n"
  then have "j < m" "j \<noteq> n" using assms(1) by simp_all
  with assms(3) show "\<not> P ([0..<m] ! j)" by auto
qed (use assms(1,2) in simp_all)

lemma merged_kernel_answers:
  assumes "prefix (l @ [c]) log" and "visible K l c"
  shows "merged_kernel K log (merged K l) c = K l c"
proof -
  let ?P = "\<lambda>i. log ! i = c \<and> visible K (take i log) c \<and> merged K (take i log) = merged K l"
  let ?n = "length l"
  obtain r where log: "log = l @ [c] @ r" using assms(1) by (auto simp: prefix_def)
  have n: "?n < length log" "?P ?n" using assms(2) by (auto simp: log)
  have "i = ?n" if "i < length log" "?P i" for i
    using merged_position [of i log K ?n] merged_position [of ?n log K i] n that by (cases i ?n rule: linorder_cases) auto
  with n have "find ?P [0..<length log] = Some ?n"
    by (intro find_upt_unique) blast+
  then show ?thesis by (simp add: merged_kernel_def log)
qed

section \<open>Simulation\<close>

text \<open>The world of the model beside the world of the wrappers, in a run whose calls are \<open>log\<close> in the end. \<open>errno\<close>
  is left out: an interrupted attempt and a failed \<open>fcntl\<close> change it.\<close>

definition beside :: "syscall list \<Rightarrow> world \<Rightarrow> world \<Rightarrow> bool" where
  "beside log w v \<longleftrightarrow> prefix (w_log w) log \<and> w_kern v = merged_kernel (w_kern w) log \<and> w_log v = merged (w_kern w) (w_log w) \<and>
     w_rd v = w_rd w \<and> w_wr v = w_wr w \<and> w_out v = w_out w"

definition simulates :: "world \<Rightarrow> ('a \<times> world) option \<Rightarrow> (world \<Rightarrow> 'a \<times> world) \<Rightarrow> bool" where
  "simulates w m g \<longleftrightarrow> (\<exists>x w1. m = Some (x, w1) \<and> w_kern w1 = w_kern w \<and> prefix (w_log w) (w_log w1) \<and>
     (\<forall>log v. beside log w v \<longrightarrow> prefix (w_log w1) log \<longrightarrow> (\<exists>v1. g v = (x, v1) \<and> beside log w1 v1)))"

lemma simulates_return: "simulates w (Some (x, w)) (\<lambda>v. (x, v))"
  by (auto simp: simulates_def)

lemma simulates_bind:
  assumes "simulates w m g" and "\<And>a w1. m = Some (a, w1) \<Longrightarrow> w_kern w1 = w_kern w \<Longrightarrow> simulates w1 (f a w1) (h a)"
  shows "simulates w (case m of None \<Rightarrow> None | Some (a, w1) \<Rightarrow> f a w1) (\<lambda>v. let (a, v1) = g v in h a v1)"
proof -
  obtain a w1 where m: "m = Some (a, w1)" "w_kern w1 = w_kern w" "prefix (w_log w) (w_log w1)"
    and g: "\<And>log v. beside log w v \<Longrightarrow> prefix (w_log w1) log \<Longrightarrow> \<exists>v1. g v = (a, v1) \<and> beside log w1 v1"
    using assms(1) by (auto simp: simulates_def)
  obtain x w2 where f: "f a w1 = Some (x, w2)" "w_kern w2 = w_kern w1" "prefix (w_log w1) (w_log w2)"
    and h: "\<And>log v. beside log w1 v \<Longrightarrow> prefix (w_log w2) log \<Longrightarrow> \<exists>v1. h a v = (x, v1) \<and> beside log w2 v1"
    using assms(2) [OF m(1,2)] by (auto simp: simulates_def)
  have "\<exists>v2. (let (a, v1) = g v in h a v1) = (x, v2) \<and> beside log w2 v2"
    if v: "beside log w v" and p: "prefix (w_log w2) log" for log v
  proof -
    have "prefix (w_log w1) log" using f(3) p by (rule prefix_order.trans)
    with g v obtain v1 where "g v = (a, v1)" "beside log w1 v1" by blast
    with h p show ?thesis by auto
  qed
  moreover have "prefix (w_log w) (w_log w2)" using m(3) f(3) by (rule prefix_order.trans)
  ultimately show ?thesis using m f by (auto simp: simulates_def)
qed

text \<open>One visible call.\<close>

lemma beside_call:
  assumes "beside log w v" and "prefix (w_log w @ [c]) log" and "visible (w_kern w) (w_log w) c"
  shows "w_kern v (w_log v) c = w_kern w (w_log w) c"
  using assms merged_kernel_answers [OF assms(2,3)] by (simp add: beside_def)

lemma beside_sys_call:
  assumes "beside log w v" and "prefix (w_log w @ [c]) log" and "visible (w_kern w) (w_log w) c"
    and "sys_call c w = (a, w1)"
  shows "\<exists>v1. sys_call c v = (a, v1) \<and> beside log w1 v1 \<and> (\<forall>e. a = SErr e \<longrightarrow> w_errno v1 = e)"
  using assms(1,3,4) beside_call [OF assms(1-3)] assms(2) by (auto simp: sys_call_def Let_def beside_def)

lemma simulates_sys_call:
  assumes "\<And>l. visible (w_kern w) l c"
  shows "simulates w (Some (sys_call c w)) (sys_call c)"
proof -
  obtain a w1 where c: "sys_call c w = (a, w1)" by force
  then have "w_kern w1 = w_kern w" "w_log w1 = w_log w @ [c]" by (auto simp: sys_call_def Let_def)
  with c beside_sys_call [OF _ _ assms c] show ?thesis by (fastforce simp: simulates_def)
qed

lemma simulates_do_call:
  assumes "\<And>l. visible (w_kern w) l c"
  shows "simulates w (Some (x, do_call c w)) (\<lambda>v. (x, do_call c v))"
  using simulates_bind [where f = "\<lambda>a w1. Some (x, w1)" and h = "\<lambda>a v. (x, v)", OF simulates_sys_call [OF assms] simulates_return]
  by (simp add: do_call_def case_prod_unfold Let_def)

text \<open>A call that only sets the close-on-exec flag is not seen.\<close>

lemma beside_close_on_exec:
  assumes "beside log w v" and "prefix (w_log (close_on_exec fd w)) log"
  shows "beside log (close_on_exec fd w) v"
  using assms by (auto simp: beside_def close_on_exec_def do_call_def sys_call_def Let_def visible_def)

text \<open>Calls that return a number: after a failure \<open>errno\<close> is the one of the answer.\<close>

fun plain_answer :: "sysans \<Rightarrow> bool" where
  "plain_answer (SRet n) \<longleftrightarrow> 0 \<le> n"
| "plain_answer (SErr e) \<longleftrightarrow> True"
| "plain_answer _ \<longleftrightarrow> False"

lemma seen_call: "plain_answer (w_kern w (w_log w) c) \<Longrightarrow> seen (call c w) = sys_call c w"
  by (cases "w_kern w (w_log w) c") (auto simp: seen_def call_def ret_of_def sys_call_def Let_def)

lemma simulates_seen_call:
  assumes "\<And>l. visible (w_kern w) l c" and "\<And>l. plain_answer (w_kern w l c)"
  shows "simulates w (Some (seen (call c w))) (\<lambda>v. seen (call c v))"
proof -
  obtain a w1 where c: "sys_call c w = (a, w1)" by force
  then have w1: "w_kern w1 = w_kern w" "w_log w1 = w_log w @ [c]" by (auto simp: sys_call_def Let_def)
  have "\<exists>v1. seen (call c v) = (a, v1) \<and> beside log w1 v1" if "beside log w v" "prefix (w_log w1) log" for log v
  proof -
    have p: "prefix (w_log w @ [c]) log" using that(2) w1 by simp
    from beside_sys_call [OF that(1) p assms(1) c] obtain v1 where "sys_call c v = (a, v1)" "beside log w1 v1" by blast
    moreover have "plain_answer (w_kern v (w_log v) c)" using assms(2) beside_call [OF that(1) p assms(1)] by simp
    ultimately show ?thesis by (simp add: seen_call)
  qed
  with c w1 show ?thesis by (auto simp: simulates_def seen_call assms(2))
qed

text \<open>The attempts before the last one are not seen either.\<close>

lemma temp_failure_retry_plain:
  assumes "plain_answer (w_kern w (w_log w) c)"
  shows "temp_failure_retry c w =
    (if w_kern w (w_log w) c = SErr EINTR then temp_failure_retry c (do_call c w) else Some (call c w))"
  using assms by (subst temp_failure_retry.simps, cases "w_kern w (w_log w) c")
    (auto simp: call_def do_call_def ret_of_def sys_call_def Let_def)

lemma temp_failure_retry_last:
  assumes "retried c" and "\<And>l. plain_answer (w_kern w l c)" and "w_kern w (w_log w @ replicate n c) c \<noteq> SErr EINTR"
  obtains w0 where "temp_failure_retry c w = Some (call c w0)" "w_kern w0 = w_kern w" "prefix (w_log w) (w_log w0)"
    "w_kern w0 (w_log w0) c \<noteq> SErr EINTR" "\<And>log v. beside log w v \<Longrightarrow> prefix (w_log w0) log \<Longrightarrow> beside log w0 v"
  using assms(2,3)
proof (induction n arbitrary: w thesis)
  case 0
  show ?case by (rule "0.prems"(1) [of w]) (use "0.prems" in \<open>simp_all add: temp_failure_retry_plain\<close>)
next
  case (Suc n)
  show ?case
  proof (cases "w_kern w (w_log w) c = SErr EINTR")
    case False
    with Suc.prems show ?thesis by (intro Suc.prems(1) [of w]) (simp_all add: temp_failure_retry_plain)
  next
    case True
    let ?w = "do_call c w"
    have w: "w_kern ?w = w_kern w" "w_log ?w = w_log w @ [c]" by (simp_all add: do_call_def sys_call_def Let_def)
    with Suc.prems(2,3) obtain w0 where w0: "temp_failure_retry c ?w = Some (call c w0)" "w_kern w0 = w_kern ?w"
        "prefix (w_log ?w) (w_log w0)" "w_kern w0 (w_log w0) c \<noteq> SErr EINTR"
        "\<And>log v. beside log ?w v \<Longrightarrow> prefix (w_log w0) log \<Longrightarrow> beside log w0 v"
      by (auto intro: Suc.IH [of ?w])
    have "beside log ?w v" if "beside log w v" "prefix (w_log w0) log" for log v
      using that True assms(1) w0(3) w prefix_order.trans [OF w0(3) that(2)]
      by (auto simp: beside_def visible_def do_call_def sys_call_def Let_def)
    with w w0 True Suc.prems(2) show ?thesis
      by (intro Suc.prems(1) [of w0]) (auto simp: temp_failure_retry_plain dest: append_prefixD)
  qed
qed

text \<open>A descriptor that a wrapper hands out is marked by the last call it made, so that no program the daemon executes
  inherits it. \<open>unix_open\<close> and \<open>adb_open_mode\<close> do not mark theirs.\<close>

lemma wrappers_mark:
  "adb_open_raw path options w = Some (fd, w') \<Longrightarrow> 0 \<le> fd \<Longrightarrow> last (w_log w') = SysFcntl fd F_SETFD FD_CLOEXEC"
  "adb_creat_raw path mode w = Some (fd, w') \<Longrightarrow> 0 \<le> fd \<Longrightarrow> last (w_log w') = SysFcntl fd F_SETFD FD_CLOEXEC"
  "adb_socket_accept_raw lfd w = Some (fd, w') \<Longrightarrow> 0 \<le> fd \<Longrightarrow> last (w_log w') = SysFcntl fd F_SETFD FD_CLOEXEC"
  by (auto simp: adb_open_raw_def adb_creat_raw_def adb_socket_accept_raw_def close_on_exec_def do_call_def sys_call_def Let_def
      split: option.splits if_splits)

text \<open>What the retrying wrappers have in common: the call, and for some of them the flag on a descriptor that was got.\<close>

definition marked :: "bool \<Rightarrow> int \<times> world \<Rightarrow> int \<times> world" where
  "marked m = (\<lambda>(fd, w). (fd, if m \<and> 0 \<le> fd then close_on_exec fd w else w))"

lemma marked_False: "marked False = id"
  by (auto simp: marked_def)

lemma seen_marked:
  assumes "sys_call c w = (a, w1)" and "plain_answer a"
  shows "seen (marked m (call c w)) = (a, if m \<and> 0 \<le> ret_of a then close_on_exec (ret_of a) w1 else w1)"
  using assms by (cases a) (auto simp: marked_def seen_def call_def ret_of_def sys_call_def Let_def)

lemma close_on_exec_world [simp]:
  "w_kern (close_on_exec fd w) = w_kern w"
  "w_log (close_on_exec fd w) = w_log w @ [SysFcntl fd F_SETFD FD_CLOEXEC]"
  by (simp_all add: close_on_exec_def do_call_def sys_call_def Let_def)

lemma simulates_retry:
  assumes "retried c" and pl: "\<And>l. plain_answer (w_kern w l c)" and "fair_kernel (w_kern w)"
  shows "simulates w (map_option seen (map_option (marked m) (temp_failure_retry c w))) (\<lambda>v. seen (call c v))"
proof -
  obtain n where "w_kern w (w_log w @ replicate n c) c \<noteq> SErr EINTR" using assms(1,3) unfolding fair_kernel_def by blast
  from temp_failure_retry_last [OF assms(1) pl this] obtain w0 where
    w0: "temp_failure_retry c w = Some (call c w0)" "w_kern w0 = w_kern w" "prefix (w_log w) (w_log w0)"
      "w_kern w0 (w_log w0) c \<noteq> SErr EINTR"
    and b: "\<And>log v. beside log w v \<Longrightarrow> prefix (w_log w0) log \<Longrightarrow> beside log w0 v" by blast
  obtain a w1 where c: "sys_call c w0 = (a, w1)" by force
  then have w1: "w_kern w1 = w_kern w" "w_log w1 = w_log w0 @ [c]" and a: "a = w_kern w0 (w_log w0) c"
    using w0 by (auto simp: sys_call_def Let_def)
  with pl w0(2) have pa: "plain_answer a" by simp
  define w2 where "w2 = (if m \<and> 0 \<le> ret_of a then close_on_exec (ret_of a) w1 else w1)"
  have vis: "visible (w_kern w0) (w_log w0) c" using w0(4) assms(1) by (cases c) (auto simp: visible_def)
  have p12: "prefix (w_log w1) (w_log w2)" by (simp add: w2_def)
  have "\<exists>v1. seen (call c v) = (a, v1) \<and> beside log w2 v1" if v: "beside log w v" and p2: "prefix (w_log w2) log" for log v
  proof -
    have p1: "prefix (w_log w1) log" using p12 p2 by (rule prefix_order.trans)
    then have p: "prefix (w_log w0 @ [c]) log" by (simp add: w1)
    have v0: "beside log w0 v" using b v append_prefixD [OF p] by blast
    obtain v1 where v1: "sys_call c v = (a, v1)" "beside log w1 v1" using beside_sys_call [OF v0 p vis c] by blast
    have "seen (call c v) = (a, v1)" using v1 beside_call [OF v0 p vis] pa a by (simp add: seen_call)
    moreover have "beside log w2 v1" using v1(2) p2 by (auto simp: w2_def intro: beside_close_on_exec)
    ultimately show ?thesis by blast
  qed
  moreover have "prefix (w_log w) (w_log w2)" using w0(3) w1 p12 by (auto simp: prefix_def)
  moreover have "w_kern w2 = w_kern w" using w1 by (simp add: w2_def)
  ultimately show ?thesis using w0(1) seen_marked [OF c pa, of m] by (simp add: simulates_def w2_def)
qed

lemma simulates_socketpair:
  assumes "\<And>l. well_answered SysSocketpair (w_kern w l SysSocketpair)"
  shows "simulates w (Some (adb_socketpair_raw w)) (\<lambda>v. pair_seen (sys_call SysSocketpair v))"
proof -
  obtain a w1 where c: "sys_call SysSocketpair w = (a, w1)" by force
  then have w1: "w_kern w1 = w_kern w" "w_log w1 = w_log w @ [SysSocketpair]" and a: "a = w_kern w (w_log w) SysSocketpair"
    and e: "\<And>e. a = SErr e \<Longrightarrow> w_errno w1 = e" by (auto simp: sys_call_def Let_def)
  define w2 where "w2 = (case a of SPair x y \<Rightarrow> close_on_exec y (close_on_exec x w1) | _ \<Rightarrow> w1)"
  have "well_answered SysSocketpair a" using assms a by simp
  then consider x y where "a = SPair x y" | e where "a = SErr e" by (cases a) auto
  note ca = this
  have r: "adb_socketpair_raw w = (a, w2)" using ca by cases (auto simp: adb_socketpair_raw_def c w2_def e)
  have p12: "prefix (w_log w1) (w_log w2)" by (simp add: w2_def split: sysans.split)
  have "\<exists>v1. pair_seen (sys_call SysSocketpair v) = (a, v1) \<and> beside log w2 v1"
    if v: "beside log w v" and p2: "prefix (w_log w2) log" for log v
  proof -
    have "prefix (w_log w @ [SysSocketpair]) log" using prefix_order.trans [OF p12 p2] w1 by simp
    then obtain v1 where v1: "sys_call SysSocketpair v = (a, v1)" "beside log w1 v1" "\<forall>e. a = SErr e \<longrightarrow> w_errno v1 = e"
      using beside_sys_call [OF v _ _ c] by (auto simp: visible_def)
    have "beside log w2 v1" using ca
    proof cases
      case (1 x y)
      then have w2: "w2 = close_on_exec y (close_on_exec x w1)" by (simp add: w2_def)
      have "prefix (w_log (close_on_exec x w1)) log" using p2 unfolding w2 close_on_exec_world(2) [of y] by (rule append_prefixD)
      with v1(2) have "beside log (close_on_exec x w1) v1" by (rule beside_close_on_exec)
      then show ?thesis using p2 unfolding w2 by (rule beside_close_on_exec)
    qed (use v1(2) in \<open>simp add: w2_def\<close>)
    moreover have "pair_seen (a, v1) = (a, v1)" using ca v1(3) by cases (simp_all add: pair_seen_def)
    ultimately show ?thesis using v1(1) by auto
  qed
  moreover have "w_kern w2 = w_kern w" using w1 by (simp add: w2_def split: sysans.split)
  moreover have "prefix (w_log w) (w_log w2)" using w1 p12 by (auto simp: prefix_def)
  ultimately show ?thesis using r by (simp add: simulates_def)
qed

lemma well_answered_plain:
  assumes "well_answered c a"
    and "c \<noteq> SysSocketpair" "c \<noteq> SysPipe" "\<And>p. c \<noteq> SysStat p" "\<And>p. c \<noteq> SysLstat p" "\<And>p. c \<noteq> SysOpendir p"
  shows "plain_answer a"
  using assms by (cases a) auto

text \<open>The definitions of the components are the single call.\<close>

lemma model_calls:
  "perform_model (UnixOpen path options md) =
    (\<lambda>w. seen (call (SysOpen path options (if and options O_CREAT = 0 then 0 else md)) w))"
  "perform_model (OpenMode path options mode) = (\<lambda>w. seen (call (SysOpen path options (unat mode)) w))"
  "perform_model (Open path options) = (\<lambda>w. seen (call (SysOpen path options 0) w))"
  "perform_model (Creat path md) = (\<lambda>w. seen (call (SysOpen path 577 md) w))"
  "perform_model (Accept fd) = (\<lambda>w. seen (call (SysAccept fd) w))"
  "perform_model Socketpair = (\<lambda>w. pair_seen (sys_call SysSocketpair w))"
  "perform_model (Mkdir path md) = (\<lambda>w. seen (call (SysMkdir path md) w))"
  "perform_model (Shutdown fd) = (\<lambda>w. seen (call (SysShutdown fd) w))"
  "perform_model (Close fd) = (\<lambda>w. seen (call (SysClose fd) w))"
  "perform_model (Unlink path) = (\<lambda>w. seen (call (SysUnlink path) w))"
  "perform_model Thread = (\<lambda>w. seen (call SysThread w))"
  "perform_model (Setbufsize fd) = (\<lambda>w. seen (call (SysSetsockopt fd 8) w))"
  "perform_model (Nodelay fd) = (\<lambda>w. (SRet 0, do_call (SysSetsockopt fd 1) w))"
  "perform_model (Direct c) = sys_call c"
  by (auto simp: fun_eq_iff adb_open_mode_def adb_open_def adb_creat_def adb_mkdir_def adb_socket_accept_def call_def seen_def
      split: prod.split)

text \<open>The retrying wrappers are the call with or without the flag.\<close>

lemma raw_calls:
  "map_option seen (unix_open path options md w) = map_option seen (map_option (marked False)
     (temp_failure_retry (SysOpen path options (if and options O_CREAT = 0 then 0 else md)) w))"
  "map_option seen (adb_open_mode_raw path options mode w) = map_option seen (map_option (marked False)
     (temp_failure_retry (SysOpen path options (unat mode)) w))"
  "map_option seen (adb_open_raw path options w) = map_option seen (map_option (marked True)
     (temp_failure_retry (SysOpen path options 0) w))"
  "map_option seen (adb_creat_raw path md w) = map_option seen (map_option (marked True)
     (temp_failure_retry (SysOpen path 577 md) w))"
  "map_option seen (adb_socket_accept_raw fd w) = map_option seen (map_option (marked True)
     (temp_failure_retry (SysAccept fd) w))"
  by (auto simp: unix_open_def adb_open_mode_raw_def adb_open_raw_def adb_creat_raw_def adb_socket_accept_raw_def
      marked_False option.map_id marked_def seen_def split: option.split prod.split)

lemma simulates_perform:
  assumes "posix_kernel (w_kern w)" and "fair_kernel (w_kern w)"
    and "case q of Direct c \<Rightarrow> \<not> retried c \<and> \<not> sets_cloexec c | _ \<Rightarrow> True"
  shows "simulates w (perform_raw q w) (perform_model q)"
proof -
  have p: "plain_answer (w_kern w l c)" if "c \<noteq> SysSocketpair" "c \<noteq> SysPipe" "\<And>p. c \<noteq> SysStat p" "\<And>p. c \<noteq> SysLstat p"
      "\<And>p. c \<noteq> SysOpendir p" for l c
    using well_answered_plain [of c "w_kern w l c"] that assms(1) by (simp add: posix_kernel_def)
  have re: "simulates w (map_option seen (map_option (marked m) (temp_failure_retry c w))) (\<lambda>v. seen (call c v))"
    if "retried c" for c m
    using that assms(2) by (cases c) (auto intro!: simulates_retry p)
  have si: "simulates w (Some (seen (call c w))) (\<lambda>v. seen (call c v))"
    if "\<not> retried c" "\<not> sets_cloexec c" "\<And>l. plain_answer (w_kern w l c)" for c
    using that by (intro simulates_seen_call) (auto simp: visible_def)
  have sp: "\<And>l. well_answered SysSocketpair (w_kern w l SysSocketpair)" using assms(1) by (simp add: posix_kernel_def)
  have mk: "seen (adb_mkdir path md w) = seen (call (SysMkdir path md) w)" for path md
    using fun_cong [OF model_calls(7), of path md w] by simp
  show ?thesis
    using assms(3) by (cases q) (auto simp: raw_calls model_calls mk adb_shutdown_def adb_close_def adb_unlink_def
      adb_thread_create_def adb_socket_setbufsize_def disable_tcp_nagle_def visible_def simp del: perform_model.simps
      intro!: re si p simulates_sys_call simulates_do_call simulates_socketpair sp)
qed

text \<open>C30: Whatever a kernel that follows POSIX and interrupts no call for ever answers to the wrappers of \<open>sysdeps.h\<close>,
  every program over them ends, and under a kernel of the model it reaches the same result with the same calls, where
  interrupted attempts and the calls for the close-on-exec flag are left out, and the same data on all descriptors.\<close>

theorem wrappers_refine:
  assumes "posix_kernel (w_kern w)" and "fair_kernel (w_kern w)" and "uses_wrappers P"
  shows "\<exists>x w' v v'. run_raw P w = Some (x, w') \<and> run_model P v = (x, v') \<and>
    w_log v = merged (w_kern w) (w_log w) \<and> w_log v' = merged (w_kern w) (w_log w') \<and>
    w_rd v' = w_rd w' \<and> w_wr v' = w_wr w' \<and> w_out v' = w_out w'"
proof -
  have "simulates w (run_raw P w) (run_model P)"
    using assms
  proof (induction P arbitrary: w)
    case (Do q k)
    then have "simulates w (perform_raw q w) (perform_model q)" by (intro simulates_perform) simp_all
    with Do show ?case unfolding run_raw.simps run_model.simps by (intro simulates_bind) simp_all
  qed (auto intro: simulates_return)
  then obtain x w' where r: "run_raw P w = Some (x, w')" "w_kern w' = w_kern w" "prefix (w_log w) (w_log w')"
    and s: "\<And>log v. beside log w v \<Longrightarrow> prefix (w_log w') log \<Longrightarrow> \<exists>v1. run_model P v = (x, v1) \<and> beside log w' v1"
    by (auto simp: simulates_def)
  let ?v = "w\<lparr>w_kern := merged_kernel (w_kern w) (w_log w'), w_log := merged (w_kern w) (w_log w)\<rparr>"
  have "beside (w_log w') w ?v" using r(3) by (simp add: beside_def)
  with s obtain v' where "run_model P ?v = (x, v')" "beside (w_log w') w' v'" by blast
  with r show ?thesis by (intro exI [of _ x] exI [of _ w'] exI [of _ ?v] exI [of _ v']) (simp add: beside_def)
qed

text \<open>A kernel that interrupts the first attempt of every call that is repeated, and a program that accepts a client and
  opens a file for it.\<close>

definition jumpy_kernel :: "syscall list \<Rightarrow> syscall \<Rightarrow> sysans" where
  "jumpy_kernel log c = (if retried c \<and> (log = [] \<or> last log \<noteq> c) then SErr EINTR
     else if c = SysSocketpair then SErr (EOther 24) else SRet (int (length log)))"

definition accept_and_open :: "(int \<times> int) prog" where
  "accept_and_open = Do (Accept 3) (\<lambda>a. Do (Open ''/f'' 0) (\<lambda>b. Done (ret_of a, ret_of b)))"

lemma jumpy_kernel_ok: "posix_kernel jumpy_kernel" "fair_kernel jumpy_kernel"
  by (auto simp: posix_kernel_def fair_kernel_def jumpy_kernel_def intro!: exI [of _ "Suc 0"])

lemma jumpy_run: "\<exists>w'. run_raw accept_and_open (idle_world\<lparr>w_kern := jumpy_kernel\<rparr>) = Some ((1, 4), w') \<and>
    w_log w' = [SysAccept 3, SysAccept 3, SysFcntl 1 2 1, SysOpen ''/f'' 0 0, SysOpen ''/f'' 0 0, SysFcntl 4 2 1]"
  by (simp add: accept_and_open_def adb_socket_accept_raw_def adb_open_raw_def temp_failure_retry.simps call_def sys_call_def Let_def
      idle_world_def jumpy_kernel_def ret_of_def seen_def close_on_exec_def do_call_def F_SETFD_def FD_CLOEXEC_def)

lemma jumpy_merged: "merged jumpy_kernel [SysAccept 3, SysAccept 3, SysFcntl 1 2 1, SysOpen ''/f'' 0 0, SysOpen ''/f'' 0 0, SysFcntl 4 2 1] =
    [SysAccept 3, SysOpen ''/f'' 0 0]"
  by (simp add: merged_def upt_rec visible_def jumpy_kernel_def F_SETFD_def FD_CLOEXEC_def numeral_eq_Suc)

theorem wrappers_refine_witness:
  "\<exists>v v'. run_model accept_and_open v = ((1, 4), v') \<and> w_log v = [] \<and> w_log v' = [SysAccept 3, SysOpen ''/f'' 0 0]"
proof -
  let ?w = "idle_world\<lparr>w_kern := jumpy_kernel\<rparr>"
  have "uses_wrappers accept_and_open" by (simp add: accept_and_open_def)
  with wrappers_refine [of ?w accept_and_open] obtain x w' v v' where r: "run_raw accept_and_open ?w = Some (x, w')"
    "run_model accept_and_open v = (x, v')" "w_log v = merged jumpy_kernel (w_log ?w)" "w_log v' = merged jumpy_kernel (w_log w')"
    by (auto simp: jumpy_kernel_ok)
  moreover have "w_log ?w = []" by (simp add: idle_world_def)
  ultimately show ?thesis using jumpy_run jumpy_merged by auto
qed

end
