(* ===== verification/FsConfig.thy ===== *)
theory FsConfig
  imports Strings
begin

text \<open>
  The file system configuration of \<open>android_filesystem_config.h\<close>: the numbers of users and groups, their names, the
  two tables of owners and modes, and \<open>fs_config\<close>, which looks a path up in them.

  A table is the list of its entries from the pointer \<open>pc\<close> on; the entry without a prefix ends it, and to go past the
  last entry is \<open>OutOfBounds\<close>. The lookup is compared with a first-match reading of the tables, in
  which a pattern is a set of paths, and with this the entries that no path can reach are found.
\<close>

unbundle bit_operations_syntax

section \<open>Users and groups\<close>

definition AID_ROOT :: u32 where [simp]: "AID_ROOT = 0"
definition AID_SYSTEM :: u32 where [simp]: "AID_SYSTEM = 1000"
definition AID_RADIO :: u32 where [simp]: "AID_RADIO = 1001"
definition AID_BLUETOOTH :: u32 where [simp]: "AID_BLUETOOTH = 1002"
definition AID_GRAPHICS :: u32 where [simp]: "AID_GRAPHICS = 1003"
definition AID_INPUT :: u32 where [simp]: "AID_INPUT = 1004"
definition AID_AUDIO :: u32 where [simp]: "AID_AUDIO = 1005"
definition AID_CAMERA :: u32 where [simp]: "AID_CAMERA = 1006"
definition AID_LOG :: u32 where [simp]: "AID_LOG = 1007"
definition AID_COMPASS :: u32 where [simp]: "AID_COMPASS = 1008"
definition AID_MOUNT :: u32 where [simp]: "AID_MOUNT = 1009"
definition AID_WIFI :: u32 where [simp]: "AID_WIFI = 1010"
definition AID_ADB :: u32 where [simp]: "AID_ADB = 1011"
definition AID_INSTALL :: u32 where [simp]: "AID_INSTALL = 1012"
definition AID_MEDIA :: u32 where [simp]: "AID_MEDIA = 1013"
definition AID_DHCP :: u32 where [simp]: "AID_DHCP = 1014"
definition AID_SDCARD_RW :: u32 where [simp]: "AID_SDCARD_RW = 1015"
definition AID_VPN :: u32 where [simp]: "AID_VPN = 1016"
definition AID_KEYSTORE :: u32 where [simp]: "AID_KEYSTORE = 1017"
definition AID_USB :: u32 where [simp]: "AID_USB = 1018"
definition AID_DRM :: u32 where [simp]: "AID_DRM = 1019"
definition AID_MDNSR :: u32 where [simp]: "AID_MDNSR = 1020"
definition AID_GPS :: u32 where [simp]: "AID_GPS = 1021"
definition AID_UNUSED1 :: u32 where [simp]: "AID_UNUSED1 = 1022"
definition AID_MEDIA_RW :: u32 where [simp]: "AID_MEDIA_RW = 1023"
definition AID_MTP :: u32 where [simp]: "AID_MTP = 1024"
definition AID_UNUSED2 :: u32 where [simp]: "AID_UNUSED2 = 1025"
definition AID_DRMRPC :: u32 where [simp]: "AID_DRMRPC = 1026"
definition AID_NFC :: u32 where [simp]: "AID_NFC = 1027"
definition AID_SDCARD_R :: u32 where [simp]: "AID_SDCARD_R = 1028"
definition AID_SHELL :: u32 where [simp]: "AID_SHELL = 32011"
definition AID_CACHE :: u32 where [simp]: "AID_CACHE = 2001"
definition AID_DIAG :: u32 where [simp]: "AID_DIAG = 2002"
definition AID_NET_BT_ADMIN :: u32 where [simp]: "AID_NET_BT_ADMIN = 3001"
definition AID_NET_BT :: u32 where [simp]: "AID_NET_BT = 3002"
definition AID_INET :: u32 where [simp]: "AID_INET = 3003"
definition AID_NET_RAW :: u32 where [simp]: "AID_NET_RAW = 3004"
definition AID_NET_ADMIN :: u32 where [simp]: "AID_NET_ADMIN = 3005"
definition AID_NET_BW_STATS :: u32 where [simp]: "AID_NET_BW_STATS = 3006"
definition AID_NET_BW_ACCT :: u32 where [simp]: "AID_NET_BW_ACCT = 3007"
definition AID_NET_BT_STACK :: u32 where [simp]: "AID_NET_BT_STACK = 3008"
definition AID_QCOM_ONCRPC :: u32 where [simp]: "AID_QCOM_ONCRPC = 3009"
definition AID_QCOM_DIAG :: u32 where [simp]: "AID_QCOM_DIAG = 3010"
definition AID_MISC :: u32 where [simp]: "AID_MISC = 9998"
definition AID_NOBODY :: u32 where [simp]: "AID_NOBODY = 9999"
definition AID_APP :: u32 where [simp]: "AID_APP = 10000"
definition AID_ISOLATED_START :: u32 where [simp]: "AID_ISOLATED_START = 99000"
definition AID_ISOLATED_END :: u32 where [simp]: "AID_ISOLATED_END = 99999"
definition AID_USER :: u32 where [simp]: "AID_USER = 100000"
definition AID_SHARED_GID_START :: u32 where [simp]: "AID_SHARED_GID_START = 50000"
definition AID_SHARED_GID_END :: u32 where [simp]: "AID_SHARED_GID_END = 59999"

definition android_ids :: "(string \<times> u32) list" where
  "android_ids = [
    (''root'', AID_ROOT), (''system'', AID_SYSTEM), (''radio'', AID_RADIO), (''bluetooth'', AID_BLUETOOTH),
    (''graphics'', AID_GRAPHICS), (''input'', AID_INPUT), (''audio'', AID_AUDIO), (''camera'', AID_CAMERA),
    (''log'', AID_LOG), (''compass'', AID_COMPASS), (''mount'', AID_MOUNT), (''wifi'', AID_WIFI),
    (''dhcp'', AID_DHCP), (''adb'', AID_ADB), (''install'', AID_INSTALL), (''media'', AID_MEDIA),
    (''drm'', AID_DRM), (''mdnsr'', AID_MDNSR), (''nfc'', AID_NFC), (''drmrpc'', AID_DRMRPC),
    (''shell'', AID_SHELL), (''cache'', AID_CACHE), (''diag'', AID_DIAG), (''net_bt_admin'', AID_NET_BT_ADMIN),
    (''net_bt'', AID_NET_BT), (''net_bt_stack'', AID_NET_BT_STACK), (''sdcard_r'', AID_SDCARD_R), (''sdcard_rw'', AID_SDCARD_RW),
    (''media_rw'', AID_MEDIA_RW), (''vpn'', AID_VPN), (''keystore'', AID_KEYSTORE), (''usb'', AID_USB),
    (''mtp'', AID_MTP), (''gps'', AID_GPS), (''inet'', AID_INET), (''net_raw'', AID_NET_RAW),
    (''net_admin'', AID_NET_ADMIN), (''net_bw_stats'', AID_NET_BW_STATS), (''net_bw_acct'', AID_NET_BW_ACCT), (''qcom_oncrpc'', AID_QCOM_ONCRPC),
    (''qcom_diag'', AID_QCOM_DIAG), (''misc'', AID_MISC), (''nobody'', AID_NOBODY)]"

section \<open>Owners and modes\<close>

record fs_path_config =
  fc_mode :: u32
  fc_uid :: u32
  fc_gid :: u32
  fc_prefix :: "string option"

definition path_config :: "u32 \<Rightarrow> u32 \<Rightarrow> u32 \<Rightarrow> string option \<Rightarrow> fs_path_config" where
  "path_config m u g p = \<lparr>fc_mode = m, fc_uid = u, fc_gid = g, fc_prefix = p\<rparr>"

text \<open>The modes are octal numbers of four digits after the leading 0.\<close>

definition octal :: "u32 \<Rightarrow> u32 \<Rightarrow> u32 \<Rightarrow> u32 \<Rightarrow> u32" where
  "octal a b c d = ((a * 8 + b) * 8 + c) * 8 + d"

definition android_dirs :: "fs_path_config list" where
  "android_dirs = [
    path_config (octal 0 7 7 0) AID_SYSTEM AID_CACHE (Some ''cache''),
    path_config (octal 0 7 7 1) AID_SYSTEM AID_SYSTEM (Some ''data/app''),
    path_config (octal 0 7 7 1) AID_SYSTEM AID_SYSTEM (Some ''data/app-private''),
    path_config (octal 0 7 7 1) AID_SYSTEM AID_SYSTEM (Some ''data/dalvik-cache''),
    path_config (octal 0 7 7 1) AID_SYSTEM AID_SYSTEM (Some ''data/data''),
    path_config (octal 0 7 7 1) AID_SHELL AID_SHELL (Some ''data/local/tmp''),
    path_config (octal 0 7 7 1) AID_SHELL AID_SHELL (Some ''data/local''),
    path_config (octal 1 7 7 1) AID_SYSTEM AID_MISC (Some ''data/misc''),
    path_config (octal 0 7 7 0) AID_DHCP AID_DHCP (Some ''data/misc/dhcp''),
    path_config (octal 0 7 7 5) AID_MEDIA_RW AID_MEDIA_RW (Some ''data/media''),
    path_config (octal 0 7 7 5) AID_MEDIA_RW AID_MEDIA_RW (Some ''data/media/Music''),
    path_config (octal 0 7 7 1) AID_SYSTEM AID_SYSTEM (Some ''data''),
    path_config (octal 0 7 5 0) AID_ROOT AID_SHELL (Some ''sbin''),
    path_config (octal 0 7 5 5) AID_ROOT AID_ROOT (Some ''system/addon.d''),
    path_config (octal 0 7 5 5) AID_ROOT AID_SHELL (Some ''system/bin''),
    path_config (octal 0 7 5 5) AID_ROOT AID_SHELL (Some ''system/vendor''),
    path_config (octal 0 7 5 5) AID_ROOT AID_SHELL (Some ''system/xbin''),
    path_config (octal 0 7 5 5) AID_ROOT AID_ROOT (Some ''system/etc/ppp''),
    path_config (octal 0 7 7 7) AID_ROOT AID_ROOT (Some ''sdcard''),
    path_config (octal 0 7 5 5) AID_ROOT AID_ROOT None]"

definition android_files :: "fs_path_config list" where
  "android_files = [
    path_config (octal 0 4 4 0) AID_ROOT AID_SHELL (Some ''system/etc/init.goldfish.rc''),
    path_config (octal 0 5 5 0) AID_ROOT AID_SHELL (Some ''system/etc/init.goldfish.sh''),
    path_config (octal 0 4 4 0) AID_ROOT AID_SHELL (Some ''system/etc/init.trout.rc''),
    path_config (octal 0 5 5 0) AID_ROOT AID_SHELL (Some ''system/etc/init.ril''),
    path_config (octal 0 5 5 0) AID_ROOT AID_SHELL (Some ''system/etc/init.testmenu''),
    path_config (octal 0 5 5 0) AID_DHCP AID_SHELL (Some ''system/etc/dhcpcd/dhcpcd-run-hooks''),
    path_config (octal 0 4 4 0) AID_BLUETOOTH AID_BLUETOOTH (Some ''system/etc/dbus.conf''),
    path_config (octal 0 4 4 4) AID_RADIO AID_AUDIO (Some ''system/etc/AudioPara4.csv''),
    path_config (octal 0 5 5 5) AID_ROOT AID_ROOT (Some ''system/etc/ppp/*''),
    path_config (octal 0 5 5 5) AID_ROOT AID_ROOT (Some ''system/etc/rc.*''),
    path_config (octal 0 7 5 5) AID_ROOT AID_ROOT (Some ''system/addon.d/*''),
    path_config (octal 0 6 4 4) AID_SYSTEM AID_SYSTEM (Some ''data/app/*''),
    path_config (octal 0 6 4 4) AID_MEDIA_RW AID_MEDIA_RW (Some ''data/media/*''),
    path_config (octal 0 6 4 4) AID_SYSTEM AID_SYSTEM (Some ''data/app-private/*''),
    path_config (octal 0 6 4 4) AID_APP AID_APP (Some ''data/data/*''),
    path_config (octal 2 7 5 5) AID_ROOT AID_NET_RAW (Some ''system/bin/ping''),
    path_config (octal 2 7 5 0) AID_ROOT AID_INET (Some ''system/bin/netcfg''),
    path_config (octal 6 7 5 5) AID_ROOT AID_ROOT (Some ''system/xbin/su''),
    path_config (octal 6 7 5 5) AID_ROOT AID_ROOT (Some ''system/xbin/librank''),
    path_config (octal 6 7 5 5) AID_ROOT AID_ROOT (Some ''system/xbin/procrank''),
    path_config (octal 6 7 5 5) AID_ROOT AID_ROOT (Some ''system/xbin/procmem''),
    path_config (octal 6 7 5 5) AID_ROOT AID_ROOT (Some ''system/xbin/tcpdump''),
    path_config (octal 4 7 7 0) AID_ROOT AID_RADIO (Some ''system/bin/pppd-ril''),
    path_config (octal 6 7 5 0) AID_ROOT AID_SHELL (Some ''system/bin/run-as''),
    path_config (octal 6 7 5 0) AID_ROOT AID_SYSTEM (Some ''system/bin/rebootcmd''),
    path_config (octal 0 7 5 5) AID_ROOT AID_SHELL (Some ''system/bin/*''),
    path_config (octal 0 7 5 5) AID_ROOT AID_ROOT (Some ''system/lib/valgrind/*''),
    path_config (octal 0 7 5 5) AID_ROOT AID_SHELL (Some ''system/xbin/*''),
    path_config (octal 0 7 5 5) AID_ROOT AID_SHELL (Some ''system/vendor/bin/*''),
    path_config (octal 0 7 5 0) AID_ROOT AID_SHELL (Some ''sbin/*''),
    path_config (octal 0 7 5 5) AID_ROOT AID_ROOT (Some ''bin/*''),
    path_config (octal 0 7 5 0) AID_ROOT AID_SHELL (Some ''init*''),
    path_config (octal 0 7 5 0) AID_ROOT AID_SHELL (Some ''charger*''),
    path_config (octal 0 7 5 0) AID_ROOT AID_SHELL (Some ''sbin/fs_mgr''),
    path_config (octal 0 6 4 0) AID_ROOT AID_SHELL (Some ''fstab.*''),
    path_config (octal 0 7 5 5) AID_ROOT AID_SHELL (Some ''system/etc/init.d/*''),
    path_config (octal 0 6 4 4) AID_ROOT AID_ROOT None]"

section \<open>The lookup\<close>

text \<open>Whether \<open>strncmp(s,t,n)\<close> is 0: the comparison ends with the first string that ends.\<close>

fun strncmp_eq :: "string \<Rightarrow> string \<Rightarrow> nat \<Rightarrow> bool" where
  "strncmp_eq s t 0 \<longleftrightarrow> True"
| "strncmp_eq [] [] (Suc n) \<longleftrightarrow> True"
| "strncmp_eq (a # s) (b # t) (Suc n) \<longleftrightarrow> a = b \<and> strncmp_eq s t n"
| "strncmp_eq _ _ (Suc n) \<longleftrightarrow> False"

text \<open>\<open>strlen\<close>, converted to an int.\<close>

definition strlen_int :: "string \<Rightarrow> int" where
  "strlen_int s = sint (word_of_nat (length s) :: u32)"

text \<open>The body of the loop: whether it ends at an entry with this prefix.\<close>

definition fs_stops :: "bool \<Rightarrow> string \<Rightarrow> string \<Rightarrow> bool outcome" where
  "fs_stops dir path prefix =
    (let plen = strlen_int path; len = length prefix in
     if dir then Inr (if plen < int len then False else strncmp_eq prefix path len)
     else if len = 0 then Inl OutOfBounds
     else if prefix ! (len - 1) = CHR ''*'' then Inr (strncmp_eq prefix path (len - 1))
     else if plen = int len then Inr (strncmp_eq prefix path len)
     else Inr False)"

fun fs_find :: "bool \<Rightarrow> string \<Rightarrow> fs_path_config list \<Rightarrow> fs_path_config outcome" where
  "fs_find dir path [] = Inl OutOfBounds"
| "fs_find dir path (pc # pcs) = (case fc_prefix pc of
       None \<Rightarrow> Inr pc
     | Some prefix \<Rightarrow> andthen (fs_stops dir path prefix) (\<lambda>b. if b then Inr pc else fs_find dir path pcs))"

text \<open>\<open>fs_config\<close>: the three numbers it stores through its pointers.\<close>

definition fs_config :: "string \<Rightarrow> bool \<Rightarrow> u32 \<Rightarrow> (u32 \<times> u32 \<times> u32) outcome" where
  "fs_config path dir mode =
    andthen (fs_find dir path (if dir then android_dirs else android_files))
      (\<lambda>pc. Inr (fc_uid pc, fc_gid pc, (mode AND NOT 4095) OR fc_mode pc))"

section \<open>First match\<close>

text \<open>The paths a pattern stands for: a prefix for directories; for files a name, or with a star at its end a prefix. The last entry
  of a table stands for all the others.\<close>

definition fs_covers :: "bool \<Rightarrow> string \<Rightarrow> string \<Rightarrow> bool" where
  "fs_covers dir pattern path \<longleftrightarrow>
    (if dir then starts_with pattern path
     else if last pattern = CHR ''*'' then starts_with (butlast pattern) path else path = pattern)"

definition first_cover :: "bool \<Rightarrow> string \<Rightarrow> fs_path_config list \<Rightarrow> fs_path_config" where
  "first_cover dir path table =
    (case find (\<lambda>pc. fs_covers dir (the (fc_prefix pc)) path) (butlast table) of Some pc \<Rightarrow> pc | None \<Rightarrow> last table)"

definition table_ok :: "fs_path_config list \<Rightarrow> bool" where
  "table_ok table \<longleftrightarrow> table \<noteq> [] \<and> fc_prefix (last table) = None \<and>
     (\<forall>pc \<in> set (butlast table). fc_prefix pc \<noteq> None \<and> fc_prefix pc \<noteq> Some [])"

lemma strncmp_eq_take: "strncmp_eq s t n \<longleftrightarrow> take n s = take n t"
  by (induction s t n rule: strncmp_eq.induct) auto

lemma strlen_int_small: "length s < 2 ^ 31 \<Longrightarrow> strlen_int s = int (length s)"
  unfolding strlen_int_def by (simp add: sint_uint uint_nat signed_take_bit_int_eq_self unat_of_nat)

lemma fs_stops_covers:
  assumes "length path < 2 ^ 31" and "pattern \<noteq> []"
  shows "fs_stops dir path pattern = Inr (fs_covers dir pattern path)"
proof -
  have "take (length pattern - 1) pattern = butlast pattern" by (simp add: butlast_conv_take)
  moreover have "pattern ! (length pattern - 1) = last pattern" using assms(2) by (simp add: last_conv_nth)
  ultimately show ?thesis using assms
    by (auto simp: fs_stops_def fs_covers_def starts_with_def strncmp_eq_take strlen_int_small Let_def dest: arg_cong [of _ _ length])
qed

lemma fs_find_first:
  assumes "length path < 2 ^ 31" and "table_ok table"
  shows "fs_find dir path table = Inr (first_cover dir path table)"
  using assms(2)
proof (induction table)
  case (Cons pc pcs)
  show ?case
  proof (cases "pcs = []")
    case True
    with Cons.prems show ?thesis by (simp add: table_ok_def first_cover_def)
  next
    case False
    with Cons.prems obtain p where p: "fc_prefix pc = Some p" "p \<noteq> []" by (auto simp: table_ok_def)
    from False Cons.prems have "table_ok pcs" by (simp add: table_ok_def)
    with Cons.IH p False fs_stops_covers [OF assms(1) p(2)] show ?thesis by (auto simp: first_cover_def split: option.split)
  qed
qed (simp add: table_ok_def)

lemma tables_ok: "table_ok android_dirs" "table_ok android_files"
  by (simp_all add: table_ok_def android_dirs_def android_files_def path_config_def)

lemma first_cover_in: "table \<noteq> [] \<Longrightarrow> first_cover dir path table \<in> set table"
proof -
  assume "table \<noteq> []"
  moreover have "pc \<in> set table" if "find P (butlast table) = Some pc" for P pc
    using that by (metis find_Some_iff in_set_butlastD nth_mem)
  ultimately show ?thesis by (simp add: first_cover_def split: option.split)
qed

lemma table_modes:
  "pc \<in> set android_dirs \<union> set android_files \<Longrightarrow> fc_mode pc AND 4095 = fc_mode pc \<and> fc_mode pc AND NOT 4095 = 0"
  by (auto simp: android_dirs_def android_files_def path_config_def octal_def)

text \<open>C33: \<open>fs_config\<close> is first match. For every path it stays inside its table and gives owner, group and
  mode of the first entry whose pattern covers the path, or of the last entry when none does; of the mode it is given it keeps
  all bits but the lowest twelve, and these are those of the entry.\<close>

theorem fs_config_exact:
  assumes "length path < 2 ^ 31"
  shows "\<exists>pc m. pc = first_cover dir path (if dir then android_dirs else android_files) \<and>
    fs_config path dir mode = Inr (fc_uid pc, fc_gid pc, m) \<and> m AND 4095 = fc_mode pc \<and> m AND NOT 4095 = mode AND NOT 4095"
proof -
  let ?t = "if dir then android_dirs else android_files"
  have ok: "table_ok ?t" using tables_ok by simp
  define pc where "pc = first_cover dir path ?t"
  have "pc \<in> set ?t" unfolding pc_def using ok by (intro first_cover_in) (simp add: table_ok_def)
  then have "pc \<in> set android_dirs \<union> set android_files" by (cases dir) simp_all
  then have "fc_mode pc AND 4095 = fc_mode pc \<and> fc_mode pc AND NOT 4095 = 0"
    by (rule table_modes)
  then have "(mode AND NOT 4095 OR fc_mode pc) AND 4095 = fc_mode pc" "(mode AND NOT 4095 OR fc_mode pc) AND NOT 4095 = mode AND NOT 4095"
    by (simp_all add: bit.conj_disj_distrib2 and.assoc)
  then show ?thesis using fs_find_first [OF assms ok] by (simp add: fs_config_def pc_def)
qed

section \<open>Entries that no path reaches\<close>

lemma fs_find_stops:
  assumes "fs_find dir path table = Inr pc" and "fc_prefix pc = Some q"
  shows "fs_stops dir path q = Inr True"
  using assms
  by (induction dir path table rule: fs_find.induct) (auto simp: andthen_Inr_iff split: option.splits if_splits)

lemma fs_find_in: "fs_find dir path table = Inr pc \<Longrightarrow> pc \<in> set table"
  by (induction table) (auto simp: andthen_Inr_iff split: option.splits if_splits)

lemma fs_find_passes:
  assumes "fs_find dir path table = Inr pc" and "i < length table" and "pc \<notin> set (take (Suc i) table)" and "fc_prefix (table ! i) = Some p"
  shows "fs_stops dir path p = Inr False"
  using assms
proof (induction dir path table arbitrary: i rule: fs_find.induct)
  case (2 dir path a pcs)
  then show ?case by (cases i) (auto simp: andthen_Inr_iff split: option.splits if_splits)
qed simp

text \<open>When the loop stops at the longer of two directory names it stops at the shorter one, and so does it with a name and a star.\<close>

lemma fs_stops_shorter: "fs_stops True path (p @ r) = Inr True \<Longrightarrow> fs_stops True path p = Inr True"
  by (auto simp: fs_stops_def strncmp_eq_take Let_def split: if_splits dest: arg_cong [where f = "take (length p)"])

lemma fs_stops_star:
  "fs_stops False path (p @ r) = Inr True \<Longrightarrow> r \<noteq> [] \<Longrightarrow> last r \<noteq> CHR ''*'' \<Longrightarrow> fs_stops False path (p @ ''*'') = Inr True"
  by (cases r) (auto simp: fs_stops_def strncmp_eq_take Let_def nth_append last_conv_nth split: if_splits dest: arg_cong [where f = "take (length p)"])

lemma dead_dir:
  assumes "i < length table" and "fc_prefix (table ! i) = Some p" and "pc \<notin> set (take (Suc i) table)" and "fc_prefix pc = Some (p @ r)"
  shows "fs_find True path table \<noteq> Inr pc"
  using fs_find_passes [OF _ assms(1,3,2)] fs_find_stops [OF _ assms(4)] fs_stops_shorter by fastforce

lemma dead_file:
  assumes "i < length table" and "fc_prefix (table ! i) = Some (p @ ''*'')" and "pc \<notin> set (take (Suc i) table)" and "fc_prefix pc = Some (p @ r)"
    and "r \<noteq> []" "last r \<noteq> CHR ''*''"
  shows "fs_find False path table \<noteq> Inr pc"
  using fs_find_passes [OF _ assms(1,3,2)] fs_find_stops [OF _ assms(4)] fs_stops_star [OF _ assms(5,6)] by fastforce

text \<open>The name of an entry is a path that reaches it, unless an earlier entry covers it. For the last entry any path that nothing covers will do.\<close>

definition sample_path :: "fs_path_config \<Rightarrow> string" where
  "sample_path pc = (case fc_prefix pc of None \<Rightarrow> ''x'' | Some p \<Rightarrow> p)"

definition dead :: "fs_path_config list \<Rightarrow> bool \<Rightarrow> fs_path_config list" where
  "dead table dir = filter (\<lambda>pc. fs_find dir (sample_path pc) table \<noteq> Inr pc) table"

lemma dead_dirs: "dead android_dirs True =
    [path_config (octal 0 7 7 1) AID_SYSTEM AID_SYSTEM (Some ''data/app-private''),
     path_config (octal 0 7 7 0) AID_DHCP AID_DHCP (Some ''data/misc/dhcp''),
     path_config (octal 0 7 7 5) AID_MEDIA_RW AID_MEDIA_RW (Some ''data/media/Music'')]"
  by code_simp

lemma dead_files: "dead android_files False = [path_config (octal 0 7 5 0) AID_ROOT AID_SHELL (Some ''sbin/fs_mgr'')]"
  by code_simp

lemma not_dead_reached: "pc \<in> set table \<Longrightarrow> pc \<notin> set (dead table dir) \<Longrightarrow> \<exists>path. fs_find dir path table = Inr pc"
  by (auto simp: dead_def)

lemma reached_dir: "fs_find True path android_dirs = Inr pc \<Longrightarrow> pc \<notin> set (dead android_dirs True)"
  using dead_dir [of 1 android_dirs "''data/app''" pc "''-private''" path] dead_dir [of 7 android_dirs "''data/misc''" pc "''/dhcp''" path]
    dead_dir [of 9 android_dirs "''data/media''" pc "''/Music''" path]
  unfolding dead_dirs by (auto simp: android_dirs_def path_config_def)

lemma reached_file: "fs_find False path android_files = Inr pc \<Longrightarrow> pc \<notin> set (dead android_files False)"
  using dead_file [of 29 android_files "''sbin/''" pc "''fs_mgr''" path]
  unfolding dead_files by (auto simp: android_files_def path_config_def)

lemma set_diff_filter: "filter (\<lambda>x. x \<notin> set ys) xs = filter P xs \<Longrightarrow> set xs - set ys = {x \<in> set xs. P x}"
  by (drule arg_cong [where f = set]) auto

lemma reached_set:
  assumes "\<And>path pc. fs_find dir path table = Inr pc \<Longrightarrow> pc \<notin> set (dead table dir)"
  shows "{pc. \<exists>path. fs_find dir path table = Inr pc} = set table - set (dead table dir)"
  using assms by (auto dest: fs_find_in not_dead_reached)

lemma reached_dirs: "{pc. \<exists>path. fs_find True path android_dirs = Inr pc} = set android_dirs - set (dead android_dirs True)"
  by (rule reached_set) (rule reached_dir)

lemma reached_files: "{pc. \<exists>path. fs_find False path android_files = Inr pc} = set android_files - set (dead android_files False)"
  by (rule reached_set) (rule reached_file)

text \<open>Three of the directories and one of the files in the tables can never be found, whatever the path is, because an earlier
  entry covers all their paths; every other entry is found for some path. The directory of the DHCP client therefore gets the owner
  and mode of \<open>data/misc\<close> instead of its own.\<close>

lemma fs_config_dead_entries:
  "{pc. \<exists>path. fs_find True path android_dirs = Inr pc} =
    {pc \<in> set android_dirs. fc_prefix pc \<notin> {Some ''data/app-private'', Some ''data/misc/dhcp'', Some ''data/media/Music''}} \<and>
   {pc. \<exists>path. fs_find False path android_files = Inr pc} = {pc \<in> set android_files. fc_prefix pc \<noteq> Some ''sbin/fs_mgr''} \<and>
   fs_config ''data/misc/dhcp'' True 0 = Inr (AID_SYSTEM, AID_MISC, octal 1 7 7 1)"
proof (intro conjI)
  show "{pc. \<exists>path. fs_find True path android_dirs = Inr pc} =
      {pc \<in> set android_dirs. fc_prefix pc \<notin> {Some ''data/app-private'', Some ''data/misc/dhcp'', Some ''data/media/Music''}}"
    unfolding reached_dirs dead_dirs by (rule set_diff_filter) code_simp
  show "{pc. \<exists>path. fs_find False path android_files = Inr pc} = {pc \<in> set android_files. fc_prefix pc \<noteq> Some ''sbin/fs_mgr''}"
    unfolding reached_files dead_files by (rule set_diff_filter) code_simp
  show "fs_config ''data/misc/dhcp'' True 0 = Inr (AID_SYSTEM, AID_MISC, octal 1 7 7 1)" by code_simp
qed

text \<open>No two names and no two numbers of \<open>android_ids\<close> are the same, and every owner and group of the tables has a name, but for
  the one of the application data.\<close>

lemma android_ids_distinct: "distinct (map fst android_ids)" "distinct (map snd android_ids)"
  by code_simp+

lemma owners_named: "\<forall>pc \<in> set (android_dirs @ android_files). fc_prefix pc \<noteq> Some ''data/data/*'' \<longrightarrow>
    fc_uid pc \<in> set (map snd android_ids) \<and> fc_gid pc \<in> set (map snd android_ids)"
  by code_simp

theorem fs_config_exact_witness:
  "length ''system/bin/ping'' < 2 ^ 31 \<and>
   (\<exists>m. fs_config ''system/bin/ping'' False 32768 = Inr (AID_ROOT, AID_NET_RAW, m) \<and> m AND 4095 = octal 2 7 5 5 \<and> m AND NOT 4095 = 32768)"
proof -
  have "first_cover False ''system/bin/ping'' android_files = path_config (octal 2 7 5 5) AID_ROOT AID_NET_RAW (Some ''system/bin/ping'')"
    by code_simp
  with fs_config_exact [of "''system/bin/ping''" False 32768] show ?thesis by (simp add: path_config_def)
qed

end
