(* ===== verification/Nameser.thy ===== *)
theory Nameser
  imports Prelude
begin

text \<open>
  The macros of \<open>arpa_nameser.h\<close>, which the decoder of \<open>base64.c\<close> includes: numbers in network order, the bit map of an NXT
  record, the classes of record types and the sizes of RSA keys. A pointer that a macro moves is a position in the buffer, and
  an access outside the buffer is \<open>OutOfBounds\<close>. The constants that no macro uses have no definition here, nor have the
  functions the header declares, which are not part of the repository.
\<close>

unbundle bit_operations_syntax

section \<open>Numbers in network order\<close>

definition NS_INT32SZ :: nat where [simp]: "NS_INT32SZ = 4"
definition NS_INT16SZ :: nat where [simp]: "NS_INT16SZ = 2"

definition NS_GET16 :: "bytes \<Rightarrow> nat \<Rightarrow> (u16 \<times> nat) outcome" where
  "NS_GET16 buf cp =
    (if cp + 1 < length buf then Inr (push_bit 8 (ucast (buf ! cp)) OR ucast (buf ! (cp + 1)), cp + NS_INT16SZ) else Inl OutOfBounds)"

definition NS_GET32 :: "bytes \<Rightarrow> nat \<Rightarrow> (u32 \<times> nat) outcome" where
  "NS_GET32 buf cp =
    (if cp + 3 < length buf then
       Inr (push_bit 24 (ucast (buf ! cp)) OR push_bit 16 (ucast (buf ! (cp + 1))) OR push_bit 8 (ucast (buf ! (cp + 2))) OR ucast (buf ! (cp + 3)),
         cp + NS_INT32SZ)
     else Inl OutOfBounds)"

definition NS_PUT16 :: "u16 \<Rightarrow> bytes \<Rightarrow> nat \<Rightarrow> (bytes \<times> nat) outcome" where
  "NS_PUT16 s buf cp =
    (let t_s = ucast s :: u32 in
     if cp + 1 < length buf then Inr (buf[cp := ucast (drop_bit 8 t_s), cp + 1 := ucast t_s], cp + NS_INT16SZ) else Inl OutOfBounds)"

definition NS_PUT32 :: "u32 \<Rightarrow> bytes \<Rightarrow> nat \<Rightarrow> (bytes \<times> nat) outcome" where
  "NS_PUT32 t_l buf cp =
    (if cp + 3 < length buf then
       Inr (buf[cp := ucast (drop_bit 24 t_l), cp + 1 := ucast (drop_bit 16 t_l), cp + 2 := ucast (drop_bit 8 t_l), cp + 3 := ucast t_l],
         cp + NS_INT32SZ)
     else Inl OutOfBounds)"

text \<open>What is put can be got back, with the pointer moved past it both times, and the bytes around it are left alone.\<close>

lemma get16_put16:
  assumes "NS_PUT16 s buf cp = Inr (buf', cp')"
  shows "NS_GET16 buf' cp = Inr (s, cp')" and "length buf' = length buf" and "take cp buf' = take cp buf" and "drop cp' buf' = drop cp' buf"
proof -
  have "push_bit 8 (ucast (ucast (drop_bit 8 (ucast s :: u32)) :: u8)) OR ucast (ucast (ucast s :: u32) :: u8) = s"
    by (rule bit_word_eqI) (auto simp: bit_simps dest: bit_imp_le_length)
  with assms show "NS_GET16 buf' cp = Inr (s, cp')" by (auto simp: NS_PUT16_def NS_GET16_def Let_def split: if_splits)
  from assms show "length buf' = length buf" "take cp buf' = take cp buf" "drop cp' buf' = drop cp' buf"
    by (auto simp: NS_PUT16_def Let_def split: if_splits)
qed

lemma get32_put32:
  fixes l :: u32
  assumes "NS_PUT32 l buf cp = Inr (buf', cp')"
  shows "NS_GET32 buf' cp = Inr (l, cp')" and "length buf' = length buf" and "take cp buf' = take cp buf" and "drop cp' buf' = drop cp' buf"
proof -
  have "push_bit 24 (ucast (ucast (drop_bit 24 l) :: u8)) OR push_bit 16 (ucast (ucast (drop_bit 16 l) :: u8)) OR
      push_bit 8 (ucast (ucast (drop_bit 8 l) :: u8)) OR ucast (ucast l :: u8) = l" (is "?m = l")
  proof (rule bit_word_eqI)
    fix n assume "n < LENGTH(32)"
    then consider "n < 8" | "8 \<le> n" "n < 16" | "16 \<le> n" "n < 24" | "24 \<le> n" "n < 32" by fastforce
    then show "bit ?m n = bit l n"
      by cases (auto simp: bit_simps)
  qed
  with assms show "NS_GET32 buf' cp = Inr (l, cp')" by (auto simp: NS_PUT32_def NS_GET32_def split: if_splits)
  from assms show "length buf' = length buf" "take cp buf' = take cp buf" "drop cp' buf' = drop cp' buf"
    by (auto simp: NS_PUT32_def split: if_splits)
qed

section \<open>The bit map of an NXT record\<close>

definition NS_NXT_BITS :: nat where [simp]: "NS_NXT_BITS = 8"

text \<open>The mask of type \<open>n\<close> in its byte.\<close>

definition nxt_byte :: "nat \<Rightarrow> u8" where
  "nxt_byte n = drop_bit (n mod NS_NXT_BITS) 128"

definition NS_NXT_BIT_SET :: "nat \<Rightarrow> bytes \<Rightarrow> bytes outcome" where
  "NS_NXT_BIT_SET n p = (let i = n div NS_NXT_BITS in if i < length p then Inr (p[i := p ! i OR nxt_byte n]) else Inl OutOfBounds)"

definition NS_NXT_BIT_CLEAR :: "nat \<Rightarrow> bytes \<Rightarrow> bytes outcome" where
  "NS_NXT_BIT_CLEAR n p = (let i = n div NS_NXT_BITS in if i < length p then Inr (p[i := p ! i AND NOT (nxt_byte n)]) else Inl OutOfBounds)"

definition NS_NXT_BIT_ISSET :: "nat \<Rightarrow> bytes \<Rightarrow> u8 outcome" where
  "NS_NXT_BIT_ISSET n p = (let i = n div NS_NXT_BITS in if i < length p then Inr (p ! i AND nxt_byte n) else Inl OutOfBounds)"

text \<open>A map of bits is a set of types: the first bit of a byte is its highest.\<close>

definition nxt_types :: "bytes \<Rightarrow> nat set" where
  "nxt_types p = {n. n div 8 < length p \<and> bit (p ! (n div 8)) (7 - n mod 8)}"

lemma bit_nxt_byte: "bit (nxt_byte n) k \<longleftrightarrow> k = 7 - n mod 8"
proof -
  have "(128 :: u8) = push_bit 7 1" by simp
  then show ?thesis unfolding nxt_byte_def NS_NXT_BITS_def
    by (auto simp only: bit_drop_bit_eq comp_def bit_push_bit_iff bit_1_iff) (auto simp: bit_simps)
qed

lemma same_type: "m div 8 = n div 8 \<Longrightarrow> 7 - m mod 8 = 7 - n mod 8 \<Longrightarrow> m = (n :: nat)"
proof -
  assume d: "m div 8 = n div 8" and r: "7 - m mod 8 = 7 - n mod 8"
  have "m mod 8 < 8" "n mod 8 < 8" by simp_all
  with r have "m mod 8 = n mod 8" by linarith
  with d show "m = n" by (metis div_mult_mod_eq)
qed

text \<open>The macros are insertion, removal and membership.\<close>

lemma nxt_macros:
  assumes "n div 8 < length p"
  shows "\<exists>p'. NS_NXT_BIT_SET n p = Inr p' \<and> length p' = length p \<and> nxt_types p' = insert n (nxt_types p)"
    and "\<exists>p'. NS_NXT_BIT_CLEAR n p = Inr p' \<and> length p' = length p \<and> nxt_types p' = nxt_types p - {n}"
    and "\<exists>b. NS_NXT_BIT_ISSET n p = Inr b \<and> (b \<noteq> 0 \<longleftrightarrow> n \<in> nxt_types p)"
proof -
  show "\<exists>p'. NS_NXT_BIT_SET n p = Inr p' \<and> length p' = length p \<and> nxt_types p' = insert n (nxt_types p)"
    using assms same_type [of _ n] by (auto simp: NS_NXT_BIT_SET_def nxt_types_def nth_list_update bit_or_iff bit_nxt_byte Let_def)
  show "\<exists>p'. NS_NXT_BIT_CLEAR n p = Inr p' \<and> length p' = length p \<and> nxt_types p' = nxt_types p - {n}"
    using assms same_type [of _ n]
    by (auto simp: NS_NXT_BIT_CLEAR_def nxt_types_def nth_list_update bit_and_iff bit_not_iff bit_nxt_byte Let_def)
  have "x AND nxt_byte n = 0 \<longleftrightarrow> \<not> bit x (7 - n mod 8)" for x
    by (auto simp: bit_eq_iff [of _ "0 :: u8"] bit_and_iff bit_nxt_byte dest: spec [of _ "7 - n mod 8"])
  then show "\<exists>b. NS_NXT_BIT_ISSET n p = Inr b \<and> (b \<noteq> 0 \<longleftrightarrow> n \<in> nxt_types p)"
    using assms by (simp add: NS_NXT_BIT_ISSET_def nxt_types_def Let_def)
qed

section \<open>Types of records\<close>

datatype ns_type = ns_t_invalid | ns_t_a | ns_t_ns | ns_t_md | ns_t_mf | ns_t_cname | ns_t_soa | ns_t_mb | ns_t_mg
    | ns_t_mr | ns_t_null | ns_t_wks | ns_t_ptr | ns_t_hinfo | ns_t_minfo | ns_t_mx | ns_t_txt | ns_t_rp | ns_t_afsdb
    | ns_t_x25 | ns_t_isdn | ns_t_rt | ns_t_nsap | ns_t_nsap_ptr | ns_t_sig | ns_t_key | ns_t_px | ns_t_gpos | ns_t_aaaa
    | ns_t_loc | ns_t_nxt | ns_t_eid | ns_t_nimloc | ns_t_srv | ns_t_atma | ns_t_naptr | ns_t_kx | ns_t_cert | ns_t_a6
    | ns_t_dname | ns_t_sink | ns_t_opt | ns_t_apl | ns_t_tkey | ns_t_tsig | ns_t_ixfr | ns_t_axfr | ns_t_mailb
    | ns_t_maila | ns_t_any | ns_t_zxfr | ns_t_max

primrec ns_type_value :: "ns_type \<Rightarrow> u32" where
  "ns_type_value ns_t_invalid = 0" | "ns_type_value ns_t_a = 1" | "ns_type_value ns_t_ns = 2" | "ns_type_value ns_t_md = 3"
  | "ns_type_value ns_t_mf = 4" | "ns_type_value ns_t_cname = 5" | "ns_type_value ns_t_soa = 6"
  | "ns_type_value ns_t_mb = 7" | "ns_type_value ns_t_mg = 8" | "ns_type_value ns_t_mr = 9"
  | "ns_type_value ns_t_null = 10" | "ns_type_value ns_t_wks = 11" | "ns_type_value ns_t_ptr = 12"
  | "ns_type_value ns_t_hinfo = 13" | "ns_type_value ns_t_minfo = 14" | "ns_type_value ns_t_mx = 15"
  | "ns_type_value ns_t_txt = 16" | "ns_type_value ns_t_rp = 17" | "ns_type_value ns_t_afsdb = 18"
  | "ns_type_value ns_t_x25 = 19" | "ns_type_value ns_t_isdn = 20" | "ns_type_value ns_t_rt = 21"
  | "ns_type_value ns_t_nsap = 22" | "ns_type_value ns_t_nsap_ptr = 23" | "ns_type_value ns_t_sig = 24"
  | "ns_type_value ns_t_key = 25" | "ns_type_value ns_t_px = 26" | "ns_type_value ns_t_gpos = 27"
  | "ns_type_value ns_t_aaaa = 28" | "ns_type_value ns_t_loc = 29" | "ns_type_value ns_t_nxt = 30"
  | "ns_type_value ns_t_eid = 31" | "ns_type_value ns_t_nimloc = 32" | "ns_type_value ns_t_srv = 33"
  | "ns_type_value ns_t_atma = 34" | "ns_type_value ns_t_naptr = 35" | "ns_type_value ns_t_kx = 36"
  | "ns_type_value ns_t_cert = 37" | "ns_type_value ns_t_a6 = 38" | "ns_type_value ns_t_dname = 39"
  | "ns_type_value ns_t_sink = 40" | "ns_type_value ns_t_opt = 41" | "ns_type_value ns_t_apl = 42"
  | "ns_type_value ns_t_tkey = 249" | "ns_type_value ns_t_tsig = 250" | "ns_type_value ns_t_ixfr = 251"
  | "ns_type_value ns_t_axfr = 252" | "ns_type_value ns_t_mailb = 253" | "ns_type_value ns_t_maila = 254"
  | "ns_type_value ns_t_any = 255" | "ns_type_value ns_t_zxfr = 256" | "ns_type_value ns_t_max = 65536"

definition ns_t_xfr_p :: "ns_type \<Rightarrow> bool" where "ns_t_xfr_p t \<longleftrightarrow> t = ns_t_axfr \<or> t = ns_t_ixfr \<or> t = ns_t_zxfr"
definition ns_t_qt_p :: "ns_type \<Rightarrow> bool" where "ns_t_qt_p t \<longleftrightarrow> ns_t_xfr_p t \<or> t = ns_t_any \<or> t = ns_t_mailb \<or> t = ns_t_maila"
definition ns_t_mrr_p :: "ns_type \<Rightarrow> bool" where "ns_t_mrr_p t \<longleftrightarrow> t = ns_t_tsig \<or> t = ns_t_opt"
definition ns_t_rr_p :: "ns_type \<Rightarrow> bool" where "ns_t_rr_p t \<longleftrightarrow> \<not> ns_t_qt_p t \<and> \<not> ns_t_mrr_p t"
definition ns_t_udp_p :: "ns_type \<Rightarrow> bool" where "ns_t_udp_p t \<longleftrightarrow> t \<noteq> ns_t_axfr \<and> t \<noteq> ns_t_zxfr"

text \<open>The values tell the types apart, and the query types are those from 251 to 256: every type is of one of three classes.\<close>

definition ns_types :: "ns_type list" where
  "ns_types =
    [ns_t_invalid, ns_t_a, ns_t_ns, ns_t_md, ns_t_mf, ns_t_cname, ns_t_soa, ns_t_mb, ns_t_mg, ns_t_mr, ns_t_null,
     ns_t_wks, ns_t_ptr, ns_t_hinfo, ns_t_minfo, ns_t_mx, ns_t_txt, ns_t_rp, ns_t_afsdb, ns_t_x25, ns_t_isdn,
     ns_t_rt, ns_t_nsap, ns_t_nsap_ptr, ns_t_sig, ns_t_key, ns_t_px, ns_t_gpos, ns_t_aaaa, ns_t_loc, ns_t_nxt,
     ns_t_eid, ns_t_nimloc, ns_t_srv, ns_t_atma, ns_t_naptr, ns_t_kx, ns_t_cert, ns_t_a6, ns_t_dname, ns_t_sink,
     ns_t_opt, ns_t_apl, ns_t_tkey, ns_t_tsig, ns_t_ixfr, ns_t_axfr, ns_t_mailb, ns_t_maila, ns_t_any, ns_t_zxfr,
     ns_t_max]"

lemma ns_types_all: "t \<in> set ns_types"
  unfolding ns_types_def by (cases t) simp_all

lemma ns_type_value_inj: "inj ns_type_value"
proof -
  have "distinct (map ns_type_value ns_types)" by code_simp
  then show ?thesis using ns_types_all by (auto simp: distinct_map inj_on_def)
qed

lemma ns_query_types: "ns_t_qt_p t \<longleftrightarrow> 251 \<le> ns_type_value t \<and> ns_type_value t \<le> 256"
  by (cases t) (simp_all add: ns_t_qt_p_def ns_t_xfr_p_def word_le_nat_alt)

lemma ns_classes: "ns_t_xfr_p t \<Longrightarrow> ns_t_qt_p t" "ns_t_qt_p t \<Longrightarrow> \<not> ns_t_mrr_p t" "\<not> ns_t_udp_p t \<Longrightarrow> ns_t_xfr_p t"
  "ns_t_rr_p t \<or> ns_t_qt_p t \<or> ns_t_mrr_p t"
  by (auto simp: ns_t_xfr_p_def ns_t_qt_p_def ns_t_mrr_p_def ns_t_rr_p_def ns_t_udp_p_def)

section \<open>RSA keys\<close>

definition NS_MD5RSA_MAX_BITS :: nat where [simp]: "NS_MD5RSA_MAX_BITS = 4096"
definition NS_MD5RSA_MAX_BYTES :: nat where "NS_MD5RSA_MAX_BYTES = (NS_MD5RSA_MAX_BITS + 7 div 8) * 2 + 3"
definition NS_MD5RSA_MAX_BASE64 :: nat where "NS_MD5RSA_MAX_BASE64 = (NS_MD5RSA_MAX_BYTES + 2) div 3 * 4"
definition NS_MD5RSA_MAX_SIZE :: nat where "NS_MD5RSA_MAX_SIZE = (NS_MD5RSA_MAX_BITS + 7) div 8"

text \<open>A modulus and an exponent of the largest size and three bytes need 1027 bytes. The macro has 8195: the
  division binds closer than the addition, so that it counts bits for bytes.\<close>

lemma md5rsa_max_bytes: "NS_MD5RSA_MAX_BYTES = 8195" "NS_MD5RSA_MAX_SIZE * 2 + 3 = 1027" "NS_MD5RSA_MAX_BASE64 = 10928"
  by (simp_all add: NS_MD5RSA_MAX_BYTES_def NS_MD5RSA_MAX_BASE64_def NS_MD5RSA_MAX_SIZE_def)

end
