(* ===== verification/Spec2Isabelle.thy ===== *)
theory Spec2Isabelle
  imports Prelude Ring Io Packet Base64 Fdevent Strings Banner Transports Threads
    SmartSocket Sockets Adb Streams FileSync SyncTransfer Endpoints Listeners Usb Jdwp Workers Services Keys Registration Usage Startup Sysdeps
    FsConfig Nameser
begin

text \<open>
  A verification library for adbd, the daemon of the Android debug bridge, as this repository has it for Linux
  (C sources under \<open>src/src\<close>: \<open>main.c\<close>, \<open>adbd\<close>, \<open>libcutils\<close>).

  \<^bold>\<open>The program.\<close> One event loop (\<open>fdevent.c\<close>) watches descriptors and calls their handlers. A connection to a host, over TCP or USB, is a
  transport (\<open>transport.c\<close>, \<open>transport_local.c\<close>, \<open>transport_usb.c\<close>, \<open>usb_linux_client.c\<close>): two threads move packets between the connection and a socket
  pair that the loop watches, and the loop gives each packet to \<open>handle_packet\<close> (\<open>adb.c\<close>). That function does the handshake and the authentication
  (\<open>adb_auth_client.c\<close>), opens streams and moves their data through sockets (\<open>sockets.c\<close>): a local socket has a descriptor, its peer, a remote socket, stands
  for the other end on a transport. A stream is connected to a service (\<open>services.c\<close>, \<open>file_sync_service.c\<close>, \<open>jdwp_service.c\<close>,
  \<open>framebuffer_service.c\<close>, \<open>log_service.c\<close>, \<open>remount_service.c\<close>); clients of the machine itself come in through the listeners of \<open>adb.c\<close> and the smart socket.
  \<open>main\<close> and \<open>adb_main\<close> bring all this up.

  \<^bold>\<open>How C is modelled.\<close> A function that may block, exit, abort, follow a null or dangling pointer or leave a buffer returns an \<open>outcome\<close> (theory
  Prelude): \<open>Inl\<close> names that end, \<open>Inr\<close> the result, and \<open>andthen\<close> is the sequence. Integers whose width matters are words; buffers are byte lists whose
  bounds every access checks. Structures that the code shares by pointer live in stores by address, where \<open>None\<close> is freed memory, so that a use after free is the
  value \<open>Dangling\<close>. The kernel is part of the state (record \<open>world\<close>, theory Io): what it will answer to reads and writes, any function of the calls made so far for
  every other system call, the bytes it has accepted and the log of calls. Theorems hold for all such kernels unless a hypothesis names the
  answers they need. Loops over data are total functions with a measure; a loop that the environment drives for ever
  (the threads that wait for connections or endpoints) is modelled a round at a time or with fuel. The loop that
  dispatches pending events has fuel because a handler may make more of them pending; as much as there are entries is enough when handlers leave the other entries alone
  (\<open>fdevent_drain_all\<close>). \<open>free_keys\<close> and the restarting loop of
  \<open>close_all_sockets\<close> have fuel in the model, with theorems that the fuel the model gives them (the number of addresses given out, the number of sockets) suffices.

  \<^bold>\<open>The theories.\<close>

  \<^item> Prelude, Strings, Io: outcomes, words and byte layout; the C library functions on strings; the retrying calls of \<open>sysdeps.h\<close> and \<open>readx\<close>, \<open>writex\<close>. The
    locales \<open>byte_source\<close> and \<open>byte_sink\<close> say what a complete transfer promises however the kernel cuts it, and are interpreted for \<open>readx\<close>, \<open>writex\<close> and the USB transfers.
  \<^item> Ring: the intrusive lists, pointer by pointer, for every copy of the code; the locale \<open>intrusive_list\<close> is interpreted for each. The components
    that follow use the list a ring represents.
  \<^item> Fdevent: table, epoll set and pending list, their invariant \<open>loop_inv\<close>, kept by every operation; order and completeness of dispatch.
  \<^item> Packet, Base64, Banner, SmartSocket: the wire formats, with round trips between writer and reader and the bounds of every buffer.
  \<^item> Transports, Threads, Registration: the choice of a transport; the two threads and, as a step relation over all interleavings, the shutdown of a
    transport; the registration socket pair through which transports are started and freed, and the connections that create them.
  \<^item> Sockets: local, remote and smart sockets with their invariant \<open>sock_inv\<close>: order of data, closing without loss or dangling pointers.
  \<^item> Adb, Keys: \<open>handle_packet\<close> with every command; nothing passes before authentication; the key files and the framework that confirms keys.
  \<^item> Streams: the whole life of a stream from \<open>A_OPEN\<close> on, as the step relation \<open>runs\<close> over packets of the host, events of the descriptor and anything else the
    daemon does. The bytes of both directions arrive in order and complete, each side has at most one packet that is not acknowledged, and no
    handler crashes (\<open>stream_flow\<close>, \<open>stream_no_crash\<close>).
  \<^item> Listeners: port forwards, as a refinement of a finite map from names to targets.
  \<^item> Endpoints, Usb: socket addresses and servers, USB descriptors and transfers; no descriptor is lost on an error path (locale \<open>socket_opener\<close>).
  \<^item> FileSync, SyncTransfer: the file transfer service, and that a file sent or fetched is stored byte for byte.
  \<^item> Workers, Services, Jdwp: the services that run in threads, the dispatch by name, the Java debug service.
  \<^item> Usage, Startup: the help text, whose table is that of the options \<open>main\<close> takes; the command line and \<open>adb_main\<close>.
  \<^item> Sysdeps: the wrappers of \<open>sysdeps.h\<close> with every attempt and every close-on-exec call. In the other theories a repeated call is logged once and the flag is not
    seen; \<open>wrappers_refine\<close> justifies this for every program over the wrappers, so that what they show of all kernels holds of the calls that are really made.
  \<^item> FsConfig, Nameser: two headers whose code nothing calls. \<open>fs_config\<close> is the first match in its tables, and the entries that no path
    reaches are found; the macros of the name service with their round trips, and the bit map of a record as a set.
  \<^item> This theory: a property that spans accepting, registering and handling packets.

  \<^bold>\<open>State and operations.\<close> \<open>evloop\<close> is the state of \<open>fdevent.c\<close>; \<open>dstate\<close> adds the sockets, transports and the kernel; \<open>daemon\<close> adds the globals of \<open>adb.c\<close>;
  \<open>lstate\<close>, \<open>jstate\<close>, \<open>sstate\<close>, \<open>rstate\<close>, \<open>keystore\<close> add those of listeners, JDWP, services, registration and keys; \<open>boot\<close> holds all of them. An operation has the name of its C function where
  HOL allows it; parts of long functions (a case of a switch, a loop) have names of their own.

  \<^bold>\<open>Errors in the code.\<close> Some theorems state that the code does something it should not: a second public key ends the daemon, a Java process that connects does too, a link target
  can contain bytes of an earlier transfer, the argument of a reboot is freed twice, \<open>fdevent_set\<close> drops the wrong events, a descriptor is closed twice,
  entries of a table cannot be found.

  \<^bold>\<open>Not modelled.\<close> The scheduling of threads outside the shutdown of a transport: a thread of a service is its function applied to the
  state it sees. Signals, \<open>umask\<close>, sleeping, messages on the standard streams, and the names \<open>sysdeps.h\<close> gives to the mutexes and conditions of the
  thread library. Failing allocation, except where a hypothesis says so. The cryptography of \<open>mincrypt\<close>, which is declared and never called. The constants
  and structures of \<open>arpa_nameser.h\<close> that its macros do not use, and the old names for them in \<open>arpa_nameser_compat.h\<close>.
\<close>

section \<open>From the connection to the gate\<close>

text \<open>Events on the socket of a transport. Before each, the threads and the kernel put any packets into the store and any
  answers into the world.\<close>

record arrival =
  ar_heap :: "addr \<Rightarrow> apacket option"
  ar_world :: world
  ar_events :: u16

fun socket_events :: "(string \<Rightarrow> dstate \<Rightarrow> (addr \<times> dstate) outcome) \<Rightarrow> int \<Rightarrow> addr \<Rightarrow> arrival list \<Rightarrow> rstate \<Rightarrow> rstate outcome" where
  "socket_events open_service fd t [] st = Inr st"
| "socket_events open_service fd t (e # es) st =
    andthen (transport_socket_events open_service fd (ar_events e) t
        (st\<lparr>pheap := ar_heap e, dm := (dm st)\<lparr>ds := (rds st)\<lparr>wld := ar_world e\<rparr>\<rparr>\<rparr>)) (socket_events open_service fd t es)"

lemma kept_out_world: "kept_out t (d\<lparr>ds := (ds d)\<lparr>wld := w\<rparr>\<rparr>) d' \<Longrightarrow> kept_out t d d'"
  by (simp add: kept_out_def only_handshake_def)

lemma kept_out_trans: "kept_out t d e \<Longrightarrow> kept_out t e f \<Longrightarrow> kept_out t d f"
  by (auto simp: kept_out_def intro: only_handshake_trans)

lemma locked_out_world: "locked_out t (d\<lparr>ds := (ds d)\<lparr>wld := w\<rparr>\<rparr>) = locked_out t d"
  by (simp add: locked_out_def)

lemma kept_out_wld: "locked_out t d \<Longrightarrow> kept_out t d (d\<lparr>ds := (ds d)\<lparr>wld := w\<rparr>\<rparr>)"
  by (simp add: kept_out_def only_handshake_def locked_out_world)

lemma handle_packet_kept: "locked_out t d \<Longrightarrow> handle_packet open_service p t d = Inr d' \<Longrightarrow> kept_out t d d'"
  using handle_packet_out [of t d open_service p] by (simp add: safely_def)

lemma socket_event_out:
  assumes out: "locked_out t (dm st)" and r: "transport_socket_events open_service fd ev t st = Inr st'"
  shows "kept_out t (dm st) (dm st')"
proof (cases "has ev FDE_READ")
  case False
  with out r show ?thesis by (auto simp: transport_socket_events_def kept_out_def)
next
  case True
  then obtain x w where x: "read_packet fd (wld (rds st)) = Inr (x, w)" using r by (auto simp: transport_socket_events_def on_rw_def andthen_Inr_iff)
  let ?d = "(dm st)\<lparr>ds := (rds st)\<lparr>wld := w\<rparr>\<rparr>"
  have kept: "kept_out t (dm st) ?d" and out1: "locked_out t ?d" using kept_out_wld [OF out] by (auto simp: kept_out_def)
  show ?thesis
  proof (cases x)
    case None
    with r True x kept show ?thesis by (auto simp: transport_socket_events_def on_rw_def)
  next
    case (Some a)
    with r True x obtain p d' where "handle_packet open_service p t ?d = Inr d'" "dm st' = d'"
      by (auto simp: transport_socket_events_def on_rw_def on_dm_def andthen_Inr_iff split: option.splits)
    with handle_packet_kept [OF out1] kept show ?thesis by (auto intro: kept_out_trans)
  qed
qed

lemma socket_events_out:
  assumes "locked_out t (dm st)" and "socket_events open_service fd t es st = Inr st'"
  shows "kept_out t (dm st) (dm st')"
  using assms
proof (induction es arbitrary: st)
  case Nil
  then show ?case by (simp add: kept_out_def)
next
  case (Cons e es)
  let ?st = "st\<lparr>pheap := ar_heap e, dm := (dm st)\<lparr>ds := (rds st)\<lparr>wld := ar_world e\<rparr>\<rparr>\<rparr>"
  from Cons.prems(2) obtain st1 where st1: "transport_socket_events open_service fd (ar_events e) t ?st = Inr st1" "socket_events open_service fd t es st1 = Inr st'"
    by (auto simp: andthen_Inr_iff)
  have k0: "kept_out t (dm st) (dm ?st)" using kept_out_wld [OF Cons.prems(1)] by simp
  then have k1: "kept_out t (dm ?st) (dm st1)" using socket_event_out [OF _ st1(1)] by (simp add: kept_out_def)
  then have "kept_out t (dm st1) (dm st')" using Cons.IH [OF _ st1(2)] by (simp add: kept_out_def)
  with k0 k1 show ?case by (meson kept_out_trans)
qed

text \<open>C2: a new connection is gated from the start. When authentication is required, a connection that is accepted, registered and started has
  reached the event loop as a transport for which, whatever packets arrive at its socket afterwards, whatever the kernel and the
  threads do between them, no socket is opened, closed or changed and nothing but SYNC and AUTH packets is sent: it
  stays offline.\<close>

theorem new_connection_gated:
  assumes inv: "loop_inv (evl (rds st)) pend" and room: "room_ok (rds st)" and t: "fresh (rds st) < 2 ^ 64" and pad: "length pad = 4"
    and wr: "16 \<le> wr_count (w_wr (wld (rds st)) (reg_send st))" and a: "new_fd a (rds st)" and k: "kernel_starts a b (wld (rds st))"
    and auth: "auth_enabled (dm st)" "\<not> daemon.HOST (dm st)"
  shows "\<exists>st1 msg. register_socket_transport pad s name st = Inr st1 \<and>
    w_out (wld (rds st1)) (reg_send st) = w_out (wld (rds st)) (reg_send st) @ msg \<and>
    (\<forall>w. avail (reg_recv st) w = msg \<longrightarrow> w_kern w = w_kern (wld (rds st)) \<longrightarrow>
      (\<exists>st2. transport_registration_func (reg_recv st) FDE_READ (st1\<lparr>dm := (dm st1)\<lparr>ds := (rds st1)\<lparr>wld := w\<rparr>\<rparr>\<rparr>) = Inr st2 \<and>
        socks (rds st2) = socks (rds st) \<and>
        (\<forall>open_service fd es st3. socket_events open_service fd (fresh (rds st)) es st2 = Inr st3 \<longrightarrow>
          locked_out (fresh (rds st)) (dm st3) \<and> only_handshake (fresh (rds st)) (dm st2) (dm st3))))"
proof -
  let ?t = "fresh (rds st)" and ?y = "new_socket_transport s name (fresh (rds st))"
  have t0: "?t \<noteq> 0" using room by (auto simp: room_ok_def)
  obtain w1 where w1: "register_socket_transport pad s name st = Inr (posted ?y w1 st)"
    "w_out w1 (reg_send st) = w_out (wld (rds st)) (reg_send st) @ tmsg_bytes \<lparr>m_transport = ?t, m_action = 1\<rparr> pad"
    by (rule register_socket_posts [of st pad s name]) (use t0 wr pad in auto)
  have "\<exists>st2. transport_registration_func (reg_recv st) FDE_READ (posted ?y w st) = Inr st2 \<and> socks (rds st2) = socks (rds st) \<and>
      (\<forall>open_service fd es st3. socket_events open_service fd ?t es st2 = Inr st3 \<longrightarrow> locked_out ?t (dm st3) \<and> only_handshake ?t (dm st2) (dm st3))"
    if w: "avail (reg_recv st) w = tmsg_bytes \<lparr>m_transport = ?t, m_action = 1\<rparr> pad" "w_kern w = w_kern (wld (rds st))" for w
  proof -
    let ?p = "posted ?y w st"
    obtain l w' where e: "transport_registration_func (reg_recv st) FDE_READ ?p = Inr (enlisted ?t (started a b ?y) l w' ?p)"
      by (rule posted_enlisted [OF inv room t pad a k w])
    have "locked_out ?t (dm (enlisted ?t (started a b ?y) l w' ?p))" using auth
      by (simp add: locked_out_def enlisted_def posted_def started_def init_socket_transport_def zero_transport_def)
    then have "locked_out ?t (dm st3) \<and> only_handshake ?t (dm (enlisted ?t (started a b ?y) l w' ?p)) (dm st3)"
      if "socket_events open_service fd ?t es (enlisted ?t (started a b ?y) l w' ?p) = Inr st3" for open_service fd es st3
      using socket_events_out [OF _ that] by (simp add: kept_out_def)
    with e show ?thesis by (intro exI [of _ "enlisted ?t (started a b ?y) l w' ?p"]) (simp add: enlisted_def posted_def)
  qed
  then show ?thesis using w1
    by (intro exI [of _ "posted ?y w1 st"] exI [of _ "tmsg_bytes \<lparr>m_transport = ?t, m_action = 1\<rparr> pad"]) (simp add: posted_def)
qed

theorem new_connection_gated_witness:
  "\<exists>st1 msg. register_socket_transport [0, 0, 0, 0] 6 None (sample_reg []) = Inr st1 \<and> w_out (wld (rds st1)) 4 = msg \<and>
    (\<exists>st2. transport_registration_func 5 FDE_READ (st1\<lparr>dm := (dm st1)\<lparr>ds := (rds st1)\<lparr>wld := (wld (rds (sample_reg [])))\<lparr>w_rd := (\<lambda>_. map RdData [msg])\<rparr>\<rparr>\<rparr>\<rparr>) = Inr st2 \<and>
      (\<forall>fd es st3. socket_events (\<lambda>name d. Inr (0, d)) fd 200 es st2 = Inr st3 \<longrightarrow> locked_out 200 (dm st3)))"
proof -
  let ?st = "sample_reg []"
  have r: "reg_send ?st = 4" "reg_recv ?st = 5" "w_out (wld (rds ?st)) 4 = []" "wr_count (w_wr (wld (rds ?st)) 4) = 16" "auth_enabled (dm ?st)" "\<not> daemon.HOST (dm ?st)"
    by (simp_all add: sample_reg_def idle_world_def sample_auth_def)
  note f = sample_reg_facts [of "[]"]
  have "fresh (rds ?st) < 2 ^ 64" "length [0, 0, 0, 0 :: u8] = 4" "16 \<le> wr_count (w_wr (wld (rds ?st)) (reg_send ?st))" by (simp_all add: f(7) r)
  from new_connection_gated [OF f(1,2) this f(3,4) r(5,6), of 6 None]
  obtain st1 msg where st1: "register_socket_transport [0, 0, 0, 0] 6 None ?st = Inr st1" "w_out (wld (rds st1)) (reg_send ?st) = w_out (wld (rds ?st)) (reg_send ?st) @ msg"
    and gate: "\<forall>w. avail (reg_recv ?st) w = msg \<longrightarrow> w_kern w = w_kern (wld (rds ?st)) \<longrightarrow>
      (\<exists>st2. transport_registration_func (reg_recv ?st) FDE_READ (st1\<lparr>dm := (dm st1)\<lparr>ds := (rds st1)\<lparr>wld := w\<rparr>\<rparr>\<rparr>) = Inr st2 \<and> socks (rds st2) = socks (rds ?st) \<and>
        (\<forall>open_service fd es st3. socket_events open_service fd (fresh (rds ?st)) es st2 = Inr st3 \<longrightarrow>
          locked_out (fresh (rds ?st)) (dm st3) \<and> only_handshake (fresh (rds ?st)) (dm st2) (dm st3)))"
    by blast
  let ?w = "(wld (rds ?st))\<lparr>w_rd := (\<lambda>_. map RdData [msg])\<rparr>"
  have "avail (reg_recv ?st) ?w = msg" "w_kern ?w = w_kern (wld (rds ?st))" by (simp_all add: avail_def)
  with gate obtain st2 where st2: "transport_registration_func (reg_recv ?st) FDE_READ (st1\<lparr>dm := (dm st1)\<lparr>ds := (rds st1)\<lparr>wld := ?w\<rparr>\<rparr>\<rparr>) = Inr st2"
    "\<forall>open_service fd es st3. socket_events open_service fd (fresh (rds ?st)) es st2 = Inr st3 \<longrightarrow> locked_out (fresh (rds ?st)) (dm st3) \<and> only_handshake (fresh (rds ?st)) (dm st2) (dm st3)"
    by blast
  show ?thesis using st1 st2 unfolding r f(7) by (intro exI [of _ st1] exI [of _ msg] conjI exI [of _ st2]) (auto simp: st2(1) [unfolded r])
qed

end
